(* ===== verification/Prelude.thy ===== *)
theory Prelude
  imports Main "HOL-Library.Word"
begin

text \<open>
  Shared vocabulary of the development: the machine types of the program, Rust strings as
  lists of Unicode scalar values with the string operations the sources call, the
  \<open>Result\<close> plumbing (\<open>?\<close>, \<open>map_err\<close>, \<open>ok_or\<close>) over the sum type, and the generic
  lemmas about them that every component uses.

  A Rust \<open>String\<close> is UTF-8 text.  It is modelled by the list of its scalar values
  (\<open>char\<close>s), so \<open>chars().count()\<close> is the length of the list and \<open>len()\<close> is
  \<open>utf8_len\<close>.  The standard library's case mapping is a table of the Unicode Character
  Database; the ASCII part and the final-sigma rule are written out, the rest of the table
  is the record \<open>unicode\<close>.
\<close>

section \<open>Machine types\<close>

type_synonym u32 = "32 word"
type_synonym u64 = "64 word"
type_synonym uuid = "128 word"

text \<open>Durations and instants are counted in nanoseconds.\<close>

type_synonym duration = nat
type_synonym instant = nat
type_synonym timestamp = int

named_theorems result_simps \<open>computation rules of the Result combinators\<close>
named_theorems string_simps \<open>computation and length rules of the string operations\<close>

section \<open>Results\<close>

text \<open>\<open>Result<T, E>\<close> is \<open>'e + 'a\<close>, \<open>Inl\<close> the error.\<close>

fun and_then :: "'e + 'a \<Rightarrow> ('a \<Rightarrow> 'e + 'b) \<Rightarrow> 'e + 'b" where
  "and_then (Inl e) f = Inl e"
| "and_then (Inr a) f = f a"

fun map_err :: "('e \<Rightarrow> 'f) \<Rightarrow> 'e + 'a \<Rightarrow> 'f + 'a" where
  "map_err f (Inl e) = Inl (f e)"
| "map_err f (Inr a) = Inr a"

fun map_ok :: "('a \<Rightarrow> 'b) \<Rightarrow> 'e + 'a \<Rightarrow> 'e + 'b" where
  "map_ok f (Inl e) = Inl e"
| "map_ok f (Inr a) = Inr (f a)"

fun ok_or :: "'e \<Rightarrow> 'a option \<Rightarrow> 'e + 'a" where
  "ok_or e None = Inl e"
| "ok_or e (Some a) = Inr a"

fun is_ok :: "'e + 'a \<Rightarrow> bool" where
  "is_ok (Inl e) = False"
| "is_ok (Inr a) = True"

definition ensure :: "bool \<Rightarrow> 'e \<Rightarrow> 'e + unit" where
  "ensure b e = (if b then Inr () else Inl e)"

text \<open>\<open>iter().map(f).collect::<Result<Vec<_>, _>>()\<close> stops at the first error.\<close>

fun collect_results :: "('a \<Rightarrow> 'e + 'b) \<Rightarrow> 'a list \<Rightarrow> 'e + 'b list" where
  "collect_results f [] = Inr []"
| "collect_results f (x # xs) =
     and_then (f x) (\<lambda>y. and_then (collect_results f xs) (\<lambda>ys. Inr (y # ys)))"

lemma and_then_Inr [result_simps]:
  "and_then r f = Inr b \<longleftrightarrow> (\<exists>a. r = Inr a \<and> f a = Inr b)"
  by (cases r) auto

lemma and_then_Inl [result_simps]:
  "and_then r f = Inl e \<longleftrightarrow> r = Inl e \<or> (\<exists>a. r = Inr a \<and> f a = Inl e)"
  by (cases r) auto

lemma map_err_Inr [result_simps]: "map_err f r = Inr b \<longleftrightarrow> r = Inr b"
  by (cases r) auto

lemma map_err_Inl [result_simps]: "map_err f r = Inl e \<longleftrightarrow> (\<exists>d. r = Inl d \<and> e = f d)"
  by (cases r) auto

lemma map_ok_Inr [result_simps]: "map_ok f r = Inr b \<longleftrightarrow> (\<exists>a. r = Inr a \<and> b = f a)"
  by (cases r) auto

lemma map_ok_Inl [result_simps]: "map_ok f r = Inl e \<longleftrightarrow> r = Inl e"
  by (cases r) auto

lemma ok_or_Inr [result_simps]: "ok_or e r = Inr b \<longleftrightarrow> r = Some b"
  by (cases r) auto

lemma ok_or_Inl [result_simps]: "ok_or e r = Inl d \<longleftrightarrow> r = None \<and> d = e"
  by (cases r) auto

lemma ensure_Inr [result_simps]: "ensure b e = Inr u \<longleftrightarrow> b"
  by (auto simp: ensure_def)

lemma ensure_Inl [result_simps]: "ensure b e = Inl d \<longleftrightarrow> \<not> b \<and> d = e"
  by (auto simp: ensure_def)

lemma is_ok_iff: "is_ok r \<longleftrightarrow> (\<exists>a. r = Inr a)"
  by (cases r) auto

lemma collect_results_Inr:
  "collect_results f xs = Inr ys \<longleftrightarrow> list_all2 (\<lambda>x y. f x = Inr y) xs ys"
  by (induction xs arbitrary: ys) (auto simp: result_simps list_all2_Cons1)

lemma collect_results_all_ok:
  "\<forall>x \<in> set xs. f x = Inr (g x) \<Longrightarrow> collect_results f xs = Inr (map g xs)"
  by (induction xs) auto

lemma collect_results_length: "collect_results f xs = Inr ys \<Longrightarrow> length ys = length xs"
  by (auto simp: collect_results_Inr dest: list_all2_lengthD)

section \<open>Fallible operations on a state\<close>

text \<open>
  A method behind a port takes the state it works on and returns its \<open>Result\<close> with the new
  state; \<open>op_bind\<close> is \<open>?\<close> after an awaited call.
\<close>

type_synonym ('s, 'e, 'a) op = "'s \<Rightarrow> ('e + 'a) \<times> 's"

named_theorems op_simps \<open>computation rules of the operation combinators\<close>
named_theorems keeps \<open>operations that keep a predicate of the state\<close>

definition lift_result :: "'e + 'a \<Rightarrow> ('s, 'e, 'a) op" where
  "lift_result r s = (r, s)"

definition op_bind :: "('s, 'e, 'a) op \<Rightarrow> ('a \<Rightarrow> ('s, 'e, 'b) op) \<Rightarrow> ('s, 'e, 'b) op" where
  "op_bind m f s = (case m s of (Inl e, s') \<Rightarrow> (Inl e, s') | (Inr a, s') \<Rightarrow> f a s')"

definition op_map_err :: "('e \<Rightarrow> 'f) \<Rightarrow> ('s, 'e, 'a) op \<Rightarrow> ('s, 'f, 'a) op" where
  "op_map_err g m s = (case m s of (r, s') \<Rightarrow> (map_err g r, s'))"

text \<open>\<open>op_keeps P m\<close>: whatever \<open>m\<close> returns, it keeps \<open>P\<close>.\<close>

definition op_keeps :: "('s \<Rightarrow> bool) \<Rightarrow> ('s, 'e, 'a) op \<Rightarrow> bool" where
  "op_keeps P m \<longleftrightarrow> (\<forall>s. P s \<longrightarrow> P (snd (m s)))"

lemma op_bind_Inr [op_simps]:
  "op_bind m f s = (Inr b, t) \<longleftrightarrow> (\<exists>a s'. m s = (Inr a, s') \<and> f a s' = (Inr b, t))"
  by (auto simp: op_bind_def split: prod.splits sum.splits)

lemma op_bind_Inl [op_simps]:
  "op_bind m f s = (Inl e, t) \<longleftrightarrow>
     m s = (Inl e, t) \<or> (\<exists>a s'. m s = (Inr a, s') \<and> f a s' = (Inl e, t))"
  by (auto simp: op_bind_def split: prod.splits sum.splits)

lemma op_map_err_Inr [op_simps]: "op_map_err g m s = (Inr b, t) \<longleftrightarrow> m s = (Inr b, t)"
  by (auto simp: op_map_err_def result_simps split: prod.splits)

lemma op_map_err_Inl [op_simps]:
  "op_map_err g m s = (Inl e, t) \<longleftrightarrow> (\<exists>d. m s = (Inl d, t) \<and> e = g d)"
  by (auto simp: op_map_err_def result_simps split: prod.splits)

lemma lift_result_eq [op_simps]: "lift_result r s = (r', t) \<longleftrightarrow> r = r' \<and> s = t"
  by (auto simp: lift_result_def)

lemma op_keepsI: "(\<And>s. P s \<Longrightarrow> P (snd (m s))) \<Longrightarrow> op_keeps P m"
  by (simp add: op_keeps_def)

lemma op_keepsD: "op_keeps P m \<Longrightarrow> P s \<Longrightarrow> P (snd (m s))"
  by (simp add: op_keeps_def)

lemma op_keeps_result: "op_keeps P m \<Longrightarrow> P s \<Longrightarrow> m s = (r, t) \<Longrightarrow> P t"
  by (metis op_keepsD snd_conv)

lemma keeps_lift [keeps]: "op_keeps P (lift_result r)"
  by (simp add: op_keeps_def lift_result_def)

lemma keeps_bind [keeps]: "op_keeps P m \<Longrightarrow> (\<And>a. op_keeps P (f a)) \<Longrightarrow> op_keeps P (op_bind m f)"
  by (force simp: op_keeps_def op_bind_def split: prod.splits sum.splits)

lemma keeps_map_err [keeps]: "op_keeps P m \<Longrightarrow> op_keeps P (op_map_err g m)"
  by (force simp: op_keeps_def op_map_err_def split: prod.splits)

section \<open>Strings\<close>

type_synonym rchar = nat
type_synonym rstring = "rchar list"

text \<open>String literals of the sources.\<close>

definition lit :: "string \<Rightarrow> rstring" where
  "lit s = map of_char s"

lemma lit_simps [simp]: "lit [] = []" "lit (c # s) = of_char c # lit s"
  by (simp_all add: lit_def)

text \<open>\<open>str::len\<close>: the number of bytes of the UTF-8 encoding.\<close>

definition utf8_width :: "rchar \<Rightarrow> nat" where
  "utf8_width c = (if c < 128 then 1 else if c < 2048 then 2 else if c < 65536 then 3 else 4)"

definition utf8_len :: "rstring \<Rightarrow> nat" where
  "utf8_len s = sum_list (map utf8_width s)"

text \<open>\<open>char::is_whitespace\<close>: the Unicode property White\_Space.\<close>

definition is_whitespace :: "rchar \<Rightarrow> bool" where
  "is_whitespace c \<longleftrightarrow> (9 \<le> c \<and> c \<le> 13) \<or> c = 32 \<or> c = 133 \<or> c = 160 \<or> c = 5760 \<or>
     (8192 \<le> c \<and> c \<le> 8202) \<or> c = 8232 \<or> c = 8233 \<or> c = 8239 \<or> c = 8287 \<or> c = 12288"

definition trim_start :: "rstring \<Rightarrow> rstring" where
  "trim_start s = dropWhile is_whitespace s"

definition trim_end :: "rstring \<Rightarrow> rstring" where
  "trim_end s = rev (dropWhile is_whitespace (rev s))"

definition trim :: "rstring \<Rightarrow> rstring" where
  "trim s = trim_end (trim_start s)"

text \<open>\<open>str::split_once\<close> and \<open>str::split\<close> with a character pattern.\<close>

fun split_once :: "rchar \<Rightarrow> rstring \<Rightarrow> (rstring \<times> rstring) option" where
  "split_once c [] = None"
| "split_once c (x # xs) =
     (if x = c then Some ([], xs)
      else map_option (\<lambda>(a, b). (x # a, b)) (split_once c xs))"

fun split_on :: "rchar \<Rightarrow> rstring \<Rightarrow> rstring list" where
  "split_on c [] = [[]]"
| "split_on c (x # xs) =
     (if x = c then [] # split_on c xs
      else (case split_on c xs of [] \<Rightarrow> [[x]] | w # ws \<Rightarrow> (x # w) # ws))"

text \<open>The inverse of \<open>split_on\<close>: the pieces with the separator between them.\<close>

fun join_with :: "rchar \<Rightarrow> rstring list \<Rightarrow> rstring" where
  "join_with c [] = []"
| "join_with c [w] = w"
| "join_with c (w # v # ws) = w @ c # join_with c (v # ws)"

text \<open>\<open>str::contains\<close>, \<open>strip_prefix\<close> and \<open>strip_suffix\<close> with a string pattern.\<close>

fun contains :: "rstring \<Rightarrow> rstring \<Rightarrow> bool" where
  "contains p [] = (p = [])"
| "contains p (x # xs) = (take (length p) (x # xs) = p \<or> contains p xs)"

definition strip_prefix :: "rstring \<Rightarrow> rstring \<Rightarrow> rstring option" where
  "strip_prefix p s = (if take (length p) s = p then Some (drop (length p) s) else None)"

definition strip_suffix :: "rstring \<Rightarrow> rstring \<Rightarrow> rstring option" where
  "strip_suffix p s = map_option rev (strip_prefix (rev p) (rev s))"

text \<open>ASCII case.\<close>

definition is_ascii_upper :: "rchar \<Rightarrow> bool" where
  "is_ascii_upper c \<longleftrightarrow> 65 \<le> c \<and> c \<le> 90"

definition is_ascii_lower :: "rchar \<Rightarrow> bool" where
  "is_ascii_lower c \<longleftrightarrow> 97 \<le> c \<and> c \<le> 122"

definition is_ascii_digit :: "rchar \<Rightarrow> bool" where
  "is_ascii_digit c \<longleftrightarrow> 48 \<le> c \<and> c \<le> 57"

definition to_ascii_lower :: "rchar \<Rightarrow> rchar" where
  "to_ascii_lower c = (if is_ascii_upper c then c + 32 else c)"

definition eq_ignore_ascii_case :: "rstring \<Rightarrow> rstring \<Rightarrow> bool" where
  "eq_ignore_ascii_case s t \<longleftrightarrow> map to_ascii_lower s = map to_ascii_lower t"

lemma whitespace_simps [string_simps]:
  "is_whitespace 32" "\<not> is_whitespace 64" "\<not> is_whitespace 46"
  by (simp_all add: is_whitespace_def)

subsection \<open>Lemmas about splitting and trimming\<close>

lemma split_once_Some:
  "split_once c s = Some (a, b) \<longleftrightarrow> s = a @ c # b \<and> c \<notin> set a"
  by (induction s arbitrary: a b) (auto simp: Cons_eq_append_conv)

lemma split_once_None: "split_once c s = None \<longleftrightarrow> c \<notin> set s"
  by (induction s) auto

lemma split_on_not_Nil [simp]: "split_on c s \<noteq> []"
  by (induction s) (auto split: list.splits)

lemma join_with_Cons: "ws \<noteq> [] \<Longrightarrow> join_with c (w # ws) = w @ c # join_with c ws"
  by (cases ws) auto

lemma join_with_Cons_char: "ws \<noteq> [] \<Longrightarrow> join_with c ((x # hd ws) # tl ws) = x # join_with c ws"
  by (cases ws; cases "tl ws") auto

lemma join_split_on: "join_with c (split_on c s) = s"
proof (induction s)
  case (Cons x s)
  then show ?case
    by (cases "split_on c s"; cases "tl (split_on c s)") (auto split: list.splits)
qed simp

lemma split_on_pieces: "w \<in> set (split_on c s) \<Longrightarrow> c \<notin> set w"
  by (induction s arbitrary: w) (auto split: list.splits if_splits)

lemma split_on_single: "c \<notin> set s \<Longrightarrow> split_on c s = [s]"
  by (induction s) auto

lemma split_on_append: "c \<notin> set a \<Longrightarrow> split_on c (a @ c # s) = a # split_on c s"
  by (induction a) auto

lemma split_join_with:
  "ws \<noteq> [] \<Longrightarrow> \<forall>w \<in> set ws. c \<notin> set w \<Longrightarrow> split_on c (join_with c ws) = ws"
  by (induction c ws rule: join_with.induct) (auto simp: split_on_single split_on_append)

lemma length_split_on: "2 \<le> length (split_on c s) \<longleftrightarrow> c \<in> set s"
proof (induction s)
  case (Cons x s)
  then show ?case
    by (cases "split_on c s") (auto simp: Suc_le_eq)
qed simp

lemma trim_start_id: "s = [] \<or> \<not> is_whitespace (hd s) \<Longrightarrow> trim_start s = s"
  by (cases s) (auto simp: trim_start_def)

lemma trim_end_id: "s = [] \<or> \<not> is_whitespace (last s) \<Longrightarrow> trim_end s = s"
  by (cases s rule: rev_cases) (auto simp: trim_end_def)

lemma trim_start_hd: "trim_start s = [] \<or> \<not> is_whitespace (hd (trim_start s))"
  unfolding trim_start_def using hd_dropWhile by blast

lemma trim_end_last: "trim_end s = [] \<or> \<not> is_whitespace (last (trim_end s))"
  unfolding trim_end_def using hd_dropWhile [of is_whitespace "rev s"]
  by (auto simp: last_rev)

lemma trim_end_hd: "trim_end s \<noteq> [] \<Longrightarrow> hd (trim_end s) = hd s"
proof -
  assume ne: "trim_end s \<noteq> []"
  have "s = trim_end s @ rev (takeWhile is_whitespace (rev s))"
    unfolding trim_end_def by (metis rev_append rev_rev_ident takeWhile_dropWhile_id)
  with ne show ?thesis by (metis hd_append2)
qed

lemma trim_id:
  "s = [] \<or> (\<not> is_whitespace (hd s) \<and> \<not> is_whitespace (last s)) \<Longrightarrow> trim s = s"
  by (auto simp: trim_def trim_start_id trim_end_id)

lemma trim_no_whitespace: "\<forall>c \<in> set s. \<not> is_whitespace c \<Longrightarrow> trim s = s"
  by (rule trim_id) auto

lemma trim_ends: "trim s = [] \<or> \<not> is_whitespace (hd (trim s)) \<and> \<not> is_whitespace (last (trim s))"
proof (cases "trim_end (trim_start s) = []")
  case False
  then have "trim_start s \<noteq> []" by (auto simp: trim_end_def)
  with False trim_start_hd [of s] trim_end_hd [of "trim_start s"] trim_end_last [of "trim_start s"]
  show ?thesis by (auto simp: trim_def)
qed (simp add: trim_def)

lemma trim_idem [simp]: "trim (trim s) = trim s"
  using trim_ends [of s] by (auto intro: trim_id)

lemma set_trim: "set (trim s) \<subseteq> set s"
proof
  fix c assume "c \<in> set (trim s)"
  then have "c \<in> set (dropWhile is_whitespace (rev (dropWhile is_whitespace s)))"
    by (simp add: trim_def trim_end_def trim_start_def)
  then have "c \<in> set (dropWhile is_whitespace s)" by (auto dest: set_dropWhileD)
  then show "c \<in> set s" by (auto dest: set_dropWhileD)
qed

lemma utf8_len_simps [string_simps]:
  "utf8_len [] = 0" "utf8_len (c # s) = utf8_width c + utf8_len s"
  "utf8_len (s @ t) = utf8_len s + utf8_len t"
  by (simp_all add: utf8_len_def)

lemma utf8_len_ascii: "\<forall>c \<in> set s. c < 128 \<Longrightarrow> utf8_len s = length s"
  by (induction s) (auto simp: utf8_len_def utf8_width_def)

lemma length_le_utf8_len: "length s \<le> utf8_len s"
  by (induction s) (auto simp: utf8_len_def utf8_width_def)

section \<open>Decimal numbers\<close>

text \<open>
  \<open>Display\<close> of an unsigned integer, and \<open>FromStr\<close>: an optional plus sign and at least one
  digit, the value within the type's range.
\<close>

fun decimal :: "nat \<Rightarrow> rstring" where
  "decimal n = (if n < 10 then [48 + n] else decimal (n div 10) @ [48 + n mod 10])"

declare decimal.simps [simp del]

definition digits_value :: "rstring \<Rightarrow> nat" where
  "digits_value s = foldl (\<lambda>n c. n * 10 + (c - 48)) 0 s"

definition parse_digits :: "rstring \<Rightarrow> nat option" where
  "parse_digits s = (if s \<noteq> [] \<and> list_all is_ascii_digit s then Some (digits_value s) else None)"

definition strip_plus :: "rstring \<Rightarrow> rstring" where
  "strip_plus s = (if s \<noteq> [] \<and> hd s = 43 then tl s else s)"

definition parse_uint :: "rstring \<Rightarrow> 'a::len word option" where
  "parse_uint s = (case parse_digits (strip_plus s) of
     Some n \<Rightarrow> if n < 2 ^ LENGTH('a) then Some (of_nat n) else None
   | None \<Rightarrow> None)"

lemma digits_value_append: "digits_value (s @ [c]) = digits_value s * 10 + (c - 48)"
  by (simp add: digits_value_def)

lemma decimal_digits: "decimal n \<noteq> [] \<and> list_all is_ascii_digit (decimal n) \<and> digits_value (decimal n) = n"
proof (induction n rule: decimal.induct)
  case (1 n)
  show ?case
  proof (cases "n < 10")
    case True
    then show ?thesis by (simp add: decimal.simps [of n] is_ascii_digit_def digits_value_def)
  next
    case False
    with 1 show ?thesis
      by (simp add: decimal.simps [of n] digits_value_append) (simp add: is_ascii_digit_def)
  qed
qed

lemma parse_digits_decimal [simp]: "parse_digits (decimal n) = Some n"
  using decimal_digits [of n] by (simp add: parse_digits_def)

lemma decimal_hd: "is_ascii_digit (hd (decimal n))"
  using decimal_digits [of n] by (cases "decimal n") auto

lemma strip_plus_decimal [simp]: "strip_plus (decimal n @ s) = decimal n @ s"
  using decimal_hd [of n] decimal_digits [of n]
  by (auto simp: strip_plus_def is_ascii_digit_def)

lemma strip_plus_decimal_only [simp]: "strip_plus (decimal n) = decimal n"
  using strip_plus_decimal [of n "[]"] by simp

lemma parse_uint_decimal: "n < 2 ^ LENGTH('a) \<Longrightarrow> parse_uint (decimal n) = Some (of_nat n :: 'a::len word)"
  by (simp add: parse_uint_def)

text \<open>\<open>i64\<close>: a sign is allowed, and printed for negative numbers.\<close>

definition i64_max :: int where
  "i64_max = 9223372036854775807"

definition parse_i64 :: "rstring \<Rightarrow> int option" where
  "parse_i64 s =
     (let (negative, t) = (if s \<noteq> [] \<and> hd s = 45 then (True, tl s) else (False, strip_plus s)) in
      case parse_digits t of
        None \<Rightarrow> None
      | Some n \<Rightarrow> (let z = if negative then - int n else int n in
                   if - i64_max - 1 \<le> z \<and> z \<le> i64_max then Some z else None))"

definition display_i64 :: "int \<Rightarrow> rstring" where
  "display_i64 z = (if z < 0 then 45 # decimal (nat (- z)) else decimal (nat z))"

lemma parse_display_i64: "- i64_max - 1 \<le> z \<Longrightarrow> z \<le> i64_max \<Longrightarrow> parse_i64 (display_i64 z) = Some z"
  using decimal_hd [of "nat z"] decimal_digits [of "nat z"] by (auto simp: parse_i64_def display_i64_def is_ascii_digit_def)

lemma decimal_inject: "decimal m = decimal n \<longleftrightarrow> m = n"
  by (metis decimal_digits)

section \<open>Unicode case mapping\<close>

text \<open>
  The non-ASCII part of the tables of the standard library: \<open>conversions::to_lower\<close>,
  \<open>Cased\<close> and \<open>Case_Ignorable\<close>.
\<close>

record unicode =
  lower_tbl :: "rchar \<Rightarrow> rstring"
  cased_tbl :: "rchar \<Rightarrow> bool"
  ignorable_tbl :: "rchar \<Rightarrow> bool"

definition is_cased :: "unicode \<Rightarrow> rchar \<Rightarrow> bool" where
  "is_cased U c \<longleftrightarrow>
     (if c < 128 then is_ascii_lower c \<or> is_ascii_upper c else cased_tbl U c)"

definition is_case_ignorable :: "unicode \<Rightarrow> rchar \<Rightarrow> bool" where
  "is_case_ignorable U c \<longleftrightarrow>
     (if c < 128 then c = 39 \<or> c = 46 \<or> c = 58 \<or> c = 94 \<or> c = 96 else ignorable_tbl U c)"

definition lower_char :: "unicode \<Rightarrow> rchar \<Rightarrow> rstring" where
  "lower_char U c = (if c < 128 then [to_ascii_lower c] else lower_tbl U c)"

fun ignorable_then_cased :: "unicode \<Rightarrow> rstring \<Rightarrow> bool" where
  "ignorable_then_cased U s =
     (case dropWhile (is_case_ignorable U) s of [] \<Rightarrow> False | c # _ \<Rightarrow> is_cased U c)"

text \<open>
  \<open>str::to_lowercase\<close>: each character by the table, but a capital sigma (U+03A3) becomes
  the final form (U+03C2) at the end of a word; \<open>before\<close> holds the characters already
  passed, nearest first.
\<close>

fun lower_from :: "unicode \<Rightarrow> rstring \<Rightarrow> rstring \<Rightarrow> rstring" where
  "lower_from U before [] = []"
| "lower_from U before (c # cs) =
     (if c = 931
      then [if ignorable_then_cased U before \<and> \<not> ignorable_then_cased U cs then 962 else 963]
      else lower_char U c) @ lower_from U (c # before) cs"

definition to_lowercase :: "unicode \<Rightarrow> rstring \<Rightarrow> rstring" where
  "to_lowercase U s = lower_from U [] s"

text \<open>
  What the sources rely on: lowercase text is stable under the mapping (Unicode's
  \<open>toLowercase\<close> is idempotent on every character's image).
\<close>

definition fixed_lower :: "unicode \<Rightarrow> rchar \<Rightarrow> bool" where
  "fixed_lower U c \<longleftrightarrow> c \<noteq> 931 \<and> lower_char U c = [c]"

definition lower_stable :: "unicode \<Rightarrow> bool" where
  "lower_stable U \<longleftrightarrow>
     (\<forall>c. c \<noteq> 931 \<longrightarrow> list_all (fixed_lower U) (lower_char U c)) \<and>
     fixed_lower U 962 \<and> fixed_lower U 963"

lemma lower_from_fixed: "list_all (fixed_lower U) s \<Longrightarrow> lower_from U before s = s"
  by (induction s arbitrary: before) (auto simp: fixed_lower_def)

lemma lower_from_image: "lower_stable U \<Longrightarrow> list_all (fixed_lower U) (lower_from U before s)"
  by (induction s arbitrary: before) (auto simp: lower_stable_def)

lemma to_lowercase_idem:
  "lower_stable U \<Longrightarrow> to_lowercase U (to_lowercase U s) = to_lowercase U s"
  by (simp add: to_lowercase_def lower_from_fixed lower_from_image)

lemma lower_from_ascii:
  "\<forall>c \<in> set s. c < 128 \<Longrightarrow> lower_from U before s = map to_ascii_lower s"
  by (induction s arbitrary: before) (auto simp: lower_char_def)

text \<open>A concrete table for evaluation: the capitals of Latin-1 and of the Greek alphabet.\<close>

definition sample_unicode :: unicode where
  "sample_unicode = \<lparr>
     lower_tbl = (\<lambda>c. if 192 \<le> c \<and> c \<le> 222 \<and> c \<noteq> 215 then [c + 32]
                      else if 913 \<le> c \<and> c \<le> 937 \<and> c \<noteq> 930 then [c + 32]
                      else if c = 304 then [105, 775] else [c]),
     cased_tbl = (\<lambda>c. (192 \<le> c \<and> c \<le> 255 \<and> c \<noteq> 215 \<and> c \<noteq> 247) \<or> (913 \<le> c \<and> c \<le> 969)),
     ignorable_tbl = (\<lambda>c. c = 173 \<or> (768 \<le> c \<and> c \<le> 879)) \<rparr>"

lemma sample_unicode_stable: "lower_stable sample_unicode"
  by (auto simp: lower_stable_def fixed_lower_def lower_char_def sample_unicode_def
        to_ascii_lower_def is_ascii_upper_def)

text \<open>The rules that evaluate the string operations on literals.\<close>

lemmas string_eval = trim_def trim_start_def trim_end_def is_whitespace_def to_lowercase_def
  lower_char_def to_ascii_lower_def is_ascii_upper_def is_ascii_lower_def is_ascii_digit_def
  utf8_len_def utf8_width_def eq_ignore_ascii_case_def

end
