(* ===== verification/Job_Model.thy ===== *)
theory Job_Model
  imports Prelude
begin

text \<open>
  The job subsystem's own vocabulary, \<open>src/application/job/model.rs\<close> and
  \<open>ports.rs\<close>: jobs before and after they are claimed, the errors, and the \<open>JobQueue\<close>
  port.  A \<open>dyn JobQueue\<close> is a record of operations over an abstract queue state; the
  locale \<open>job_queue_contract\<close> states what every provider promises the worker.
\<close>

section \<open>JSON values\<close>

text \<open>The data model of \<open>serde_json::Value\<close>; a number is kept as its text.\<close>

datatype json =
    JNull
  | JBool bool
  | JNumber rstring
  | JString rstring
  | JArray "json list"
  | JObject "(rstring \<times> json) list"

section \<open>Jobs\<close>

definition USER_CREATED_JOB :: rstring where
  "USER_CREATED_JOB = lit ''user.created''"

record new_job =
  nj_id :: uuid
  nj_job_type :: rstring
  nj_payload :: json
  nj_trace_context :: json
  nj_max_attempts :: u32

definition new_job_new :: "uuid \<Rightarrow> rstring \<Rightarrow> json \<Rightarrow> u32 \<Rightarrow> new_job" where
  "new_job_new fresh job_type payload max_attempts =
     \<lparr> nj_id = fresh, nj_job_type = job_type, nj_payload = payload,
       nj_trace_context = JObject [], nj_max_attempts = max_attempts \<rparr>"

definition with_trace_context :: "json \<Rightarrow> new_job \<Rightarrow> new_job" where
  "with_trace_context ctx j = j\<lparr> nj_trace_context := ctx \<rparr>"

record claimed_job =
  cj_id :: uuid
  cj_job_type :: rstring
  cj_payload :: json
  cj_trace_context :: json
  cj_attempts :: u32
  cj_max_attempts :: u32

datatype job_disposition = RetryScheduledDisposition | DeadLetteredDisposition

datatype job_queue_error = QueueUnavailable | LeaseLost

datatype job_handler_error = JobHandlerError (handler_error_message: rstring)

record job_handler =
  jh_job_type :: rstring
  jh_handle :: "claimed_job \<Rightarrow> job_handler_error + unit"

definition PURGE_BATCH_SIZE :: nat where
  "PURGE_BATCH_SIZE = 1000"

section \<open>The queue port\<close>

record 'q job_queue =
  q_enqueue :: "new_job \<Rightarrow> 'q \<Rightarrow> (job_queue_error + unit) \<times> 'q"
  q_claim :: "rstring \<Rightarrow> duration \<Rightarrow> 'q \<Rightarrow> (job_queue_error + claimed_job option) \<times> 'q"
  q_complete :: "uuid \<Rightarrow> rstring \<Rightarrow> u32 \<Rightarrow> 'q \<Rightarrow> (job_queue_error + unit) \<times> 'q"
  q_renew :: "uuid \<Rightarrow> rstring \<Rightarrow> u32 \<Rightarrow> 'q \<Rightarrow> (job_queue_error + unit) \<times> 'q"
  q_fail :: "uuid \<Rightarrow> rstring \<Rightarrow> u32 \<Rightarrow> rstring \<Rightarrow> duration \<Rightarrow> 'q
               \<Rightarrow> (job_queue_error + job_disposition) \<times> 'q"
  q_purge_terminal :: "duration \<Rightarrow> duration \<Rightarrow> 'q \<Rightarrow> (job_queue_error + nat) \<times> 'q"

text \<open>
  The contract of the port.  \<open>owned q i w a\<close> says that in queue state \<open>q\<close> attempt \<open>a\<close> of
  job \<open>i\<close> is leased to worker \<open>w\<close>; \<open>size q\<close> counts the stored jobs.  A provider may fail
  at any call: \<open>QueueUnavailable\<close> promises nothing but the invariant (the write may or may
  not have happened), \<open>LeaseLost\<close> promises that nothing was written.
\<close>

locale job_queue_contract =
  fixes Q :: "'q job_queue"
    and inv :: "'q \<Rightarrow> bool"
    and owned :: "'q \<Rightarrow> uuid \<Rightarrow> rstring \<Rightarrow> u32 \<Rightarrow> bool"
    and same_jobs :: "'q \<Rightarrow> 'q \<Rightarrow> bool"
    and stored :: "'q \<Rightarrow> nat"
  assumes enqueue_inv: "inv q \<Longrightarrow> inv (snd (q_enqueue Q nj q))"
    and claim_inv: "inv q \<Longrightarrow> inv (snd (q_claim Q w l q))"
    and complete_inv: "inv q \<Longrightarrow> inv (snd (q_complete Q i w a q))"
    and renew_inv: "inv q \<Longrightarrow> inv (snd (q_renew Q i w a q))"
    and fail_inv: "inv q \<Longrightarrow> inv (snd (q_fail Q i w a m d q))"
    and purge_inv: "inv q \<Longrightarrow> inv (snd (q_purge_terminal Q c d q))"
    and same_jobs_owned: "same_jobs q q' \<Longrightarrow> owned q' i w a \<longleftrightarrow> owned q i w a"
    and claim_owned: "inv q \<Longrightarrow> q_claim Q w l q = (Inr (Some j), q') \<Longrightarrow>
          owned q' (cj_id j) w (cj_attempts j)"
    and complete_owned: "inv q \<Longrightarrow> q_complete Q i w a q = (Inr (), q') \<Longrightarrow>
          owned q i w a \<and> (\<forall>v b. \<not> owned q' i v b)"
    and complete_lost: "inv q \<Longrightarrow> q_complete Q i w a q = (Inl LeaseLost, q') \<Longrightarrow>
          same_jobs q q' \<and> \<not> owned q i w a"
    and renew_owned: "inv q \<Longrightarrow> q_renew Q i w a q = (Inr (), q') \<Longrightarrow>
          owned q i w a \<and> owned q' i w a"
    and renew_lost: "inv q \<Longrightarrow> q_renew Q i w a q = (Inl LeaseLost, q') \<Longrightarrow>
          same_jobs q q' \<and> \<not> owned q i w a"
    and fail_owned: "inv q \<Longrightarrow> q_fail Q i w a m d q = (Inr disp, q') \<Longrightarrow>
          owned q i w a \<and> (\<forall>v b. \<not> owned q' i v b)"
    and fail_lost: "inv q \<Longrightarrow> q_fail Q i w a m d q = (Inl LeaseLost, q') \<Longrightarrow>
          same_jobs q q' \<and> \<not> owned q i w a"
    and purge_bound: "inv q \<Longrightarrow> q_purge_terminal Q c d q = (Inr n, q') \<Longrightarrow>
          n \<le> PURGE_BATCH_SIZE \<and> stored q = stored q' + n"

end
