(* ===== verification/Pg_Database.thy ===== *)
theory Pg_Database
  imports Job_Model "HOL-Library.Product_Lexorder"
begin

text \<open>
  The PostgreSQL side shared by the two adapters of
  \<open>src/infrastructure/database/postgres\<close>: the two tables of the migrations as lists of
  rows, their constraints, and the execution of one statement.

  The statements' texts are part of the sources, so their effect is written out here; the
  server, the network and the connection pool are not.  They appear as a script of faults:
  each statement takes the next entry, which lets it run, loses the request before it
  reaches the server, or loses the reply after it took effect.  \<open>row_locks\<close> lists the rows
  locked by other transactions (what \<open>SKIP LOCKED\<close> skips), \<open>pg_now\<close> is \<open>NOW()\<close>.
\<close>

section \<open>Rows\<close>

datatype job_status = Pending | Running | Completed | Dead

definition status_text :: "job_status \<Rightarrow> rstring" where
  "status_text s = (case s of
     Pending \<Rightarrow> lit ''pending'' | Running \<Rightarrow> lit ''running''
   | Completed \<Rightarrow> lit ''completed'' | Dead \<Rightarrow> lit ''dead'')"

record job_row =
  jr_id :: uuid
  jr_job_type :: rstring
  jr_payload :: json
  jr_status :: job_status
  jr_attempts :: int
  jr_max_attempts :: int
  jr_available_at :: timestamp
  jr_locked_at :: "timestamp option"
  jr_locked_by :: "rstring option"
  jr_last_error :: "rstring option"
  jr_created_at :: timestamp
  jr_updated_at :: timestamp
  jr_completed_at :: "timestamp option"
  jr_trace_context :: json

record user_row =
  ur_id :: uuid
  ur_email :: rstring
  ur_display_name :: rstring
  ur_created_at :: timestamp
  ur_updated_at :: timestamp

section \<open>Errors and faults\<close>

text \<open>\<open>sqlx::Error\<close>: a server error with its constraint, or anything else.\<close>

datatype sqlx_error =
    DatabaseError (is_unique_violation: bool) (constraint_name: "rstring option")
  | OtherSqlxError

datatype fault = LostBefore | LostAfter

record pg =
  users :: "user_row list"
  jobs :: "job_row list"
  pg_now :: timestamp
  row_locks :: "uuid list"
  faults :: "fault option list"

type_synonym 'a stmt = "(pg, sqlx_error, 'a) op"

definition exec :: "'a stmt \<Rightarrow> 'a stmt" where
  "exec st db =
     (let db1 = db\<lparr> faults := drop 1 (faults db) \<rparr> in
      case faults db of
        Some LostBefore # _ \<Rightarrow> (Inl OtherSqlxError, db1)
      | Some LostAfter # _ \<Rightarrow> (Inl OtherSqlxError, snd (st db1))
      | _ \<Rightarrow> st db1)"

text \<open>A \<open>TEXT\<close> value cannot hold U+0000; \<open>JSONB\<close> rejects it in keys and strings.\<close>

definition pg_text_ok :: "rstring \<Rightarrow> bool" where
  "pg_text_ok s \<longleftrightarrow> 0 \<notin> set s"

fun jsonb_ok :: "json \<Rightarrow> bool" where
  "jsonb_ok (JString s) = pg_text_ok s"
| "jsonb_ok (JArray vs) = list_all jsonb_ok vs"
| "jsonb_ok (JObject kvs) = list_all (\<lambda>(k, v). pg_text_ok k \<and> jsonb_ok v) kvs"
| "jsonb_ok _ = True"

section \<open>The constraints of the job table\<close>

definition btrim :: "rstring \<Rightarrow> rstring" where
  "btrim s = rev (dropWhile (\<lambda>c. c = 32) (rev (dropWhile (\<lambda>c. c = 32) s)))"

text \<open>The \<open>CHECK\<close> constraints of migration \<open>20260801000000_create_background_jobs\<close>.\<close>

definition job_checks :: "job_row \<Rightarrow> bool" where
  "job_checks r \<longleftrightarrow>
     1 \<le> length (btrim (jr_job_type r)) \<and> length (btrim (jr_job_type r)) \<le> 200 \<and>
     0 \<le> jr_attempts r \<and> 0 < jr_max_attempts r \<and> jr_attempts r \<le> jr_max_attempts r \<and>
     (if jr_status r = Running then jr_locked_at r \<noteq> None \<and> jr_locked_by r \<noteq> None
      else jr_locked_at r = None \<and> jr_locked_by r = None) \<and>
     (jr_status r = Completed \<longleftrightarrow> jr_completed_at r \<noteq> None)"

text \<open>
  The invariant the operations keep on top of the constraints: \<open>INTEGER\<close> columns in range,
  and no pending job without attempts left (such a job could never be claimed again).
\<close>

definition job_row_ok :: "job_row \<Rightarrow> bool" where
  "job_row_ok r \<longleftrightarrow> job_checks r \<and> jr_max_attempts r \<le> 2147483647 \<and>
     (jr_status r = Pending \<longrightarrow> jr_attempts r < jr_max_attempts r)"

definition jobs_ok :: "job_row list \<Rightarrow> bool" where
  "jobs_ok rs \<longleftrightarrow> distinct (map jr_id rs) \<and> (\<forall>r \<in> set rs. job_row_ok r)"

section \<open>Statements over the job table\<close>

definition check_violation :: sqlx_error where
  "check_violation = DatabaseError False None"

text \<open>\<open>UPDATE ... SET f WHERE P\<close>: fails as a whole when a new row breaks a constraint.\<close>

definition update_jobs :: "(job_row \<Rightarrow> bool) \<Rightarrow> (job_row \<Rightarrow> job_row) \<Rightarrow> nat stmt" where
  "update_jobs P f db =
     (if list_all (\<lambda>r. job_checks (f r)) (filter P (jobs db))
      then (Inr (length (filter P (jobs db))),
            db\<lparr> jobs := map (\<lambda>r. if P r then f r else r) (jobs db) \<rparr>)
      else (Inl check_violation, db))"

text \<open>\<open>UPDATE ... RETURNING\<close> fetched with \<open>fetch_optional\<close>: the first updated row.\<close>

definition update_jobs_returning ::
  "(job_row \<Rightarrow> bool) \<Rightarrow> (job_row \<Rightarrow> job_row) \<Rightarrow> job_row option stmt" where
  "update_jobs_returning P f db =
     (case update_jobs P f db of
        (Inl e, db') \<Rightarrow> (Inl e, db')
      | (Inr n, db') \<Rightarrow>
          (Inr (case filter P (jobs db) of [] \<Rightarrow> None | r # _ \<Rightarrow> Some (f r)), db'))"

definition delete_jobs :: "(job_row \<Rightarrow> bool) \<Rightarrow> nat stmt" where
  "delete_jobs P db =
     (Inr (length (filter P (jobs db))), db\<lparr> jobs := filter (\<lambda>r. \<not> P r) (jobs db) \<rparr>)"

section \<open>Lemmas about execution\<close>

lemma exec_cases:
  obtains (ran) fs where "exec st db = st (db\<lparr> faults := fs \<rparr>)"
    | (lost) fs where "exec st db = (Inl OtherSqlxError, db\<lparr> faults := fs \<rparr>)"
    | (unacked) fs where "exec st db = (Inl OtherSqlxError, snd (st (db\<lparr> faults := fs \<rparr>)))"
  by (cases "faults db"; cases "hd (faults db)"; cases "the (hd (faults db))")
    (auto simp: exec_def Let_def)

lemma exec_Inr:
  "exec st db = (Inr a, db') \<Longrightarrow> \<exists>fs. st (db\<lparr> faults := fs \<rparr>) = (Inr a, db')"
  by (rule exec_cases [of st db]) auto

lemma exec_no_faults: "faults db = [] \<Longrightarrow> exec st db = st db"
  by (cases db) (simp add: exec_def)

text \<open>A predicate that ignores the fault script and is kept by the statement is kept by \<open>exec\<close>.\<close>

lemma keeps_exec [keeps]:
  assumes "op_keeps P st" and "\<And>d fs. P d \<Longrightarrow> P (d\<lparr> faults := fs \<rparr>)"
  shows "op_keeps P (exec st)"
proof (rule op_keepsI)
  fix db assume "P db"
  with assms show "P (snd (exec st db))"
    by (cases rule: exec_cases [of st db]) (auto simp: op_keeps_def)
qed

lemma update_jobs_ok:
  assumes "jobs_ok (jobs db)"
    and "\<And>r. r \<in> set (jobs db) \<Longrightarrow> P r \<Longrightarrow> job_row_ok (f r)"
    and "\<And>r. jr_id (f r) = jr_id r"
  shows "update_jobs P f db =
           (Inr (length (filter P (jobs db))),
            db\<lparr> jobs := map (\<lambda>r. if P r then f r else r) (jobs db) \<rparr>)"
    and "jobs_ok (map (\<lambda>r. if P r then f r else r) (jobs db))"
proof -
  have "map jr_id (map (\<lambda>r. if P r then f r else r) (jobs db)) = map jr_id (jobs db)"
    using assms(3) by (simp add: o_def)
  with assms show "jobs_ok (map (\<lambda>r. if P r then f r else r) (jobs db))"
    by (auto simp: jobs_ok_def simp del: map_map)
  from assms show "update_jobs P f db =
           (Inr (length (filter P (jobs db))),
            db\<lparr> jobs := map (\<lambda>r. if P r then f r else r) (jobs db) \<rparr>)"
    by (auto simp: update_jobs_def list_all_iff jobs_ok_def job_row_ok_def)
qed

lemma jobs_ok_filter: "jobs_ok rs \<Longrightarrow> jobs_ok (filter P rs)"
  by (auto simp: jobs_ok_def distinct_map_filter)

lemma jobs_ok_unique:
  "jobs_ok rs \<Longrightarrow> r \<in> set rs \<Longrightarrow> s \<in> set rs \<Longrightarrow> jr_id r = jr_id s \<Longrightarrow> r = s"
  by (auto simp: jobs_ok_def distinct_map dest: inj_onD)

text \<open>At most one row matches a condition that fixes the identifier.\<close>

lemma filter_id_single:
  assumes "distinct (map jr_id rs)" and "\<And>r. P r \<Longrightarrow> jr_id r = i"
  shows "filter P rs = (case find P rs of None \<Rightarrow> [] | Some r \<Rightarrow> [r])"
  using assms(1)
proof (induction rs)
  case (Cons s rs)
  show ?case
  proof (cases "P s")
    case True
    then have "\<forall>r \<in> set rs. \<not> P r" using Cons.prems assms(2) by force
    with True show ?thesis by (simp add: filter_empty_conv)
  qed (use Cons in simp)
qed simp

end
