(* ===== verification/Job_Queue_Pg.thy ===== *)
theory Job_Queue_Pg
  imports Pg_Database
begin

text \<open>
  The PostgreSQL job queue, \<open>src/infrastructure/database/postgres/job_queue.rs\<close>: one
  definition per statement and per method of \<open>PostgresJobQueue\<close>.  Durations reach SQL as
  \<open>f64\<close> seconds; they are kept in nanoseconds here (every configured duration is a whole
  number of seconds, which \<open>f64\<close> represents exactly up to \<open>2 ^ 53\<close>).
\<close>

section \<open>Conversions\<close>

definition duration_seconds :: "duration \<Rightarrow> int" where
  "duration_seconds d = int d"

definition queue_error_from_sqlx :: "sqlx_error \<Rightarrow> job_queue_error" where
  "queue_error_from_sqlx e = QueueUnavailable"

definition ensure_lease :: "nat \<Rightarrow> job_queue_error + unit" where
  "ensure_lease rows_affected = (if rows_affected = 1 then Inr () else Inl LeaseLost)"

text \<open>\<open>i32::try_from(u32)\<close> after the zero check.\<close>

definition validate_max_attempts :: "u32 \<Rightarrow> int option" where
  "validate_max_attempts value =
     (if value = 0 then None
      else if uint value \<le> 2147483647 then Some (uint value) else None)"

definition u32_try_from_i32 :: "int \<Rightarrow> u32 option" where
  "u32_try_from_i32 v = (if v < 0 then None else Some (word_of_int v))"

definition into_application :: "job_row \<Rightarrow> job_queue_error + claimed_job" where
  "into_application r =
     and_then (ok_or QueueUnavailable (u32_try_from_i32 (jr_attempts r))) (\<lambda>attempts.
     and_then (ok_or QueueUnavailable (u32_try_from_i32 (jr_max_attempts r))) (\<lambda>max_attempts.
     Inr \<lparr> cj_id = jr_id r, cj_job_type = jr_job_type r, cj_payload = jr_payload r,
           cj_trace_context = jr_trace_context r,
           cj_attempts = attempts, cj_max_attempts = max_attempts \<rparr>))"

text \<open>A statement with a text parameter: the server rejects U+0000.\<close>

definition bind_text :: "rstring \<Rightarrow> 'a stmt \<Rightarrow> 'a stmt" where
  "bind_text s st db = (if pg_text_ok s then st db else (Inl (DatabaseError False None), db))"

section \<open>Statements\<close>

definition locked_elsewhere :: "pg \<Rightarrow> job_row \<Rightarrow> bool" where
  "locked_elsewhere db r \<longleftrightarrow> jr_id r \<in> set (row_locks db)"

definition lease_expired :: "int \<Rightarrow> timestamp \<Rightarrow> job_row \<Rightarrow> bool" where
  "lease_expired lease_seconds now r \<longleftrightarrow> jr_status r = Running \<and>
     (case jr_locked_at r of Some t \<Rightarrow> t < now - lease_seconds | None \<Rightarrow> False)"

definition reap_row :: "timestamp \<Rightarrow> job_row \<Rightarrow> job_row" where
  "reap_row now r = r\<lparr>
     jr_status := (if jr_attempts r \<ge> jr_max_attempts r then Dead else Pending),
     jr_available_at := now, jr_locked_at := None, jr_locked_by := None,
     jr_last_error := Some (lit ''worker lease expired''), jr_updated_at := now \<rparr>"

definition locked_at_key :: "job_row \<Rightarrow> timestamp" where
  "locked_at_key r = (case jr_locked_at r of Some t \<Rightarrow> t | None \<Rightarrow> 0)"

definition reap_candidates :: "int \<Rightarrow> pg \<Rightarrow> uuid list" where
  "reap_candidates lease_seconds db =
     take 1000 (map jr_id (sort_key (\<lambda>r. (locked_at_key r, uint (jr_id r)))
       (filter (\<lambda>r. lease_expired lease_seconds (pg_now db) r \<and> \<not> locked_elsewhere db r) (jobs db))))"

definition reap_stmt :: "int \<Rightarrow> nat stmt" where
  "reap_stmt lease_seconds db =
     (let ids = reap_candidates lease_seconds db in
      update_jobs (\<lambda>r. jr_id r \<in> set ids) (reap_row (pg_now db)) db)"

definition claimable :: "pg \<Rightarrow> job_row \<Rightarrow> bool" where
  "claimable db r \<longleftrightarrow> jr_status r = Pending \<and> jr_available_at r \<le> pg_now db \<and>
     jr_attempts r < jr_max_attempts r \<and> \<not> locked_elsewhere db r"

definition take_candidates :: "pg \<Rightarrow> uuid list" where
  "take_candidates db =
     take 1 (map jr_id (sort_key (\<lambda>r. (jr_available_at r, jr_created_at r))
       (filter (claimable db) (jobs db))))"

definition take_row :: "rstring \<Rightarrow> timestamp \<Rightarrow> job_row \<Rightarrow> job_row" where
  "take_row worker_id now r = r\<lparr>
     jr_status := Running, jr_attempts := jr_attempts r + 1,
     jr_locked_at := Some now, jr_locked_by := Some worker_id, jr_updated_at := now \<rparr>"

definition take_stmt :: "rstring \<Rightarrow> job_row option stmt" where
  "take_stmt worker_id db =
     (let ids = take_candidates db in
      update_jobs_returning (\<lambda>r. jr_id r \<in> set ids) (take_row worker_id (pg_now db)) db)"

text \<open>The ownership test of the statements that need the lease.\<close>

definition holds_lease :: "uuid \<Rightarrow> rstring \<Rightarrow> u32 \<Rightarrow> job_row \<Rightarrow> bool" where
  "holds_lease job_id worker_id attempt r \<longleftrightarrow>
     jr_id r = job_id \<and> jr_status r = Running \<and> jr_locked_by r = Some worker_id \<and>
     jr_attempts r = uint attempt"

definition complete_row :: "timestamp \<Rightarrow> job_row \<Rightarrow> job_row" where
  "complete_row now r = r\<lparr>
     jr_status := Completed, jr_locked_at := None, jr_locked_by := None,
     jr_completed_at := Some now, jr_updated_at := now \<rparr>"

definition renew_row :: "timestamp \<Rightarrow> job_row \<Rightarrow> job_row" where
  "renew_row now r = r\<lparr> jr_locked_at := Some now, jr_updated_at := now \<rparr>"

definition fail_row :: "timestamp \<Rightarrow> int \<Rightarrow> rstring \<Rightarrow> job_row \<Rightarrow> job_row" where
  "fail_row now retry_seconds error r = r\<lparr>
     jr_status := (if jr_attempts r \<ge> jr_max_attempts r then Dead else Pending),
     jr_available_at :=
       (if jr_attempts r \<ge> jr_max_attempts r then jr_available_at r else now + retry_seconds),
     jr_locked_at := None, jr_locked_by := None,
     jr_last_error := Some error, jr_updated_at := now \<rparr>"

definition purgeable :: "int \<Rightarrow> int \<Rightarrow> timestamp \<Rightarrow> job_row \<Rightarrow> bool" where
  "purgeable completed_seconds dead_seconds now r \<longleftrightarrow>
     (jr_status r = Completed \<and>
        (case jr_completed_at r of Some t \<Rightarrow> t < now - completed_seconds | None \<Rightarrow> False)) \<or>
     (jr_status r = Dead \<and> jr_updated_at r < now - dead_seconds)"

definition purge_candidates :: "int \<Rightarrow> int \<Rightarrow> pg \<Rightarrow> uuid list" where
  "purge_candidates completed_seconds dead_seconds db =
     take PURGE_BATCH_SIZE (map jr_id
       (filter (\<lambda>r. purgeable completed_seconds dead_seconds (pg_now db) r
                  \<and> \<not> locked_elsewhere db r) (jobs db)))"

definition purge_stmt :: "int \<Rightarrow> int \<Rightarrow> nat stmt" where
  "purge_stmt completed_seconds dead_seconds db =
     (let ids = purge_candidates completed_seconds dead_seconds db in
      delete_jobs (\<lambda>r. jr_id r \<in> set ids) db)"

text \<open>\<open>insert_job\<close>: the columns not listed take their defaults.\<close>

definition inserted_job :: "new_job \<Rightarrow> int \<Rightarrow> timestamp \<Rightarrow> job_row" where
  "inserted_job j max_attempts now =
     \<lparr> jr_id = nj_id j, jr_job_type = nj_job_type j, jr_payload = nj_payload j,
       jr_status = Pending, jr_attempts = 0, jr_max_attempts = max_attempts,
       jr_available_at = now, jr_locked_at = None, jr_locked_by = None,
       jr_last_error = None, jr_created_at = now, jr_updated_at = now,
       jr_completed_at = None, jr_trace_context = nj_trace_context j \<rparr>"

definition insert_job :: "new_job \<Rightarrow> int \<Rightarrow> unit stmt" where
  "insert_job j max_attempts db =
     (let r = inserted_job j max_attempts (pg_now db) in
      if \<not> (pg_text_ok (nj_job_type j) \<and> jsonb_ok (nj_payload j) \<and> jsonb_ok (nj_trace_context j))
      then (Inl (DatabaseError False None), db)
      else if \<not> job_checks r then (Inl check_violation, db)
      else if nj_id j \<in> jr_id ` set (jobs db)
      then (Inl (DatabaseError True (Some (lit ''background_jobs_pkey''))), db)
      else (Inr (), db\<lparr> jobs := jobs db @ [r] \<rparr>))"

section \<open>The methods of the queue\<close>

definition pg_enqueue :: "new_job \<Rightarrow> (pg, job_queue_error, unit) op" where
  "pg_enqueue j =
     op_bind (lift_result (ok_or QueueUnavailable (validate_max_attempts (nj_max_attempts j))))
       (\<lambda>max_attempts. op_map_err queue_error_from_sqlx (exec (insert_job j max_attempts)))"

definition pg_claim :: "rstring \<Rightarrow> duration \<Rightarrow> (pg, job_queue_error, claimed_job option) op" where
  "pg_claim worker_id lease_timeout =
     (let lease_seconds = duration_seconds lease_timeout in
      op_bind (op_map_err queue_error_from_sqlx (exec (reap_stmt lease_seconds))) (\<lambda>_.
      op_bind (op_map_err queue_error_from_sqlx (exec (bind_text worker_id (take_stmt worker_id))))
        (\<lambda>claimed. lift_result (case claimed of
            None \<Rightarrow> Inr None
          | Some row \<Rightarrow> map_ok Some (into_application row)))))"

definition complete_stmt :: "uuid \<Rightarrow> rstring \<Rightarrow> u32 \<Rightarrow> nat stmt" where
  "complete_stmt job_id worker_id attempt db =
     update_jobs (holds_lease job_id worker_id attempt) (complete_row (pg_now db)) db"

definition pg_complete :: "uuid \<Rightarrow> rstring \<Rightarrow> u32 \<Rightarrow> (pg, job_queue_error, unit) op" where
  "pg_complete job_id worker_id attempt =
     op_bind (op_map_err queue_error_from_sqlx
         (exec (bind_text worker_id (complete_stmt job_id worker_id attempt))))
       (\<lambda>rows_affected. lift_result (ensure_lease rows_affected))"

definition renew_stmt :: "uuid \<Rightarrow> rstring \<Rightarrow> u32 \<Rightarrow> nat stmt" where
  "renew_stmt job_id worker_id attempt db =
     update_jobs (holds_lease job_id worker_id attempt) (renew_row (pg_now db)) db"

definition pg_renew :: "uuid \<Rightarrow> rstring \<Rightarrow> u32 \<Rightarrow> (pg, job_queue_error, unit) op" where
  "pg_renew job_id worker_id attempt =
     op_bind (op_map_err queue_error_from_sqlx
         (exec (bind_text worker_id (renew_stmt job_id worker_id attempt))))
       (\<lambda>rows_affected. lift_result (ensure_lease rows_affected))"

text \<open>The status text that the failing update returns, matched as in the source.\<close>

definition disposition_of_status :: "rstring \<Rightarrow> job_queue_error + job_disposition" where
  "disposition_of_status status =
     (if status = lit ''pending'' then Inr RetryScheduledDisposition
      else if status = lit ''dead'' then Inr DeadLetteredDisposition
      else Inl QueueUnavailable)"

definition fail_stmt :: "uuid \<Rightarrow> rstring \<Rightarrow> u32 \<Rightarrow> int \<Rightarrow> rstring \<Rightarrow> job_row option stmt" where
  "fail_stmt job_id worker_id attempt retry_seconds error db =
     update_jobs_returning (holds_lease job_id worker_id attempt)
       (fail_row (pg_now db) retry_seconds error) db"

definition pg_fail :: "uuid \<Rightarrow> rstring \<Rightarrow> u32 \<Rightarrow> rstring \<Rightarrow> duration
    \<Rightarrow> (pg, job_queue_error, job_disposition) op" where
  "pg_fail job_id worker_id attempt error retry_delay =
     (let retry_seconds = duration_seconds retry_delay; error = take 4000 error in
      op_bind (op_map_err queue_error_from_sqlx
         (exec (bind_text worker_id (bind_text error
            (fail_stmt job_id worker_id attempt retry_seconds error)))))
        (\<lambda>row. lift_result (and_then (ok_or LeaseLost row)
            (\<lambda>r. disposition_of_status (status_text (jr_status r))))))"

definition pg_purge_terminal :: "duration \<Rightarrow> duration \<Rightarrow> (pg, job_queue_error, nat) op" where
  "pg_purge_terminal completed_older_than dead_older_than =
     op_map_err queue_error_from_sqlx
       (exec (purge_stmt (duration_seconds completed_older_than) (duration_seconds dead_older_than)))"

definition pg_job_queue :: "pg job_queue" where
  "pg_job_queue = \<lparr>
     q_enqueue = pg_enqueue, q_claim = pg_claim, q_complete = pg_complete,
     q_renew = pg_renew, q_fail = pg_fail, q_purge_terminal = pg_purge_terminal \<rparr>"

section \<open>Every operation keeps the table well-formed\<close>

text \<open>\<open>pg_ok\<close>: the job table satisfies its constraints and the invariant of the queue.\<close>

definition pg_jobs_ok :: "pg \<Rightarrow> bool" where
  "pg_jobs_ok db \<longleftrightarrow> jobs_ok (jobs db)"

lemma pg_jobs_ok_faults [simp]: "pg_jobs_ok (db\<lparr> faults := fs \<rparr>) = pg_jobs_ok db"
  by (simp add: pg_jobs_ok_def)

lemma candidates_sound:
  assumes "jobs_ok rs" "r \<in> set rs" "jr_id r \<in> set (take n (map jr_id ss))" "set ss \<subseteq> {s \<in> set rs. P s}"
  shows "P r"
proof -
  from assms(3) obtain s where "s \<in> set ss" "jr_id s = jr_id r"
    by (metis image_iff in_set_takeD list.set_map)
  with assms show ?thesis using jobs_ok_unique by blast
qed

lemma reap_candidates_sound:
  "pg_jobs_ok db \<Longrightarrow> r \<in> set (jobs db) \<Longrightarrow> jr_id r \<in> set (reap_candidates l db) \<Longrightarrow>
     lease_expired l (pg_now db) r \<and> \<not> locked_elsewhere db r"
  unfolding reap_candidates_def pg_jobs_ok_def
  by (erule (2) candidates_sound) auto

lemma take_candidates_sound:
  "pg_jobs_ok db \<Longrightarrow> r \<in> set (jobs db) \<Longrightarrow> jr_id r \<in> set (take_candidates db) \<Longrightarrow> claimable db r"
  unfolding take_candidates_def pg_jobs_ok_def
  by (erule (2) candidates_sound) auto

lemma purge_candidates_sound:
  "pg_jobs_ok db \<Longrightarrow> r \<in> set (jobs db) \<Longrightarrow> jr_id r \<in> set (purge_candidates c d db) \<Longrightarrow>
     purgeable c d (pg_now db) r \<and> \<not> locked_elsewhere db r"
  unfolding purge_candidates_def pg_jobs_ok_def
  by (erule (2) candidates_sound) auto

named_theorems row_update_defs \<open>the row updates of the queue statements\<close>

lemmas [row_update_defs] = reap_row_def take_row_def complete_row_def renew_row_def fail_row_def

lemma row_updates_id [simp]:
  "jr_id (reap_row now r) = jr_id r" "jr_id (take_row w now r) = jr_id r"
  "jr_id (complete_row now r) = jr_id r" "jr_id (renew_row now r) = jr_id r"
  "jr_id (fail_row now s m r) = jr_id r"
  by (simp_all add: row_update_defs)

lemma row_updates_ok:
  assumes "job_row_ok r"
  shows "jr_status r = Running \<Longrightarrow> job_row_ok (reap_row now r)"
    and "claimable db r \<Longrightarrow> job_row_ok (take_row w now r)"
    and "jr_status r = Running \<Longrightarrow> job_row_ok (complete_row now r)"
    and "jr_status r = Running \<Longrightarrow> job_row_ok (renew_row now r)"
    and "jr_status r = Running \<Longrightarrow> job_row_ok (fail_row now s m r)"
  using assms
  by (auto simp: row_update_defs job_row_ok_def job_checks_def claimable_def split: if_splits)

lemma job_row_ok_in: "pg_jobs_ok db \<Longrightarrow> r \<in> set (jobs db) \<Longrightarrow> job_row_ok r"
  by (simp add: pg_jobs_ok_def jobs_ok_def)

text \<open>The effect of each statement on a well-formed table: no constraint is ever violated.\<close>

lemma reap_stmt_ok:
  assumes "pg_jobs_ok db"
  shows "reap_stmt l db = (Inr (length (filter (\<lambda>r. jr_id r \<in> set (reap_candidates l db)) (jobs db))),
           db\<lparr> jobs := map (\<lambda>r. if jr_id r \<in> set (reap_candidates l db)
                                then reap_row (pg_now db) r else r) (jobs db) \<rparr>)"
    and "pg_jobs_ok (snd (reap_stmt l db))"
proof -
  have row: "job_row_ok (reap_row (pg_now db) r)"
    if "r \<in> set (jobs db)" "jr_id r \<in> set (reap_candidates l db)" for r
    using reap_candidates_sound [OF assms that] row_updates_ok(1) [OF job_row_ok_in [OF assms that(1)]]
    by (simp add: lease_expired_def)
  note up = update_jobs_ok [OF assms [unfolded pg_jobs_ok_def], of "\<lambda>r. jr_id r \<in> set (reap_candidates l db)"
      "reap_row (pg_now db)", OF row]
  show "reap_stmt l db = (Inr (length (filter (\<lambda>r. jr_id r \<in> set (reap_candidates l db)) (jobs db))),
           db\<lparr> jobs := map (\<lambda>r. if jr_id r \<in> set (reap_candidates l db)
                                then reap_row (pg_now db) r else r) (jobs db) \<rparr>)"
    using up(1) by (simp add: reap_stmt_def Let_def)
  then show "pg_jobs_ok (snd (reap_stmt l db))"
    using up(2) by (simp add: pg_jobs_ok_def)
qed

lemma take_stmt_ok:
  assumes "pg_jobs_ok db"
  shows "take_stmt w db = (Inr (case filter (\<lambda>r. jr_id r \<in> set (take_candidates db)) (jobs db) of
              [] \<Rightarrow> None | r # _ \<Rightarrow> Some (take_row w (pg_now db) r)),
           db\<lparr> jobs := map (\<lambda>r. if jr_id r \<in> set (take_candidates db)
                                then take_row w (pg_now db) r else r) (jobs db) \<rparr>)"
    and "pg_jobs_ok (snd (take_stmt w db))"
proof -
  have row: "job_row_ok (take_row w (pg_now db) r)"
    if "r \<in> set (jobs db)" "jr_id r \<in> set (take_candidates db)" for r
    using take_candidates_sound [OF assms that] row_updates_ok(2) [OF job_row_ok_in [OF assms that(1)]]
    by blast
  note up = update_jobs_ok [OF assms [unfolded pg_jobs_ok_def], of "\<lambda>r. jr_id r \<in> set (take_candidates db)"
      "take_row w (pg_now db)", OF row]
  show "take_stmt w db = (Inr (case filter (\<lambda>r. jr_id r \<in> set (take_candidates db)) (jobs db) of
              [] \<Rightarrow> None | r # _ \<Rightarrow> Some (take_row w (pg_now db) r)),
           db\<lparr> jobs := map (\<lambda>r. if jr_id r \<in> set (take_candidates db)
                                then take_row w (pg_now db) r else r) (jobs db) \<rparr>)"
    using up(1) by (simp add: take_stmt_def update_jobs_returning_def Let_def)
  then show "pg_jobs_ok (snd (take_stmt w db))"
    using up(2) by (simp add: pg_jobs_ok_def)
qed

text \<open>The three statements that need the lease share one shape.\<close>

lemma lease_update_ok:
  assumes "pg_jobs_ok db" and f: "f = complete_row now \<or> f = renew_row now \<or> f = fail_row now s m"
  shows "update_jobs (holds_lease i w a) f db =
           (Inr (length (filter (holds_lease i w a) (jobs db))),
            db\<lparr> jobs := map (\<lambda>r. if holds_lease i w a r then f r else r) (jobs db) \<rparr>)"
    and "pg_jobs_ok (snd (update_jobs (holds_lease i w a) f db))"
proof -
  have row: "job_row_ok (f r)" if "r \<in> set (jobs db)" "holds_lease i w a r" for r
    using f row_updates_ok(3-5) [OF job_row_ok_in [OF assms(1) that(1)]] that(2)
    by (auto simp: holds_lease_def)
  have "jr_id (f r) = jr_id r" for r using f by auto
  note up = update_jobs_ok [OF assms(1) [unfolded pg_jobs_ok_def], of "holds_lease i w a" f, OF row this]
  show "update_jobs (holds_lease i w a) f db =
           (Inr (length (filter (holds_lease i w a) (jobs db))),
            db\<lparr> jobs := map (\<lambda>r. if holds_lease i w a r then f r else r) (jobs db) \<rparr>)"
    using up(1) .
  then show "pg_jobs_ok (snd (update_jobs (holds_lease i w a) f db))"
    using up(2) by (simp add: pg_jobs_ok_def)
qed

lemma lease_stmts_ok:
  "pg_jobs_ok db \<Longrightarrow> complete_stmt i w a db =
     (Inr (length (filter (holds_lease i w a) (jobs db))),
      db\<lparr> jobs := map (\<lambda>r. if holds_lease i w a r then complete_row (pg_now db) r else r) (jobs db) \<rparr>)"
  "pg_jobs_ok db \<Longrightarrow> renew_stmt i w a db =
     (Inr (length (filter (holds_lease i w a) (jobs db))),
      db\<lparr> jobs := map (\<lambda>r. if holds_lease i w a r then renew_row (pg_now db) r else r) (jobs db) \<rparr>)"
  "pg_jobs_ok db \<Longrightarrow> fail_stmt i w a s m db =
     (Inr (case filter (holds_lease i w a) (jobs db) of
         [] \<Rightarrow> None | r # _ \<Rightarrow> Some (fail_row (pg_now db) s m r)),
      db\<lparr> jobs := map (\<lambda>r. if holds_lease i w a r then fail_row (pg_now db) s m r else r) (jobs db) \<rparr>)"
  using lease_update_ok(1) [of db "complete_row (pg_now db)" "pg_now db" 0 "[]" i w a]
    lease_update_ok(1) [of db "renew_row (pg_now db)" "pg_now db" 0 "[]" i w a]
    lease_update_ok(1) [of db "fail_row (pg_now db) s m" "pg_now db" s m i w a]
  by (simp_all add: complete_stmt_def renew_stmt_def fail_stmt_def update_jobs_returning_def)

lemma keeps_bind_text [keeps]: "op_keeps P st \<Longrightarrow> op_keeps P (bind_text s st)"
  by (simp add: op_keeps_def bind_text_def)

lemma keeps_ok_stmts [keeps]:
  "op_keeps pg_jobs_ok (reap_stmt l)"
  "op_keeps pg_jobs_ok (take_stmt w)"
  "op_keeps pg_jobs_ok (complete_stmt i w a)"
  "op_keeps pg_jobs_ok (renew_stmt i w a)"
  "op_keeps pg_jobs_ok (fail_stmt i w a s m)"
  "op_keeps pg_jobs_ok (purge_stmt c d)"
proof -
  show "op_keeps pg_jobs_ok (reap_stmt l)" by (intro op_keepsI reap_stmt_ok)
  show "op_keeps pg_jobs_ok (take_stmt w)" by (intro op_keepsI take_stmt_ok)
  have "pg_jobs_ok (snd (complete_stmt i w a db)) \<and> pg_jobs_ok (snd (renew_stmt i w a db)) \<and>
      pg_jobs_ok (snd (fail_stmt i w a s m db))" if "pg_jobs_ok db" for db
    using lease_update_ok(2) [OF that, of "complete_row (pg_now db)" "pg_now db" 0 "[]" i w a]
      lease_update_ok(2) [OF that, of "renew_row (pg_now db)" "pg_now db" 0 "[]" i w a]
      lease_update_ok(2) [OF that, of "fail_row (pg_now db) s m" "pg_now db" s m i w a]
    by (auto simp: complete_stmt_def renew_stmt_def fail_stmt_def update_jobs_returning_def
          split: prod.splits sum.splits)
  then show "op_keeps pg_jobs_ok (complete_stmt i w a)" "op_keeps pg_jobs_ok (renew_stmt i w a)"
    "op_keeps pg_jobs_ok (fail_stmt i w a s m)"
    by (simp_all add: op_keeps_def)
  show "op_keeps pg_jobs_ok (purge_stmt c d)"
    by (auto simp: op_keeps_def purge_stmt_def delete_jobs_def Let_def pg_jobs_ok_def intro: jobs_ok_filter)
qed

lemma insert_job_ok:
  assumes "m \<le> 2147483647"
  shows "op_keeps pg_jobs_ok (insert_job j m)"
proof (rule op_keepsI)
  fix db assume ok: "pg_jobs_ok db"
  show "pg_jobs_ok (snd (insert_job j m db))"
  proof (cases "snd (insert_job j m db) = db")
    case False
    then have "snd (insert_job j m db) = db\<lparr> jobs := jobs db @ [inserted_job j m (pg_now db)] \<rparr>"
      and "job_checks (inserted_job j m (pg_now db))" and "nj_id j \<notin> jr_id ` set (jobs db)"
      by (auto simp: insert_job_def Let_def split: if_splits)
    then show ?thesis
      using ok assms
      by (auto simp: pg_jobs_ok_def jobs_ok_def job_row_ok_def inserted_job_def job_checks_def)
  qed (use ok in simp)
qed

lemma validate_max_attempts_range:
  "validate_max_attempts v = Some m \<Longrightarrow> 0 < m \<and> m \<le> 2147483647 \<and> m = uint v"
  by (auto simp: validate_max_attempts_def word_neq_0_conv word_less_def split: if_splits)

lemma keeps_queue_ops [keeps]:
  "op_keeps pg_jobs_ok (pg_claim w l)"
  "op_keeps pg_jobs_ok (pg_complete i w a)"
  "op_keeps pg_jobs_ok (pg_renew i w a)"
  "op_keeps pg_jobs_ok (pg_fail i w a m dl)"
  "op_keeps pg_jobs_ok (pg_purge_terminal c d)"
  unfolding pg_claim_def pg_complete_def pg_renew_def pg_fail_def pg_purge_terminal_def Let_def
  by (intro keeps; simp)+

lemma keeps_enqueue [keeps]: "op_keeps pg_jobs_ok (pg_enqueue j)"
proof (cases "validate_max_attempts (nj_max_attempts j)")
  case (Some m)
  then have "op_keeps pg_jobs_ok (insert_job j m)"
    using validate_max_attempts_range by (intro insert_job_ok) blast
  then have "op_keeps pg_jobs_ok (op_map_err queue_error_from_sqlx (exec (insert_job j m)))"
    by (intro keeps) simp_all
  with Some show ?thesis
    by (auto simp: pg_enqueue_def op_keeps_def op_bind_def lift_result_def)
qed (auto simp: pg_enqueue_def op_keeps_def op_bind_def lift_result_def)

end
