(* ===== verification/Job_Queue_Spec.thy ===== *)
theory Job_Queue_Spec
  imports Job_Queue_Pg
begin

text \<open>
  What the PostgreSQL queue promises: an abstract queue (a map from job identifiers to
  phases) that the lease-checked statements implement, the exact effect of a claim, and the
  proof that the adapter satisfies the contract of the \<open>JobQueue\<close> port.
\<close>

section \<open>A sample table\<close>

text \<open>
  Four jobs on which the properties below are evaluated: one due, one leased since time 90, one
  completed long ago, and one whose worker disappeared on its last attempt.
\<close>

definition sample_job :: "uuid \<Rightarrow> job_status \<Rightarrow> int \<Rightarrow> timestamp \<Rightarrow> timestamp option
    \<Rightarrow> rstring option \<Rightarrow> timestamp option \<Rightarrow> job_row" where
  "sample_job i st att avail la lb done =
     \<lparr> jr_id = i, jr_job_type = lit ''user.created'', jr_payload = JNull, jr_status = st,
       jr_attempts = att, jr_max_attempts = 3, jr_available_at = avail, jr_locked_at = la,
       jr_locked_by = lb, jr_last_error = None, jr_created_at = 0, jr_updated_at = 0,
       jr_completed_at = done, jr_trace_context = JObject [] \<rparr>"

definition sample_db :: pg where
  "sample_db = \<lparr> users = [],
     jobs = [sample_job 1 Pending 0 5 None None None,
             sample_job 2 Running 1 5 (Some 90) (Some (lit ''v'')) None,
             sample_job 3 Completed 1 5 None None (Some 10),
             sample_job 4 Running 3 5 (Some 7) (Some (lit ''x'')) None],
     pg_now = 100, row_locks = [], faults = [] \<rparr>"

lemma sample_db_ok: "pg_jobs_ok sample_db"
  by (simp add: sample_db_def sample_job_def pg_jobs_ok_def jobs_ok_def job_row_ok_def
        job_checks_def btrim_def)

lemmas queue_eval = sample_db_def sample_job_def pg_complete_def pg_renew_def pg_fail_def pg_claim_def
  pg_purge_terminal_def pg_enqueue_def op_bind_def op_map_err_def lift_result_def exec_def
  bind_text_def pg_text_ok_def complete_stmt_def renew_stmt_def fail_stmt_def take_stmt_def
  reap_stmt_def purge_stmt_def update_jobs_def update_jobs_returning_def delete_jobs_def
  holds_lease_def job_checks_def btrim_def row_update_defs ensure_lease_def Let_def
  duration_seconds_def reap_candidates_def take_candidates_def purge_candidates_def
  lease_expired_def claimable_def purgeable_def locked_elsewhere_def locked_at_key_def
  into_application_def u32_try_from_i32_def PURGE_BATCH_SIZE_def disposition_of_status_def
  status_text_def validate_max_attempts_def insert_job_def inserted_job_def

text \<open>Calls on the sample table that succeed.\<close>

definition sample_claimed_job :: claimed_job where
  "sample_claimed_job = \<lparr> cj_id = 1, cj_job_type = lit ''user.created'', cj_payload = JNull,
     cj_trace_context = JObject [], cj_attempts = 1, cj_max_attempts = 3 \<rparr>"

lemma sample_claim:
  "pg_claim (lit ''w'') 20 sample_db =
     (Inr (Some sample_claimed_job), snd (pg_claim (lit ''w'') 20 sample_db))"
  by (simp add: queue_eval sample_claimed_job_def)

lemma sample_claim_idle:
  "pg_claim (lit ''w'') 200 (snd (pg_claim (lit ''w'') 20 sample_db)) =
     (Inr None, snd (pg_claim (lit ''w'') 200 (snd (pg_claim (lit ''w'') 20 sample_db))))"
  by (simp add: queue_eval)

lemma sample_purge:
  "pg_purge_terminal 20 50 sample_db = (Inr 1, snd (pg_purge_terminal 20 50 sample_db))"
  by (simp add: queue_eval)

lemma sample_enqueue:
  "pg_enqueue (new_job_new 9 (lit ''user.created'') JNull 5) sample_db =
     (Inr (), snd (pg_enqueue (new_job_new 9 (lit ''user.created'') JNull 5) sample_db))"
  by (simp add: queue_eval new_job_new_def)

lemma sample_complete:
  "pg_complete 2 (lit ''v'') 1 sample_db = (Inr (), snd (pg_complete 2 (lit ''v'') 1 sample_db))"
  by (simp add: queue_eval)

section \<open>Looking a job up\<close>

definition job_at :: "pg \<Rightarrow> uuid \<Rightarrow> job_row option" where
  "job_at db i = find (\<lambda>r. jr_id r = i) (jobs db)"

definition leased :: "pg \<Rightarrow> uuid \<Rightarrow> rstring \<Rightarrow> u32 \<Rightarrow> bool" where
  "leased db i w a = (case job_at db i of None \<Rightarrow> False | Some r \<Rightarrow> holds_lease i w a r)"

lemma find_map: "find P (map f xs) = map_option f (find (\<lambda>x. P (f x)) xs)"
  by (induction xs) auto

lemma job_at_faults [simp]: "job_at (db\<lparr> faults := fs \<rparr>) i = job_at db i"
  by (simp add: job_at_def)

lemma leased_faults [simp]: "leased (db\<lparr> faults := fs \<rparr>) i w a = leased db i w a"
  by (simp add: leased_def)

lemma job_at_Some: "job_at db i = Some r \<Longrightarrow> r \<in> set (jobs db) \<and> jr_id r = i"
  by (auto simp: job_at_def find_Some_iff)

lemma job_at_None: "job_at db i = None \<longleftrightarrow> i \<notin> jr_id ` set (jobs db)"
  by (auto simp: job_at_def find_None_iff)

lemma job_at_iff: "pg_jobs_ok db \<Longrightarrow> job_at db i = Some r \<longleftrightarrow> r \<in> set (jobs db) \<and> jr_id r = i"
proof
  assume ok: "pg_jobs_ok db" and r: "r \<in> set (jobs db) \<and> jr_id r = i"
  then obtain s where s: "job_at db i = Some s" using job_at_None by (metis image_iff option.exhaust)
  then show "job_at db i = Some r"
    using job_at_Some [OF s] r jobs_ok_unique ok unfolding pg_jobs_ok_def by blast
qed (simp add: job_at_Some)

lemma job_at_update:
  assumes "\<And>r. jr_id (f r) = jr_id r"
  shows "job_at (db\<lparr> jobs := map (\<lambda>r. if P r then f r else r) (jobs db) \<rparr>) k =
           map_option (\<lambda>r. if P r then f r else r) (job_at db k)"
proof -
  have "(\<lambda>x. jr_id (if P x then f x else x) = k) = (\<lambda>x. jr_id x = k)" using assms by auto
  then show ?thesis by (simp add: job_at_def find_map)
qed

lemma job_at_lease_update:
  assumes "\<And>r. jr_id (f r) = jr_id r"
  shows "job_at (db\<lparr> jobs := map (\<lambda>r. if holds_lease i w a r then f r else r) (jobs db) \<rparr>) k =
           (if k = i \<and> leased db i w a then map_option f (job_at db i) else job_at db k)"
proof (cases "job_at db k")
  case None
  then show ?thesis unfolding job_at_update [OF assms] by (auto simp: leased_def)
next
  case (Some r)
  then have "jr_id r = k" by (simp add: job_at_Some)
  then have "holds_lease i w a r \<longleftrightarrow> k = i \<and> leased db i w a"
    using Some by (auto simp: leased_def holds_lease_def)
  then show ?thesis unfolding job_at_update [OF assms] using Some by auto
qed

lemma filter_lease:
  assumes "pg_jobs_ok db"
  shows "filter (holds_lease i w a) (jobs db) = (if leased db i w a then [the (job_at db i)] else [])"
proof -
  have "find (holds_lease i w a) (jobs db) = (if leased db i w a then job_at db i else None)"
  proof (cases "find (holds_lease i w a) (jobs db)")
    case None
    then show ?thesis
      by (auto simp: leased_def find_None_iff dest: job_at_Some split: option.splits)
  next
    case (Some r)
    then have r: "r \<in> set (jobs db)" "holds_lease i w a r" by (auto simp: find_Some_iff)
    then have "job_at db i = Some r" using job_at_iff [OF assms] by (simp add: holds_lease_def)
    with r Some show ?thesis by (simp add: leased_def)
  qed
  then show ?thesis
    using filter_id_single [of "jobs db" "holds_lease i w a" i] assms
    by (auto simp: pg_jobs_ok_def jobs_ok_def holds_lease_def leased_def split: option.splits)
qed

section \<open>The abstract queue\<close>

datatype phase =
    Waiting timestamp
  | Leased rstring timestamp
  | Finished timestamp
  | Buried timestamp

record abstract_job =
  aj_phase :: phase
  aj_attempts :: int
  aj_max_attempts :: int

type_synonym abstract_queue = "uuid \<Rightarrow> abstract_job option"

definition abs_phase :: "job_row \<Rightarrow> phase" where
  "abs_phase r = (case jr_status r of
     Pending \<Rightarrow> Waiting (jr_available_at r)
   | Running \<Rightarrow> Leased (case jr_locked_by r of Some w \<Rightarrow> w | None \<Rightarrow> [])
                       (case jr_locked_at r of Some t \<Rightarrow> t | None \<Rightarrow> 0)
   | Completed \<Rightarrow> Finished (case jr_completed_at r of Some t \<Rightarrow> t | None \<Rightarrow> 0)
   | Dead \<Rightarrow> Buried (jr_updated_at r))"

definition abs_job :: "job_row \<Rightarrow> abstract_job" where
  "abs_job r = \<lparr> aj_phase = abs_phase r, aj_attempts = jr_attempts r,
                 aj_max_attempts = jr_max_attempts r \<rparr>"

definition abs_queue :: "pg \<Rightarrow> abstract_queue" where
  "abs_queue db i = map_option abs_job (job_at db i)"

lemma abs_queue_faults: "abs_queue (db\<lparr> faults := fs, jobs := js \<rparr>) = abs_queue (db\<lparr> jobs := js \<rparr>)"
  by (simp add: abs_queue_def job_at_def fun_eq_iff)

text \<open>Only the holder of the current attempt may move a leased job.\<close>

definition spec_holder :: "abstract_queue \<Rightarrow> uuid \<Rightarrow> rstring \<Rightarrow> u32 \<Rightarrow> bool" where
  "spec_holder m i w a = (case m i of
     Some j \<Rightarrow> aj_attempts j = uint a \<and> (case aj_phase j of Leased v t \<Rightarrow> v = w | _ \<Rightarrow> False)
   | None \<Rightarrow> False)"

definition spec_move ::
  "abstract_queue \<Rightarrow> uuid \<Rightarrow> rstring \<Rightarrow> u32 \<Rightarrow> (abstract_job \<Rightarrow> phase) \<Rightarrow> abstract_queue" where
  "spec_move m i w a ph =
     (if spec_holder m i w a then m(i := map_option (\<lambda>j. j\<lparr> aj_phase := ph j \<rparr>) (m i)) else m)"

definition spec_complete :: "uuid \<Rightarrow> rstring \<Rightarrow> u32 \<Rightarrow> timestamp \<Rightarrow> abstract_queue
    \<Rightarrow> (job_queue_error + unit) \<times> abstract_queue" where
  "spec_complete i w a now m =
     ((if spec_holder m i w a then Inr () else Inl LeaseLost),
      spec_move m i w a (\<lambda>_. Finished now))"

definition spec_renew :: "uuid \<Rightarrow> rstring \<Rightarrow> u32 \<Rightarrow> timestamp \<Rightarrow> abstract_queue
    \<Rightarrow> (job_queue_error + unit) \<times> abstract_queue" where
  "spec_renew i w a now m =
     ((if spec_holder m i w a then Inr () else Inl LeaseLost),
      spec_move m i w a (\<lambda>_. Leased w now))"

definition out_of_attempts :: "abstract_job \<Rightarrow> bool" where
  "out_of_attempts j \<longleftrightarrow> aj_max_attempts j \<le> aj_attempts j"

definition spec_fail :: "uuid \<Rightarrow> rstring \<Rightarrow> u32 \<Rightarrow> duration \<Rightarrow> timestamp \<Rightarrow> abstract_queue
    \<Rightarrow> (job_queue_error + job_disposition) \<times> abstract_queue" where
  "spec_fail i w a delay now m =
     ((if \<not> spec_holder m i w a then Inl LeaseLost
       else if out_of_attempts (the (m i)) then Inr DeadLetteredDisposition
       else Inr RetryScheduledDisposition),
      spec_move m i w a (\<lambda>j. if out_of_attempts j then Buried now else Waiting (now + int delay)))"

lemma spec_holder_abs:
  "pg_jobs_ok db \<Longrightarrow> spec_holder (abs_queue db) i w a \<longleftrightarrow> leased db i w a"
  unfolding spec_holder_def leased_def abs_queue_def
  by (cases "job_at db i")
    (auto simp: abs_job_def abs_phase_def holds_lease_def job_row_ok_def job_checks_def
      split: job_status.splits option.splits if_splits dest!: job_at_Some job_row_ok_in)

lemma abs_queue_lease_update:
  assumes ok: "pg_jobs_ok db" and id: "\<And>r. jr_id (f r) = jr_id r"
    and ph: "\<And>r. r \<in> set (jobs db) \<Longrightarrow> holds_lease i w a r \<Longrightarrow>
               abs_job (f r) = (abs_job r)\<lparr> aj_phase := ph (abs_job r) \<rparr>"
  shows "abs_queue (db\<lparr> jobs := map (\<lambda>r. if holds_lease i w a r then f r else r) (jobs db) \<rparr>) =
           spec_move (abs_queue db) i w a ph"
proof (rule ext)
  fix k
  show "abs_queue (db\<lparr> jobs := map (\<lambda>r. if holds_lease i w a r then f r else r) (jobs db) \<rparr>) k =
          spec_move (abs_queue db) i w a ph k"
  proof (cases "k = i \<and> leased db i w a")
    case True
    then obtain r where r: "job_at db i = Some r" "holds_lease i w a r"
      by (auto simp: leased_def split: option.splits)
    with True ph job_at_Some [OF r(1)] show ?thesis
      by (simp add: spec_move_def spec_holder_abs [OF ok] abs_queue_def job_at_lease_update [OF id])
  next
    case False
    then show ?thesis
      by (auto simp: spec_move_def spec_holder_abs [OF ok] abs_queue_def job_at_lease_update [OF id])
  qed
qed

lemma abs_job_row_updates:
  "holds_lease i w a r \<Longrightarrow> abs_job (complete_row now r) = (abs_job r)\<lparr> aj_phase := Finished now \<rparr>"
  "holds_lease i w a r \<Longrightarrow> abs_job (renew_row now r) = (abs_job r)\<lparr> aj_phase := Leased w now \<rparr>"
  "holds_lease i w a r \<Longrightarrow> abs_job (fail_row now s m r) = (abs_job r)\<lparr> aj_phase :=
      (if out_of_attempts (abs_job r) then Buried now else Waiting (now + s)) \<rparr>"
  by (simp_all add: abs_job_def abs_phase_def row_update_defs holds_lease_def out_of_attempts_def)

lemma disposition_of_fail_row:
  "disposition_of_status (status_text (jr_status (fail_row now s m r))) =
     Inr (if jr_attempts r \<ge> jr_max_attempts r then DeadLetteredDisposition
          else RetryScheduledDisposition)"
  by (simp add: disposition_of_status_def status_text_def fail_row_def)

section \<open>The lease-checked statements implement the abstract queue\<close>

text \<open>The state a successful statement leaves, and its result, under any fault script.\<close>

lemma bind_text_Inr: "bind_text s st db = (Inr x, db') \<longleftrightarrow> pg_text_ok s \<and> st db = (Inr x, db')"
  by (simp add: bind_text_def)

lemma answered_call:
  assumes "op_bind (op_map_err queue_error_from_sqlx (exec st)) (\<lambda>x. lift_result (g x)) db = (r, db')"
    and "r \<noteq> Inl QueueUnavailable"
  shows "\<exists>x fs. st (db\<lparr> faults := fs \<rparr>) = (Inr x, db') \<and> r = g x"
proof -
  obtain v d where v: "exec st db = (v, d)" by fastforce
  show ?thesis
  proof (cases v)
    case (Inl e)
    with assms v show ?thesis
      by (simp add: op_bind_def op_map_err_def queue_error_from_sqlx_def)
  next
    case (Inr x)
    with assms(1) v have "d = db'" "r = g x"
      by (simp_all add: op_bind_def op_map_err_def lift_result_def)
    with exec_Inr [of st db x d] v Inr show ?thesis by blast
  qed
qed

lemma pg_complete_result:
  assumes "pg_jobs_ok db" and "pg_complete i w a db = (r, db')" and "r \<noteq> Inl QueueUnavailable"
  shows "r = (if leased db i w a then Inr () else Inl LeaseLost)"
    and "\<exists>fs. db' = db\<lparr> faults := fs,
           jobs := map (\<lambda>r. if holds_lease i w a r then complete_row (pg_now db) r else r) (jobs db) \<rparr>"
proof -
  obtain n fs where st: "complete_stmt i w a (db\<lparr> faults := fs \<rparr>) = (Inr n, db')" and r: "r = ensure_lease n"
    using answered_call [OF assms(2) [unfolded pg_complete_def] assms(3)] by (auto simp: bind_text_Inr)
  from st have n: "n = length (filter (holds_lease i w a) (jobs db))"
    and db': "db' = db\<lparr> faults := fs,
        jobs := map (\<lambda>r. if holds_lease i w a r then complete_row (pg_now db) r else r) (jobs db) \<rparr>"
    using lease_stmts_ok(1) [of "db\<lparr> faults := fs \<rparr>" i w a] assms(1) by auto
  show "r = (if leased db i w a then Inr () else Inl LeaseLost)"
    using filter_lease [OF assms(1), of i w a] by (simp add: r n ensure_lease_def)
  show "\<exists>fs. db' = db\<lparr> faults := fs,
           jobs := map (\<lambda>r. if holds_lease i w a r then complete_row (pg_now db) r else r) (jobs db) \<rparr>"
    using db' by blast
qed

lemma pg_renew_result:
  assumes "pg_jobs_ok db" and "pg_renew i w a db = (r, db')" and "r \<noteq> Inl QueueUnavailable"
  shows "r = (if leased db i w a then Inr () else Inl LeaseLost)"
    and "\<exists>fs. db' = db\<lparr> faults := fs,
           jobs := map (\<lambda>r. if holds_lease i w a r then renew_row (pg_now db) r else r) (jobs db) \<rparr>"
proof -
  obtain n fs where st: "renew_stmt i w a (db\<lparr> faults := fs \<rparr>) = (Inr n, db')" and r: "r = ensure_lease n"
    using answered_call [OF assms(2) [unfolded pg_renew_def] assms(3)] by (auto simp: bind_text_Inr)
  from st have n: "n = length (filter (holds_lease i w a) (jobs db))"
    and db': "db' = db\<lparr> faults := fs,
        jobs := map (\<lambda>r. if holds_lease i w a r then renew_row (pg_now db) r else r) (jobs db) \<rparr>"
    using lease_stmts_ok(2) [of "db\<lparr> faults := fs \<rparr>" i w a] assms(1) by auto
  show "r = (if leased db i w a then Inr () else Inl LeaseLost)"
    using filter_lease [OF assms(1), of i w a] by (simp add: r n ensure_lease_def)
  show "\<exists>fs. db' = db\<lparr> faults := fs,
           jobs := map (\<lambda>r. if holds_lease i w a r then renew_row (pg_now db) r else r) (jobs db) \<rparr>"
    using db' by blast
qed

lemma pg_fail_result:
  assumes "pg_jobs_ok db" and "pg_fail i w a m d db = (r, db')" and "r \<noteq> Inl QueueUnavailable"
  shows "r = (if \<not> leased db i w a then Inl LeaseLost
              else if jr_attempts (the (job_at db i)) \<ge> jr_max_attempts (the (job_at db i))
                   then Inr DeadLetteredDisposition else Inr RetryScheduledDisposition)"
    and "\<exists>fs. db' = db\<lparr> faults := fs,
           jobs := map (\<lambda>r. if holds_lease i w a r
                            then fail_row (pg_now db) (int d) (take 4000 m) r else r) (jobs db) \<rparr>"
proof -
  obtain row fs where st: "fail_stmt i w a (int d) (take 4000 m) (db\<lparr> faults := fs \<rparr>) = (Inr row, db')"
    and r: "r = and_then (ok_or LeaseLost row) (\<lambda>r. disposition_of_status (status_text (jr_status r)))"
    using answered_call [OF assms(2) [unfolded pg_fail_def Let_def] assms(3)]
    by (auto simp: bind_text_Inr duration_seconds_def)
  from st have row: "row = (case filter (holds_lease i w a) (jobs db) of
        [] \<Rightarrow> None | r # _ \<Rightarrow> Some (fail_row (pg_now db) (int d) (take 4000 m) r))"
    and db': "db' = db\<lparr> faults := fs, jobs := map (\<lambda>r. if holds_lease i w a r
                then fail_row (pg_now db) (int d) (take 4000 m) r else r) (jobs db) \<rparr>"
    using lease_stmts_ok(3) [of "db\<lparr> faults := fs \<rparr>" i w a "int d" "take 4000 m"] assms(1)
    by (auto split: list.split)
  show "r = (if \<not> leased db i w a then Inl LeaseLost
              else if jr_attempts (the (job_at db i)) \<ge> jr_max_attempts (the (job_at db i))
                   then Inr DeadLetteredDisposition else Inr RetryScheduledDisposition)"
    using filter_lease [OF assms(1), of i w a] by (simp add: r row disposition_of_fail_row)
  show "\<exists>fs. db' = db\<lparr> faults := fs, jobs := map (\<lambda>r. if holds_lease i w a r
                then fail_row (pg_now db) (int d) (take 4000 m) r else r) (jobs db) \<rparr>"
    using db' by blast
qed

text \<open>
  C7. Completion, renewal and failure implement the abstract queue.  Whatever the server or
  the network does, a call that is answered (anything but \<open>Unavailable\<close>) returns exactly what
  the specification returns and leaves exactly the abstract state the specification leaves: the
  holder of the current attempt moves its job, everybody else gets \<open>LeaseLost\<close> and changes
  nothing.
\<close>

theorem lease_calls_refine_spec:
  assumes "pg_jobs_ok db"
  shows "(pg_complete i w a db = (r, db') \<and> r \<noteq> Inl QueueUnavailable \<longrightarrow>
            (r, abs_queue db') = spec_complete i w a (pg_now db) (abs_queue db)) \<and>
         (pg_renew i w a db = (r, db') \<and> r \<noteq> Inl QueueUnavailable \<longrightarrow>
            (r, abs_queue db') = spec_renew i w a (pg_now db) (abs_queue db)) \<and>
         (pg_fail i w a m d db = (s, db') \<and> s \<noteq> Inl QueueUnavailable \<longrightarrow>
            (s, abs_queue db') = spec_fail i w a d (pg_now db) (abs_queue db))"
proof (intro conjI impI; elim conjE)
  assume call: "pg_complete i w a db = (r, db')" "r \<noteq> Inl QueueUnavailable"
  show "(r, abs_queue db') = spec_complete i w a (pg_now db) (abs_queue db)"
    using pg_complete_result [OF assms call]
      abs_queue_lease_update [OF assms, of "complete_row (pg_now db)" i w a "\<lambda>_. Finished (pg_now db)"]
    by (auto simp: spec_complete_def spec_holder_abs [OF assms] abs_queue_faults abs_job_row_updates)
next
  assume call: "pg_renew i w a db = (r, db')" "r \<noteq> Inl QueueUnavailable"
  show "(r, abs_queue db') = spec_renew i w a (pg_now db) (abs_queue db)"
    using pg_renew_result [OF assms call]
      abs_queue_lease_update [OF assms, of "renew_row (pg_now db)" i w a "\<lambda>_. Leased w (pg_now db)"]
    by (auto simp: spec_renew_def spec_holder_abs [OF assms] abs_queue_faults abs_job_row_updates)
next
  assume call: "pg_fail i w a m d db = (s, db')" "s \<noteq> Inl QueueUnavailable"
  have q: "abs_queue db' = spec_move (abs_queue db) i w a
      (\<lambda>j. if out_of_attempts j then Buried (pg_now db) else Waiting (pg_now db + int d))"
    using pg_fail_result(2) [OF assms call]
      abs_queue_lease_update [OF assms, of "fail_row (pg_now db) (int d) (take 4000 m)" i w a
        "\<lambda>j. if out_of_attempts j then Buried (pg_now db) else Waiting (pg_now db + int d)"]
    by (auto simp: abs_queue_faults abs_job_row_updates)
  have "leased db i w a \<Longrightarrow> out_of_attempts (the (abs_queue db i)) \<longleftrightarrow>
      jr_attempts (the (job_at db i)) \<ge> jr_max_attempts (the (job_at db i))"
    by (auto simp: leased_def abs_queue_def out_of_attempts_def abs_job_def split: option.splits)
  then show "(s, abs_queue db') = spec_fail i w a d (pg_now db) (abs_queue db)"
    using pg_fail_result(1) [OF assms call] q
    by (simp add: spec_fail_def spec_holder_abs [OF assms])
qed

theorem lease_calls_refine_spec_witness:
  "(Inr (), abs_queue (snd (pg_complete 2 (lit ''v'') 1 sample_db))) =
     spec_complete 2 (lit ''v'') 1 100 (abs_queue sample_db)"
  using lease_calls_refine_spec [OF sample_db_ok] sample_complete
  by (auto simp: sample_db_def)

section \<open>Claiming\<close>

definition claim_key :: "job_row \<Rightarrow> timestamp \<times> timestamp" where
  "claim_key r = (jr_available_at r, jr_created_at r)"

text \<open>The state after the recovery statement of a claim.\<close>

definition reaped :: "int \<Rightarrow> pg \<Rightarrow> pg \<Rightarrow> bool" where
  "reaped l db db1 \<longleftrightarrow> (\<exists>fs. db1 = db\<lparr> faults := fs,
     jobs := map (\<lambda>r. if jr_id r \<in> set (reap_candidates l db) then reap_row (pg_now db) r else r)
               (jobs db) \<rparr>)"

lemma reap_candidates_faults [simp]: "reap_candidates l (db\<lparr> faults := fs \<rparr>) = reap_candidates l db"
  by (simp add: reap_candidates_def locked_elsewhere_def)

lemma exec_reap:
  assumes "pg_jobs_ok db" and "exec (reap_stmt l) db = (Inr n, db1)"
  shows "reaped l db db1" and "pg_jobs_ok db1"
proof -
  from exec_Inr [OF assms(2)] obtain fs where st: "reap_stmt l (db\<lparr> faults := fs \<rparr>) = (Inr n, db1)" ..
  have ok: "pg_jobs_ok (db\<lparr> faults := fs \<rparr>)" using assms(1) by simp
  show "reaped l db db1"
    using reap_stmt_ok(1) [OF ok, of l] st by (auto simp: reaped_def cong: if_cong)
  show "pg_jobs_ok db1"
    using reap_stmt_ok(2) [OF ok, of l] st by simp
qed

lemma reaped_job_at:
  "reaped l db db1 \<Longrightarrow> job_at db1 k =
     map_option (\<lambda>r. if k \<in> set (reap_candidates l db) then reap_row (pg_now db) r else r) (job_at db k)"
  using job_at_update [of "reap_row (pg_now db)" "\<lambda>r. jr_id r \<in> set (reap_candidates l db)"
      "db\<lparr> faults := fs \<rparr>" k for fs]
  by (cases "job_at db k") (auto simp: reaped_def dest: job_at_Some)

lemma reaped_frame: "reaped l db db1 \<Longrightarrow> pg_now db1 = pg_now db \<and> row_locks db1 = row_locks db"
  by (auto simp: reaped_def)

lemma take_candidates_cases:
  obtains (none) "take_candidates db = []" and "\<forall>r \<in> set (jobs db). \<not> claimable db r"
    | (first) c where "take_candidates db = [jr_id c]" and "c \<in> set (jobs db)" and "claimable db c"
        and "\<forall>r \<in> set (jobs db). claimable db r \<longrightarrow> claim_key c \<le> claim_key r"
proof -
  let ?ss = "sort_key claim_key (filter (claimable db) (jobs db))"
  have tc: "take_candidates db = take 1 (map jr_id ?ss)"
    by (simp add: take_candidates_def claim_key_def [abs_def])
  have set: "set ?ss = {r \<in> set (jobs db). claimable db r}" by simp
  show thesis
  proof (cases ?ss)
    case Nil
    with set have "\<forall>r \<in> set (jobs db). \<not> claimable db r" by auto
    with Nil tc show thesis by (intro none) simp_all
  next
    case (Cons c cs)
    have "sorted (map claim_key ?ss)" by simp
    with Cons have "\<forall>r \<in> set ?ss. claim_key c \<le> claim_key r" by simp
    with set Cons have min: "\<forall>r \<in> set (jobs db). claimable db r \<longrightarrow> claim_key c \<le> claim_key r"
      by blast
    have "c \<in> set ?ss" using Cons by (simp del: set_sort)
    with set min Cons tc show thesis by (intro first [of c]) auto
  qed
qed

lemma take_stmt_none:
  assumes "pg_jobs_ok db" and "take_stmt w db = (Inr None, db')"
  shows "(\<forall>r \<in> set (jobs db). \<not> claimable db r) \<and> db' = db"
proof (cases rule: take_candidates_cases [of db])
  case none
  with take_stmt_ok(1) [OF assms(1), of w] assms(2) show ?thesis by simp
next
  case (first c)
  with take_stmt_ok(1) [OF assms(1), of w] assms(2) have "filter (\<lambda>r. jr_id r = jr_id c) (jobs db) = []"
    by (auto split: list.splits)
  with first(2) show ?thesis by (auto simp: filter_empty_conv)
qed

lemma take_stmt_some:
  assumes "pg_jobs_ok db" and "take_stmt w db = (Inr (Some row), db')"
  obtains c where "c \<in> set (jobs db)" and "claimable db c" and "row = take_row w (pg_now db) c"
    and "\<forall>r \<in> set (jobs db). claimable db r \<longrightarrow> claim_key c \<le> claim_key r"
    and "\<And>k. job_at db' k = (if k = jr_id c then Some row else job_at db k)"
proof (cases rule: take_candidates_cases [of db])
  case none
  with take_stmt_ok(1) [OF assms(1), of w] assms(2) show thesis by simp
next
  case (first c)
  have c: "job_at db (jr_id c) = Some c" using job_at_iff [OF assms(1)] first(2) by simp
  then have "filter (\<lambda>r. jr_id r = jr_id c) (jobs db) = [c]"
    using filter_id_single [of "jobs db" "\<lambda>r. jr_id r = jr_id c" "jr_id c"] assms(1)
    by (simp add: pg_jobs_ok_def jobs_ok_def job_at_def)
  then have row: "row = take_row w (pg_now db) c"
    and db': "db' = db\<lparr> jobs := map (\<lambda>r. if jr_id r = jr_id c then take_row w (pg_now db) r else r) (jobs db) \<rparr>"
    using take_stmt_ok(1) [OF assms(1), of w] assms(2) first(1) by auto
  have "job_at db' k = (if k = jr_id c then Some row else job_at db k)" for k
    unfolding db' job_at_update [OF row_updates_id(2)] using c row
    by (cases "job_at db k") (auto dest: job_at_Some)
  with first row that show thesis by blast
qed

text \<open>\<open>u32::try_from\<close> never fails on a well-formed row, and the conversion is exact.\<close>

lemma into_application_ok:
  assumes "job_row_ok r"
  shows "\<exists>j. into_application r = Inr j \<and> cj_id j = jr_id r \<and> cj_job_type j = jr_job_type r \<and>
           cj_payload j = jr_payload r \<and> cj_trace_context j = jr_trace_context r \<and>
           uint (cj_attempts j) = jr_attempts r \<and> uint (cj_max_attempts j) = jr_max_attempts r"
  using assms
  by (simp add: into_application_def u32_try_from_i32_def job_row_ok_def job_checks_def
        uint_word_of_int take_bit_int_eq_self)

lemma pg_claim_unfold:
  assumes "pg_jobs_ok db" and "pg_claim w l db = (r, db')" and "r \<noteq> Inl QueueUnavailable"
  obtains db1 fs row where "reaped (int l) db db1" and "pg_jobs_ok db1"
    and "take_stmt w (db1\<lparr> faults := fs \<rparr>) = (Inr row, db')"
    and "r = (case row of None \<Rightarrow> Inr None | Some r \<Rightarrow> map_ok Some (into_application r))"
proof -
  obtain v db1 where v: "exec (reap_stmt (int l)) db = (v, db1)" by fastforce
  show thesis
  proof (cases v)
    case (Inl e)
    with assms(2,3) v show thesis
      by (simp add: pg_claim_def duration_seconds_def op_bind_def op_map_err_def queue_error_from_sqlx_def)
  next
    case (Inr n)
    note reap = exec_reap [OF assms(1) v [unfolded Inr]]
    from assms(2) v Inr have "op_bind (op_map_err queue_error_from_sqlx (exec (bind_text w (take_stmt w))))
        (\<lambda>row. lift_result (case row of None \<Rightarrow> Inr None
            | Some r \<Rightarrow> map_ok Some (into_application r))) db1 = (r, db')"
      by (simp add: pg_claim_def duration_seconds_def op_bind_def op_map_err_def)
    from answered_call [OF this assms(3)] reap that show thesis
      by (auto simp: bind_text_Inr)
  qed
qed

text \<open>The facts every property of a successful claim uses.\<close>

lemma pg_claim_someE:
  assumes "pg_jobs_ok db" and "pg_claim w l db = (Inr (Some j), db')"
  obtains db1 c where "reaped (int l) db db1" and "pg_jobs_ok db1" and "c \<in> set (jobs db1)"
    and "claimable db1 c" and "\<forall>r \<in> set (jobs db1). claimable db1 r \<longrightarrow> claim_key c \<le> claim_key r"
    and "into_application (take_row w (pg_now db) c) = Inr j"
    and "\<And>k. job_at db' k = (if k = jr_id c then Some (take_row w (pg_now db) c) else job_at db1 k)"
proof -
  obtain db1 fs row where r: "reaped (int l) db db1" "pg_jobs_ok db1"
    and t: "take_stmt w (db1\<lparr> faults := fs \<rparr>) = (Inr row, db')"
    and j: "Inr (Some j) = (case row of None \<Rightarrow> Inr None | Some r \<Rightarrow> map_ok Some (into_application r))"
    by (rule pg_claim_unfold [OF assms]) auto
  from j obtain x where x: "row = Some x" "into_application x = Inr j"
    by (cases row) (auto simp: result_simps dest!: sym [of "Inr (Some j)"])
  have ok1: "pg_jobs_ok (db1\<lparr> faults := fs \<rparr>)" using r by simp
  have cl: "claimable (db1\<lparr> faults := fs \<rparr>) = claimable db1"
    by (auto simp: claimable_def locked_elsewhere_def fun_eq_iff)
  show thesis
    by (rule take_stmt_some [OF ok1 t [unfolded x]])
      (use r x that reaped_frame [OF r(1)] in \<open>auto simp: cl\<close>)
qed

lemma claimed_attempts:
  assumes "pg_jobs_ok db1" and "c \<in> set (jobs db1)" and "claimable db1 c"
    and "into_application (take_row w now c) = Inr j"
  shows "cj_id j = jr_id c" and "cj_job_type j = jr_job_type c" and "cj_payload j = jr_payload c"
    and "cj_trace_context j = jr_trace_context c"
    and "uint (cj_attempts j) = jr_attempts c + 1"
    and "uint (cj_max_attempts j) = jr_max_attempts c"
  using into_application_ok [OF row_updates_ok(2) [OF job_row_ok_in [OF assms(1,2)] assms(3)],
      of w now] assms(4)
  by (auto simp: take_row_def)

text \<open>
  C16. A claim takes the oldest ready job and nothing else.  After the recovery of expired
  leases, the job returned is a pending, available, unlocked job with attempts left, minimal in
  the order by availability and creation time; the caller gets its fields with the attempt number
  increased by one, its row is now leased to the caller since \<open>NOW()\<close>, and no other row is touched.
\<close>

theorem claim_takes_oldest_ready:
  assumes "pg_jobs_ok db" and "pg_claim w l db = (Inr (Some j), db')"
  shows "\<exists>db1 c. reaped (int l) db db1 \<and> job_at db1 (cj_id j) = Some c \<and> claimable db1 c \<and>
     (\<forall>r \<in> set (jobs db1). claimable db1 r \<longrightarrow>
        (jr_available_at c, jr_created_at c) \<le> (jr_available_at r, jr_created_at r)) \<and>
     cj_job_type j = jr_job_type c \<and> cj_payload j = jr_payload c \<and>
     cj_trace_context j = jr_trace_context c \<and>
     uint (cj_attempts j) = jr_attempts c + 1 \<and> uint (cj_max_attempts j) = jr_max_attempts c \<and>
     (\<forall>k. job_at db' k = (if k = cj_id j then Some (take_row w (pg_now db) c) else job_at db1 k))"
proof (rule pg_claim_someE [OF assms])
  fix db1 c
  assume r: "reaped (int l) db db1" "pg_jobs_ok db1" "c \<in> set (jobs db1)" "claimable db1 c"
    and m: "\<forall>r \<in> set (jobs db1). claimable db1 r \<longrightarrow> claim_key c \<le> claim_key r"
    and j: "into_application (take_row w (pg_now db) c) = Inr j"
    and at: "\<And>k. job_at db' k = (if k = jr_id c then Some (take_row w (pg_now db) c) else job_at db1 k)"
  note f = claimed_attempts [OF r(2-4) j]
  have "job_at db1 (cj_id j) = Some c" using job_at_iff [OF r(2)] r(3) f(1) by simp
  with r m f at show ?thesis unfolding claim_key_def by metis
qed

theorem claim_takes_oldest_ready_witness:
  "\<exists>db1 c. reaped 20 sample_db db1 \<and> job_at db1 1 = Some c \<and> claimable db1 c \<and> jr_attempts c = 0"
  using claim_takes_oldest_ready [OF sample_db_ok sample_claim]
  by (auto simp: sample_claimed_job_def)

text \<open>The row before the call: a ready pending job, or an abandoned one.\<close>

lemma reaped_claimable:
  assumes "pg_jobs_ok db" and "reaped l db db1" and "job_at db1 i = Some c" and "claimable db1 c"
  obtains r where "job_at db i = Some r" and "jr_attempts r = jr_attempts c"
    and "jr_attempts r < jr_max_attempts r"
    and "jr_status r = Pending \<and> jr_available_at r \<le> pg_now db \<or> lease_expired l (pg_now db) r"
proof -
  from assms(2,3) obtain r where r: "job_at db i = Some r"
    and c: "c = (if i \<in> set (reap_candidates l db) then reap_row (pg_now db) r else r)"
    unfolding reaped_job_at [OF assms(2)] by auto
  show thesis
  proof (cases "i \<in> set (reap_candidates l db)")
    case True
    with reap_candidates_sound [OF assms(1)] job_at_Some [OF r] have "lease_expired l (pg_now db) r" by auto
    with True c r assms(4) that show thesis by (auto simp: claimable_def reap_row_def)
  next
    case False
    with c r assms(2,4) that show thesis by (auto simp: claimable_def reaped_frame)
  qed
qed

text \<open>
  A claim never takes a job whose lease is still running.  The job handed out was, before
  the call, either pending and due, or running with a lease older than the caller's lease timeout;
  it had attempts left, its attempt number grows by exactly one, and afterwards the caller holds
  exactly that attempt.
\<close>

theorem claim_never_steals:
  assumes "pg_jobs_ok db" and "pg_claim w l db = (Inr (Some j), db')"
  shows "(\<exists>r. job_at db (cj_id j) = Some r \<and>
            (jr_status r = Pending \<and> jr_available_at r \<le> pg_now db \<or>
             jr_status r = Running \<and> (\<exists>t. jr_locked_at r = Some t \<and> t + int l < pg_now db)) \<and>
            jr_attempts r < jr_max_attempts r \<and> uint (cj_attempts j) = jr_attempts r + 1) \<and>
         leased db' (cj_id j) w (cj_attempts j)"
proof (rule pg_claim_someE [OF assms])
  fix db1 c
  assume r: "reaped (int l) db db1" "pg_jobs_ok db1" "c \<in> set (jobs db1)" "claimable db1 c"
    and j: "into_application (take_row w (pg_now db) c) = Inr j"
    and at: "\<And>k. job_at db' k = (if k = jr_id c then Some (take_row w (pg_now db) c) else job_at db1 k)"
  note f = claimed_attempts [OF r(2-4) j]
  have c: "job_at db1 (cj_id j) = Some c" using job_at_iff [OF r(2)] r(3) f(1) by simp
  have "leased db' (cj_id j) w (cj_attempts j)"
    using at f by (simp add: leased_def holds_lease_def take_row_def)
  moreover obtain r0 where "job_at db (cj_id j) = Some r0" "jr_attempts r0 = jr_attempts c"
    "jr_attempts r0 < jr_max_attempts r0"
    "jr_status r0 = Pending \<and> jr_available_at r0 \<le> pg_now db \<or> lease_expired (int l) (pg_now db) r0"
    by (rule reaped_claimable [OF assms(1) r(1) c r(4)])
  ultimately show ?thesis
    using f(5) by (auto simp: lease_expired_def split: option.splits)
qed

theorem claim_never_steals_witness:
  "leased (snd (pg_claim (lit ''w'') 20 sample_db)) 1 (lit ''w'') 1"
  using claim_never_steals [OF sample_db_ok sample_claim]
  by (simp add: sample_claimed_job_def)

text \<open>
  \<open>Ok(None)\<close> means the queue is idle: when a claim finds nothing, no row of the table it
  leaves is pending, due, unlocked and with attempts left.
\<close>

theorem claim_none_means_idle:
  assumes "pg_jobs_ok db" and "pg_claim w l db = (Inr None, db')"
  shows "\<forall>r \<in> set (jobs db'). \<not> claimable db' r"
proof -
  obtain db1 fs row where r: "pg_jobs_ok db1"
    and t: "take_stmt w (db1\<lparr> faults := fs \<rparr>) = (Inr row, db')"
    and j: "Inr None = (case row of None \<Rightarrow> Inr None | Some r \<Rightarrow> map_ok Some (into_application r))"
    by (rule pg_claim_unfold [OF assms]) auto
  from j have row: "row = None"
    by (cases row) (auto simp: result_simps dest!: sym [of "Inr None"])
  have "pg_jobs_ok (db1\<lparr> faults := fs \<rparr>)" using r by simp
  from take_stmt_none [OF this t [unfolded row]] show ?thesis by auto
qed

theorem claim_none_means_idle_witness:
  "list_all (\<lambda>r. \<not> claimable (snd (pg_claim (lit ''w'') 200 (snd (pg_claim (lit ''w'') 20 sample_db)))) r)
     (jobs (snd (pg_claim (lit ''w'') 200 (snd (pg_claim (lit ''w'') 20 sample_db)))))"
proof -
  have "pg_jobs_ok (snd (pg_claim (lit ''w'') 20 sample_db))"
    by (rule op_keepsD [OF keeps_queue_ops(1) sample_db_ok])
  from claim_none_means_idle [OF this sample_claim_idle] show ?thesis
    by (simp only: list_all_iff)
qed

text \<open>Every expired lease is a candidate when no more than a batch of them is waiting.\<close>

definition abandoned :: "int \<Rightarrow> pg \<Rightarrow> job_row \<Rightarrow> bool" where
  "abandoned l db r \<longleftrightarrow> lease_expired l (pg_now db) r \<and> \<not> locked_elsewhere db r"

lemma abandoned_candidate:
  assumes "length (filter (abandoned l db) (jobs db)) \<le> 1000"
    and "r \<in> set (jobs db)" and "abandoned l db r"
  shows "jr_id r \<in> set (reap_candidates l db)"
proof -
  have ab: "abandoned l db = (\<lambda>r. lease_expired l (pg_now db) r \<and> \<not> locked_elsewhere db r)"
    by (simp add: abandoned_def fun_eq_iff)
  let ?ss = "sort_key (\<lambda>r. (locked_at_key r, uint (jr_id r))) (filter (abandoned l db) (jobs db))"
  have "reap_candidates l db = map jr_id ?ss"
    using assms(1) unfolding reap_candidates_def ab by simp
  moreover have "r \<in> set ?ss" using assms(2,3) by simp
  ultimately show ?thesis by (simp del: set_sort)
qed

text \<open>
  C17. Abandoned jobs come back.  When a claim is answered and at most one batch (1000) of expired
  leases was waiting, every job whose worker disappeared has left that lease: if its attempts
  are used up it is dead; otherwise it is pending again, or it is the job just claimed.
\<close>

theorem abandoned_jobs_recovered:
  assumes "pg_jobs_ok db" and "pg_claim w l db = (Inr res, db')"
    and "length (filter (abandoned (int l) db) (jobs db)) \<le> 1000"
    and "r \<in> set (jobs db)" and "abandoned (int l) db r"
  shows "\<exists>r'. job_at db' (jr_id r) = Some r' \<and>
     (if jr_max_attempts r \<le> jr_attempts r then jr_status r' = Dead
      else jr_status r' = Pending \<or> (\<exists>j. res = Some j \<and> cj_id j = jr_id r))"
proof -
  have cand: "jr_id r \<in> set (reap_candidates (int l) db)"
    by (rule abandoned_candidate [OF assms(3-5)])
  have r: "job_at db (jr_id r) = Some r" using job_at_iff [OF assms(1)] assms(4) by simp
  have at1: "job_at db1 (jr_id r) = Some (reap_row (pg_now db) r)" if "reaped (int l) db db1" for db1
    using reaped_job_at [OF that] cand r by simp
  show ?thesis
  proof (cases res)
    case None
    obtain db1 fs row where d: "reaped (int l) db db1" "pg_jobs_ok (db1\<lparr> faults := fs \<rparr>)"
      and t: "take_stmt w (db1\<lparr> faults := fs \<rparr>) = (Inr row, db')"
      and j: "Inr None = (case row of None \<Rightarrow> Inr None | Some r \<Rightarrow> map_ok Some (into_application r))"
      by (rule pg_claim_unfold [OF assms(1,2)]) (auto simp: None)
    from j have "row = None" by (cases row) (auto simp: result_simps dest!: sym [of "Inr None"])
    with take_stmt_none [OF d(2)] t have "db' = db1\<lparr> faults := fs \<rparr>" by simp
    with at1 [OF d(1)] show ?thesis by (simp add: reap_row_def None)
  next
    case (Some j)
    show ?thesis
    proof (rule pg_claim_someE [OF assms(1) assms(2) [unfolded Some]])
      fix db1 c
      assume d: "reaped (int l) db db1" "pg_jobs_ok db1" "c \<in> set (jobs db1)" "claimable db1 c"
        and j: "into_application (take_row w (pg_now db) c) = Inr j"
        and at: "\<And>k. job_at db' k = (if k = jr_id c then Some (take_row w (pg_now db) c) else job_at db1 k)"
      note f = claimed_attempts(1) [OF d(2-4) j]
      have c: "job_at db1 (jr_id c) = Some c" using job_at_iff [OF d(2)] d(3) by simp
      show ?thesis
      proof (cases "jr_id c = jr_id r")
        case True
        with c at1 [OF d(1)] have "c = reap_row (pg_now db) r" by simp
        with d(4) True f Some at show ?thesis by (auto simp: claimable_def reap_row_def)
      next
        case False
        with at at1 [OF d(1)] show ?thesis by (auto simp: reap_row_def)
      qed
    qed
  qed
qed

theorem abandoned_jobs_recovered_witness:
  "\<exists>r'. job_at (snd (pg_claim (lit ''w'') 20 sample_db)) 4 = Some r' \<and> jr_status r' = Dead"
  using abandoned_jobs_recovered [OF sample_db_ok sample_claim, of "jobs sample_db ! 3"]
  by (simp add: sample_db_def sample_job_def abandoned_def lease_expired_def locked_elsewhere_def)

text \<open>
  C18. A queue with work in it makes progress.  If the server answers and some job is due (ready and
  unlocked, or abandoned with attempts left and within the recovery batch), a claim returns a job.
\<close>

theorem claim_progress:
  assumes "pg_jobs_ok db" and "faults db = []" and "pg_text_ok w" and "r \<in> set (jobs db)"
    and "claimable db r \<or> abandoned (int l) db r \<and> jr_attempts r < jr_max_attempts r \<and>
           length (filter (abandoned (int l) db) (jobs db)) \<le> 1000"
  shows "\<exists>j db'. pg_claim w l db = (Inr (Some j), db')"
proof -
  obtain n db1 where e1: "exec (reap_stmt (int l)) db = (Inr n, db1)"
    by (simp add: exec_no_faults [OF assms(2)] reap_stmt_ok(1) [OF assms(1)])
  note d = exec_reap [OF assms(1) e1]
  have f1: "faults db1 = []"
    using e1 assms(2) by (auto simp: exec_no_faults [OF assms(2)] reap_stmt_ok(1) [OF assms(1)])
  have r: "job_at db (jr_id r) = Some r" using job_at_iff [OF assms(1)] assms(4) by simp
  have due: "\<exists>r1 \<in> set (jobs db1). claimable db1 r1"
  proof (cases "jr_id r \<in> set (reap_candidates (int l) db)")
    case True
    with reaped_job_at [OF d(1)] r have 1: "job_at db1 (jr_id r) = Some (reap_row (pg_now db) r)" by simp
    have "lease_expired (int l) (pg_now db) r \<and> \<not> locked_elsewhere db r"
      using reap_candidates_sound [OF assms(1,4) True] .
    with assms(5) have "claimable db1 (reap_row (pg_now db) r)"
      using reaped_frame [OF d(1)]
      by (auto simp: claimable_def lease_expired_def locked_elsewhere_def reap_row_def)
    with 1 job_at_Some show ?thesis by blast
  next
    case False
    with reaped_job_at [OF d(1)] r have 1: "job_at db1 (jr_id r) = Some r" by simp
    from False assms(4,5) abandoned_candidate have "claimable db r" by blast
    then have "claimable db1 r"
      using reaped_frame [OF d(1)] by (simp add: claimable_def locked_elsewhere_def)
    with 1 job_at_Some show ?thesis by blast
  qed
  obtain row db2 where t: "take_stmt w db1 = (Inr row, db2)"
    using take_stmt_ok(1) [OF d(2), of w] by blast
  obtain x where x: "row = Some x"
    using take_stmt_none [OF d(2), of w db2] t due by (cases row) auto
  obtain c where c: "c \<in> set (jobs db1)" "claimable db1 c" "x = take_row w (pg_now db1) c"
    by (rule take_stmt_some [OF d(2) t [unfolded x]])
  then obtain j where "into_application x = Inr j"
    using into_application_ok [OF row_updates_ok(2) [OF job_row_ok_in [OF d(2) c(1)] c(2)]] by blast
  then show ?thesis
    using e1 t x assms(3)
    by (simp add: pg_claim_def duration_seconds_def op_bind_def op_map_err_def lift_result_def
          bind_text_def exec_no_faults [OF f1])
qed

theorem claim_progress_witness:
  "\<exists>j db'. pg_claim (lit ''w'') 20 sample_db = (Inr (Some j), db')"
  by (rule claim_progress [OF sample_db_ok, where r = "jobs sample_db ! 0"])
    (simp_all add: sample_db_def sample_job_def claimable_def locked_elsewhere_def pg_text_ok_def)

section \<open>Enqueueing and purging\<close>

text \<open>
  Enqueueing stores exactly the given job.  \<open>Ok\<close> means that the attempt limit was between
  1 and \<open>i32::MAX\<close>, that the identifier was new, and that the table has gained one pending
  row with those fields, due immediately and with no attempt used.
\<close>

theorem enqueue_stores_job:
  assumes "pg_enqueue j db = (Inr u, db')"
  shows "1 \<le> uint (nj_max_attempts j) \<and> uint (nj_max_attempts j) \<le> 2147483647 \<and>
     nj_id j \<notin> jr_id ` set (jobs db) \<and>
     jobs db' = jobs db @ [\<lparr> jr_id = nj_id j, jr_job_type = nj_job_type j,
       jr_payload = nj_payload j, jr_status = Pending, jr_attempts = 0,
       jr_max_attempts = uint (nj_max_attempts j), jr_available_at = pg_now db,
       jr_locked_at = None, jr_locked_by = None, jr_last_error = None,
       jr_created_at = pg_now db, jr_updated_at = pg_now db, jr_completed_at = None,
       jr_trace_context = nj_trace_context j \<rparr>]"
proof -
  from assms obtain m where m: "validate_max_attempts (nj_max_attempts j) = Some m"
    and ex: "exec (insert_job j m) db = (Inr u, db')"
    by (auto simp: pg_enqueue_def op_simps result_simps)
  from exec_Inr [OF ex] validate_max_attempts_range [OF m] show ?thesis
    by (auto simp: insert_job_def Let_def inserted_job_def split: if_splits)
qed

theorem enqueue_stores_job_witness:
  "length (jobs (snd (pg_enqueue (new_job_new 9 (lit ''user.created'') JNull 5) sample_db))) = 5"
  using enqueue_stores_job [OF sample_enqueue] by (simp add: sample_db_def)

lemma filter_take_ids:
  "distinct (map g rs) \<Longrightarrow>
     filter (\<lambda>r. g r \<in> set (take n (map g (filter P rs)))) rs = take n (filter P rs)"
proof (induction rs arbitrary: n)
  case (Cons x rs)
  then have IH: "filter (\<lambda>r. g r \<in> set (take m (map g (filter P rs)))) rs = take m (filter P rs)" for m
    by simp
  have other: "g r \<noteq> g x" if "r \<in> set rs" for r using Cons.prems that by (auto simp: image_iff)
  show ?case
  proof (cases "P x")
    case True
    show ?thesis
    proof (cases n)
      case (Suc m)
      have "filter (\<lambda>r. g r = g x \<or> g r \<in> set (take m (map g (filter P rs)))) rs
          = filter (\<lambda>r. g r \<in> set (take m (map g (filter P rs)))) rs"
        using other by (intro filter_cong) auto
      with True Suc IH [of m] show ?thesis by simp
    qed (simp add: filter_empty_conv)
  next
    case False
    have "g x \<notin> set (take n (map g (filter P rs)))"
      using Cons.prems by (auto dest!: in_set_takeD)
    with False IH show ?thesis by simp
  qed
qed simp

lemma purge_result:
  assumes "pg_jobs_ok db" and "pg_purge_terminal c d db = (Inr n, db')"
  shows "n = length (take PURGE_BATCH_SIZE (filter (\<lambda>r. purgeable (int c) (int d) (pg_now db) r
               \<and> \<not> locked_elsewhere db r) (jobs db)))"
    and "\<exists>fs. db' = db\<lparr> faults := fs, jobs := filter (\<lambda>r. jr_id r \<notin> set (take PURGE_BATCH_SIZE
           (map jr_id (filter (\<lambda>r. purgeable (int c) (int d) (pg_now db) r
               \<and> \<not> locked_elsewhere db r) (jobs db))))) (jobs db) \<rparr>"
proof -
  from assms(2) have "exec (purge_stmt (int c) (int d)) db = (Inr n, db')"
    by (simp add: pg_purge_terminal_def op_simps duration_seconds_def)
  from exec_Inr [OF this] obtain fs where
    st: "purge_stmt (int c) (int d) (db\<lparr> faults := fs \<rparr>) = (Inr n, db')" ..
  have le: "locked_elsewhere (db\<lparr> faults := fs \<rparr>) = locked_elsewhere db" for fs
    by (simp add: locked_elsewhere_def fun_eq_iff)
  have dist: "distinct (map jr_id (jobs db))" using assms(1) by (simp add: pg_jobs_ok_def jobs_ok_def)
  show "n = length (take PURGE_BATCH_SIZE (filter (\<lambda>r. purgeable (int c) (int d) (pg_now db) r
               \<and> \<not> locked_elsewhere db r) (jobs db)))"
    using st filter_take_ids [OF dist, of PURGE_BATCH_SIZE
        "\<lambda>r. purgeable (int c) (int d) (pg_now db) r \<and> \<not> locked_elsewhere db r"]
    by (simp add: purge_stmt_def Let_def delete_jobs_def purge_candidates_def le)
  show "\<exists>fs. db' = db\<lparr> faults := fs, jobs := filter (\<lambda>r. jr_id r \<notin> set (take PURGE_BATCH_SIZE
           (map jr_id (filter (\<lambda>r. purgeable (int c) (int d) (pg_now db) r
               \<and> \<not> locked_elsewhere db r) (jobs db))))) (jobs db) \<rparr>"
    using st by (auto simp: purge_stmt_def Let_def delete_jobs_def purge_candidates_def le)
qed

lemma purge_count:
  assumes "pg_jobs_ok db" and "pg_purge_terminal c d db = (Inr n, db')"
  shows "n \<le> PURGE_BATCH_SIZE \<and> length (jobs db) = length (jobs db') + n"
proof -
  let ?E = "\<lambda>r. purgeable (int c) (int d) (pg_now db) r \<and> \<not> locked_elsewhere db r"
  let ?K = "set (take PURGE_BATCH_SIZE (map jr_id (filter ?E (jobs db))))"
  have "distinct (map jr_id (jobs db))" using assms(1) by (simp add: pg_jobs_ok_def jobs_ok_def)
  note del = filter_take_ids [OF this, of PURGE_BATCH_SIZE ?E]
  from purge_result(2) [OF assms] have "jobs db' = filter (\<lambda>r. jr_id r \<notin> ?K) (jobs db)" by auto
  then show ?thesis
    using sum_length_filter_compl [of "\<lambda>r. jr_id r \<in> ?K" "jobs db"] del purge_result(1) [OF assms]
    by simp
qed

lemma purge_drained:
  assumes "pg_jobs_ok db" and "pg_purge_terminal c d db = (Inr n, db')" and "n < PURGE_BATCH_SIZE"
    and "r \<in> set (jobs db')" and "purgeable (int c) (int d) (pg_now db') r"
  shows "locked_elsewhere db' r"
proof (rule ccontr)
  let ?E = "\<lambda>r. purgeable (int c) (int d) (pg_now db) r \<and> \<not> locked_elsewhere db r"
  let ?K = "set (take PURGE_BATCH_SIZE (map jr_id (filter ?E (jobs db))))"
  from purge_result(2) [OF assms(1,2)] obtain fs where
    db': "db' = db\<lparr> faults := fs, jobs := filter (\<lambda>r. jr_id r \<notin> ?K) (jobs db) \<rparr>" ..
  assume "\<not> locked_elsewhere db' r"
  with assms(4,5) have E: "?E r" "r \<in> set (jobs db)" "jr_id r \<notin> ?K"
    by (auto simp: db' locked_elsewhere_def)
  have "take PURGE_BATCH_SIZE (map jr_id (filter ?E (jobs db))) = map jr_id (filter ?E (jobs db))"
    using assms(3) purge_result(1) [OF assms(1,2)] by simp
  with E show False by simp
qed

text \<open>
  Purging deletes only old terminal jobs, in bounded batches.  One call removes at most 1000
  rows and reports how many; the rows that stay are unchanged and in their order; a removed row
  was completed or dead for longer than its retention; and a count below 1000 means that no
  eligible row is left.
\<close>

theorem purge_deletes_only_expired:
  assumes "pg_jobs_ok db" and "pg_purge_terminal c d db = (Inr n, db')"
  shows "n \<le> 1000 \<and> length (jobs db) = length (jobs db') + n \<and>
     (\<exists>K. jobs db' = filter (\<lambda>r. jr_id r \<notin> K) (jobs db)) \<and>
     (\<forall>r \<in> set (jobs db) - set (jobs db'). purgeable (int c) (int d) (pg_now db) r \<and>
        (jr_status r = Completed \<or> jr_status r = Dead)) \<and>
     (n < 1000 \<longrightarrow>
        (\<forall>r \<in> set (jobs db'). purgeable (int c) (int d) (pg_now db') r \<longrightarrow> locked_elsewhere db' r))"
proof -
  let ?E = "\<lambda>r. purgeable (int c) (int d) (pg_now db) r \<and> \<not> locked_elsewhere db r"
  let ?K = "set (take PURGE_BATCH_SIZE (map jr_id (filter ?E (jobs db))))"
  have dist: "distinct (map jr_id (jobs db))" using assms(1) by (simp add: pg_jobs_ok_def jobs_ok_def)
  note del = filter_take_ids [OF dist, of PURGE_BATCH_SIZE ?E]
  from purge_result(2) [OF assms] obtain fs where
    db': "db' = db\<lparr> faults := fs, jobs := filter (\<lambda>r. jr_id r \<notin> ?K) (jobs db) \<rparr>" ..
  have n: "n = length (take PURGE_BATCH_SIZE (filter ?E (jobs db)))" by (rule purge_result(1) [OF assms])
  have len: "length (jobs db) = length (jobs db') + n" using purge_count [OF assms] by simp
  have gone: "?E r" if "r \<in> set (jobs db)" "r \<notin> set (jobs db')" for r
  proof -
    from that have "r \<in> set (filter (\<lambda>r. jr_id r \<in> ?K) (jobs db))" by (auto simp: db')
    then show ?thesis unfolding del by (auto dest: in_set_takeD)
  qed
  have left: "locked_elsewhere db' r"
    if "n < 1000" "r \<in> set (jobs db')" "purgeable (int c) (int d) (pg_now db') r" for r
    using purge_drained [OF assms _ that(2,3)] that(1) by (simp add: PURGE_BATCH_SIZE_def)
  have "n \<le> 1000" using n by (simp add: PURGE_BATCH_SIZE_def)
  moreover have "\<exists>K. jobs db' = filter (\<lambda>r. jr_id r \<notin> K) (jobs db)"
    by (rule exI [of _ ?K]) (simp add: db')
  moreover have "\<forall>r \<in> set (jobs db) - set (jobs db'). purgeable (int c) (int d) (pg_now db) r \<and>
      (jr_status r = Completed \<or> jr_status r = Dead)"
    using gone by (simp add: purgeable_def) blast
  ultimately show ?thesis using len left by blast
qed

theorem purge_deletes_only_expired_witness:
  "length (jobs (snd (pg_purge_terminal 20 50 sample_db))) = 3"
proof -
  have "length (jobs sample_db) = 4" by (simp add: sample_db_def)
  moreover have "length (jobs sample_db) = length (jobs (snd (pg_purge_terminal 20 50 sample_db))) + 1"
    using purge_deletes_only_expired [OF sample_db_ok sample_purge] by blast
  ultimately show ?thesis by simp
qed

section \<open>The adapter satisfies the contract of the port\<close>

lemma map_no_holder:
  "pg_jobs_ok db \<Longrightarrow> \<not> leased db i w a \<Longrightarrow>
     map (\<lambda>r. if holds_lease i w a r then f r else r) (jobs db) = jobs db"
  using filter_lease [of db i w a] by (intro map_idI) (auto simp: filter_empty_conv)

lemma not_leased_after:
  assumes "leased db i w a" and "\<And>r. jr_id (f r) = jr_id r" and "\<And>r. jr_status (f r) \<noteq> Running"
    and "db' = db\<lparr> faults := fs, jobs := map (\<lambda>r. if holds_lease i w a r then f r else r) (jobs db) \<rparr>"
  shows "\<not> leased db' i v b"
proof -
  have "job_at db' i = map_option f (job_at db i)"
    using job_at_lease_update [where f = f and db = "db\<lparr> faults := fs \<rparr>" and i = i and w = w
        and a = a and k = i] assms by simp
  with assms(3) show ?thesis by (auto simp: leased_def holds_lease_def split: option.splits)
qed

lemma leased_renewed:
  assumes "leased db i w a"
    and "db' = db\<lparr> faults := fs, jobs := map (\<lambda>r. if holds_lease i w a r then renew_row now r else r) (jobs db) \<rparr>"
  shows "leased db' i w a"
proof -
  have "job_at db' i = map_option (renew_row now) (job_at db i)"
    using job_at_lease_update [where f = "renew_row now" and db = "db\<lparr> faults := fs \<rparr>" and i = i
        and w = w and a = a and k = i] assms by simp
  with assms(1) show ?thesis
    by (auto simp: leased_def holds_lease_def renew_row_def split: option.splits)
qed

text \<open>The PostgreSQL adapter is a queue in the sense of the port, with any script of faults.\<close>

lemma pg_claim_leased:
  assumes "pg_jobs_ok q" and "pg_claim w l q = (Inr (Some j), q')"
  shows "leased q' (cj_id j) w (cj_attempts j)"
proof (rule pg_claim_someE [OF assms])
  fix db1 c
  assume r: "reaped (int l) q db1" "pg_jobs_ok db1" "c \<in> set (jobs db1)" "claimable db1 c"
    and j: "into_application (take_row w (pg_now q) c) = Inr j"
    and at: "\<And>k. job_at q' k = (if k = jr_id c then Some (take_row w (pg_now q) c) else job_at db1 k)"
  from at claimed_attempts [OF r(2-4) j] show ?thesis
    by (simp add: leased_def holds_lease_def take_row_def)
qed

lemma lease_calls_owned:
  assumes "pg_jobs_ok q"
  shows "pg_complete i w a q = (Inr u, q') \<Longrightarrow> leased q i w a \<and> \<not> leased q' i v b"
    and "pg_renew i w a q = (Inr u, q') \<Longrightarrow> leased q i w a \<and> leased q' i w a"
    and "pg_fail i w a m d q = (Inr disp, q') \<Longrightarrow> leased q i w a \<and> \<not> leased q' i v b"
proof -
  assume c: "pg_complete i w a q = (Inr u, q')"
  from pg_complete_result(1) [OF assms c] have l: "leased q i w a" by (simp split: if_splits)
  from pg_complete_result(2) [OF assms c] obtain fs where "q' = q\<lparr> faults := fs, jobs :=
      map (\<lambda>r. if holds_lease i w a r then complete_row (pg_now q) r else r) (jobs q) \<rparr>" by auto
  from not_leased_after [OF l _ _ this] l show "leased q i w a \<and> \<not> leased q' i v b"
    by (simp add: complete_row_def)
next
  assume c: "pg_renew i w a q = (Inr u, q')"
  from pg_renew_result(1) [OF assms c] have l: "leased q i w a" by (simp split: if_splits)
  from pg_renew_result(2) [OF assms c] obtain fs where "q' = q\<lparr> faults := fs, jobs :=
      map (\<lambda>r. if holds_lease i w a r then renew_row (pg_now q) r else r) (jobs q) \<rparr>" by auto
  from leased_renewed [OF l this] l show "leased q i w a \<and> leased q' i w a" by simp
next
  assume c: "pg_fail i w a m d q = (Inr disp, q')"
  from pg_fail_result(1) [OF assms c] have l: "leased q i w a" by (simp split: if_splits)
  from pg_fail_result(2) [OF assms c] obtain fs where "q' = q\<lparr> faults := fs, jobs :=
      map (\<lambda>r. if holds_lease i w a r then fail_row (pg_now q) (int d) (take 4000 m) r else r)
        (jobs q) \<rparr>" by auto
  from not_leased_after [OF l _ _ this] l show "leased q i w a \<and> \<not> leased q' i v b"
    by (simp add: fail_row_def)
qed

lemma lease_calls_lost:
  assumes "pg_jobs_ok q"
  shows "pg_complete i w a q = (Inl LeaseLost, q') \<Longrightarrow> jobs q' = jobs q \<and> \<not> leased q i w a"
    and "pg_renew i w a q = (Inl LeaseLost, q') \<Longrightarrow> jobs q' = jobs q \<and> \<not> leased q i w a"
    and "pg_fail i w a m d q = (Inl LeaseLost, q') \<Longrightarrow> jobs q' = jobs q \<and> \<not> leased q i w a"
proof -
  assume c: "pg_complete i w a q = (Inl LeaseLost, q')"
  from pg_complete_result(1) [OF assms c] have l: "\<not> leased q i w a" by (simp split: if_splits)
  with pg_complete_result(2) [OF assms c] map_no_holder [OF assms l]
  show "jobs q' = jobs q \<and> \<not> leased q i w a" by auto
next
  assume c: "pg_renew i w a q = (Inl LeaseLost, q')"
  from pg_renew_result(1) [OF assms c] have l: "\<not> leased q i w a" by (simp split: if_splits)
  with pg_renew_result(2) [OF assms c] map_no_holder [OF assms l]
  show "jobs q' = jobs q \<and> \<not> leased q i w a" by auto
next
  assume c: "pg_fail i w a m d q = (Inl LeaseLost, q')"
  from pg_fail_result(1) [OF assms c] have l: "\<not> leased q i w a" by (simp split: if_splits)
  with pg_fail_result(2) [OF assms c] map_no_holder [OF assms l]
  show "jobs q' = jobs q \<and> \<not> leased q i w a" by auto
qed

interpretation pgq: job_queue_contract pg_job_queue pg_jobs_ok leased
    "\<lambda>q q'. jobs q' = jobs q" "\<lambda>q. length (jobs q)"
proof (unfold_locales, goal_cases)
  case (15 q c d n q')
  then have r: "pg_jobs_ok q" "pg_purge_terminal c d q = (Inr n, q')" by (simp_all add: pg_job_queue_def)
  with purge_count [OF r] show ?case by simp
qed (auto simp: pg_job_queue_def leased_def [abs_def] job_at_def
      dest: lease_calls_owned lease_calls_lost pg_claim_leased
      intro: op_keepsD [OF keeps_enqueue] op_keepsD [OF keeps_queue_ops(1)]
          op_keepsD [OF keeps_queue_ops(2)] op_keepsD [OF keeps_queue_ops(3)]
          op_keepsD [OF keeps_queue_ops(4)] op_keepsD [OF keeps_queue_ops(5)])

text \<open>
  C19. The job table stays well-formed.  Whatever the network does (a request lost before the server
  saw it, a reply lost after the statement took effect), each of the six operations keeps the
  invariant: unique identifiers, the table's \<open>CHECK\<close> constraints, attempt limits within an
  \<open>INTEGER\<close>, and no pending job that has used up its attempts.
\<close>

theorem job_table_invariant:
  assumes "pg_jobs_ok db"
  shows "pg_jobs_ok (snd (pg_enqueue j db)) \<and> pg_jobs_ok (snd (pg_claim w l db)) \<and>
     pg_jobs_ok (snd (pg_complete i w a db)) \<and> pg_jobs_ok (snd (pg_renew i w a db)) \<and>
     pg_jobs_ok (snd (pg_fail i w a m d db)) \<and> pg_jobs_ok (snd (pg_purge_terminal c e db))"
  using assms pgq.enqueue_inv pgq.claim_inv pgq.complete_inv pgq.renew_inv pgq.fail_inv pgq.purge_inv
  by (simp add: pg_job_queue_def)

theorem job_table_invariant_witness:
  "pg_jobs_ok (snd (pg_fail 2 (lit ''v'') 1 (lit ''boom'') 5
     (sample_db\<lparr> faults := [Some (LostAfter)] \<rparr>)))"
  using job_table_invariant [of "sample_db\<lparr> faults := [Some (LostAfter)] \<rparr>"]
    sample_db_ok by simp

end
