(* ===== verification/Job_Worker.thy ===== *)
theory Job_Worker
  imports Job_Queue_Spec
begin

text \<open>
  The job worker, \<open>src/application/job/worker.rs\<close>, over any queue of the port: the retry
  delay, the execution of a handler under the lease heartbeat, one run of the worker and one
  maintenance cycle.

  The code is asynchronous.  What the runtime and the other clients contribute is an explicit
  input: a \<open>call\<close> says when the answer of an awaited queue call arrives (if ever), how late
  the task is polled, what other clients did to the queue before the call took effect, and
  whether a call without an answer took effect; a \<open>beat\<close> holds the inputs of one round of
  the heartbeat loop, and the list of beats is its fuel.  \<open>select!\<close> is \<open>biased\<close> in the
  sources: the branches are tried in their order at the instant the task is polled, and
  \<open>timeout_at\<close> tries its future before its deadline.
\<close>

section \<open>Configuration and handlers\<close>

datatype run_outcome = Idle | RunCompleted | RunRetryScheduled | RunDeadLettered

record job_worker_config =
  wc_worker_id :: rstring
  wc_lease_timeout :: duration
  wc_retry_base :: duration
  wc_retry_max :: duration
  wc_completed_retention :: duration
  wc_dead_retention :: duration

record job_worker =
  jw_handlers :: "rstring \<Rightarrow> job_handler option"
  jw_config :: job_worker_config

text \<open>\<open>collect\<close> into a \<open>HashMap\<close>: of two handlers for one type, the later one stays.\<close>

definition job_worker_new :: "job_handler list \<Rightarrow> job_worker_config \<Rightarrow> job_worker" where
  "job_worker_new handlers config =
     \<lparr> jw_handlers = map_of (rev (map (\<lambda>h. (jh_job_type h, h)) handlers)), jw_config = config \<rparr>"

text \<open>The handler future of \<open>execute_with_heartbeat\<close>: the value it resolves to.\<close>

definition handler_result :: "job_worker \<Rightarrow> claimed_job \<Rightarrow> job_handler_error + unit" where
  "handler_result W job =
     (case jw_handlers W (cj_job_type job) of
        Some handler \<Rightarrow> jh_handle handler job
      | None \<Rightarrow> Inl (JobHandlerError
          (lit ''no handler is registered for job type '' @ cj_job_type job)))"

section \<open>Retry delay\<close>

text \<open>\<open>Duration::MAX\<close>: \<open>u64::MAX\<close> seconds and 999,999,999 nanoseconds.\<close>

definition DURATION_MAX :: duration where
  "DURATION_MAX = 2 ^ 64 * 1000000000 - 1"

definition duration_saturating_mul :: "duration \<Rightarrow> u32 \<Rightarrow> duration" where
  "duration_saturating_mul d k = min (d * unat k) DURATION_MAX"

definition u32_saturating_sub :: "u32 \<Rightarrow> u32 \<Rightarrow> u32" where
  "u32_saturating_sub a b = (if a < b then 0 else a - b)"

definition retry_delay :: "duration \<Rightarrow> duration \<Rightarrow> u32 \<Rightarrow> duration" where
  "retry_delay base maximum attempt =
     (let exponent = min (u32_saturating_sub attempt 1) 31 in
      min (duration_saturating_mul base (push_bit (unat exponent) 1)) maximum)"

section \<open>Awaiting queue calls\<close>

record 'q call =
  cl_reply :: "duration option"
  cl_late :: duration
  cl_others :: "'q \<Rightarrow> 'q"
  cl_applied :: bool

record 'q beat =
  bt_late :: duration
  bt_select_late :: duration
  bt_renewal :: "'q call"

text \<open>The instant of the next poll: some event has happened, or the task comes back to itself.\<close>

fun earliest :: "instant option list \<Rightarrow> instant \<Rightarrow> instant" where
  "earliest [] deadline = deadline"
| "earliest (None # es) deadline = earliest es deadline"
| "earliest (Some e # es) deadline = min e (earliest es deadline)"

definition poll_at :: "instant \<Rightarrow> instant option list \<Rightarrow> instant \<Rightarrow> duration \<Rightarrow> instant" where
  "poll_at now events deadline late = max now (earliest events deadline) + late"

definition by_time :: "instant option \<Rightarrow> instant \<Rightarrow> bool" where
  "by_time event t = (case event of None \<Rightarrow> False | Some e \<Rightarrow> e \<le> t)"

definition reply_at :: "instant \<Rightarrow> 'q call \<Rightarrow> instant option" where
  "reply_at now cl = map_option (\<lambda>d. now + d) (cl_reply cl)"

definition call_effect :: "bool \<Rightarrow> 'q call \<Rightarrow> ('q, 'e, 'a) op \<Rightarrow> 'q \<Rightarrow> ('e + 'a) option \<times> 'q" where
  "call_effect answered cl m q =
     (let q1 = cl_others cl q; (r, q2) = m q1 in
      if answered then (Some r, q2) else (None, if cl_applied cl then q2 else q1))"

text \<open>\<open>timeout_at(deadline, call).await\<close>; \<open>None\<close> is \<open>Err(Elapsed)\<close>.\<close>

definition timeout_call :: "instant \<Rightarrow> instant \<Rightarrow> 'q call \<Rightarrow> ('q, 'e, 'a) op \<Rightarrow> 'q
    \<Rightarrow> ('e + 'a) option \<times> instant \<times> 'q" where
  "timeout_call deadline now cl m q =
     (let t = poll_at now [reply_at now cl] deadline (cl_late cl);
          (r, q') = call_effect (by_time (reply_at now cl) t) cl m q
      in (r, t, q'))"

section \<open>The heartbeat\<close>

record handler_run =
  hr_finish :: "instant option"
  hr_result :: "job_handler_error + unit"

record heartbeat =
  hb_now :: instant
  hb_deadline :: instant
  hb_next_renewal :: instant

definition renewal_interval :: "job_worker_config \<Rightarrow> duration" where
  "renewal_interval c = max (wc_lease_timeout c div 3) 1"

definition retry_interval :: "job_worker_config \<Rightarrow> duration" where
  "retry_interval c = max (renewal_interval c div 4) 1"

text \<open>
  The second \<open>select!\<close>: the renewal, with the handler polled meanwhile.  If the handler
  finishes first the renewal is awaited all the same; the flag says whether the handler's result
  was taken.
\<close>

definition select_renewal :: "'q beat \<Rightarrow> handler_run \<Rightarrow> instant \<Rightarrow> instant
    \<Rightarrow> ('q, job_queue_error, unit) op \<Rightarrow> 'q
    \<Rightarrow> (job_queue_error + unit) option \<times> bool \<times> instant \<times> 'q" where
  "select_renewal b h deadline now m q =
     (let cl = bt_renewal b; reply = reply_at now cl;
          t = poll_at now [reply, hr_finish h] deadline (bt_select_late b);
          renewal_ready = (by_time reply t \<or> deadline \<le> t);
          t' = (if renewal_ready then t else poll_at t [reply] deadline (cl_late cl));
          (r, q') = call_effect (by_time reply t') cl m q
      in (r, \<not> renewal_ready, t', q'))"

text \<open>
  The loop of \<open>execute_with_heartbeat\<close>.  The result is the value returned, the renewals sent
  (when each was started and its answer, in order), the instant of the return and the
  queue.  \<open>None\<close>: the beats ran out.
\<close>

type_synonym renewals = "(instant \<times> (job_queue_error + unit) option) list"

type_synonym 'q heartbeat_exit =
  "(job_queue_error + (job_handler_error + unit) \<times> instant) \<times> renewals \<times> instant \<times> 'q"

fun heartbeat_loop :: "'q job_queue \<Rightarrow> job_worker_config \<Rightarrow> claimed_job \<Rightarrow> handler_run
    \<Rightarrow> 'q beat list \<Rightarrow> heartbeat \<Rightarrow> renewals \<Rightarrow> 'q \<Rightarrow> 'q heartbeat_exit option" where
  "heartbeat_loop Q c job h [] s sent q = None"
| "heartbeat_loop Q c job h (b # bs) s sent q =
     (if hb_deadline s \<le> hb_now s then Some (Inl LeaseLost, sent, hb_now s, q)
      else
        let t = poll_at (hb_now s) [Some (hb_next_renewal s), hr_finish h] (hb_deadline s)
                  (bt_late b) in
        if \<not> hb_next_renewal s \<le> t then
          (if by_time (hr_finish h) t then Some (Inr (hr_result h, hb_deadline s), sent, t, q)
           else Some (Inl LeaseLost, sent, t, q))
        else if hb_deadline s \<le> t then Some (Inl LeaseLost, sent, t, q)
        else
          let (renewal, finished, t', q') = select_renewal b h (hb_deadline s) t
                (q_renew Q (cj_id job) (wc_worker_id c) (cj_attempts job)) q;
              sent' = sent @ [(t, renewal)];
              continue = (\<lambda>s'. if finished then Some (Inr (hr_result h, hb_deadline s'), sent', t', q')
                               else heartbeat_loop Q c job h bs s' sent' q')
          in (case renewal of
                Some (Inr u) \<Rightarrow>
                  continue \<lparr> hb_now = t', hb_deadline = t + wc_lease_timeout c,
                             hb_next_renewal = t + renewal_interval c \<rparr>
              | None \<Rightarrow> Some (Inl LeaseLost, sent', t', q')
              | Some (Inl LeaseLost) \<Rightarrow> Some (Inl LeaseLost, sent', t', q')
              | Some (Inl QueueUnavailable) \<Rightarrow>
                  continue \<lparr> hb_now = t', hb_deadline = hb_deadline s,
                             hb_next_renewal = t' + retry_interval c \<rparr>))"

definition execute_with_heartbeat :: "'q job_queue \<Rightarrow> job_worker \<Rightarrow> claimed_job \<Rightarrow> instant
    \<Rightarrow> instant \<Rightarrow> instant option \<Rightarrow> 'q beat list \<Rightarrow> 'q \<Rightarrow> 'q heartbeat_exit option" where
  "execute_with_heartbeat Q W job claimed_at now finish beats q =
     heartbeat_loop Q (jw_config W) job
       \<lparr> hr_finish = finish, hr_result = handler_result W job \<rparr> beats
       \<lparr> hb_now = now, hb_deadline = claimed_at + wc_lease_timeout (jw_config W),
         hb_next_renewal = claimed_at + renewal_interval (jw_config W) \<rparr> [] q"

section \<open>One run of the worker\<close>

record 'q run_env =
  re_claim_time :: duration
  re_finish :: "instant option"
  re_beats :: "'q beat list"
  re_terminal :: "'q call"

definition run_once :: "'q job_queue \<Rightarrow> job_worker \<Rightarrow> 'q run_env \<Rightarrow> instant \<Rightarrow> 'q
    \<Rightarrow> ((job_queue_error + run_outcome) \<times> 'q) option" where
  "run_once Q W env claimed_at q =
     (let c = jw_config W; worker_id = wc_worker_id c in
      case q_claim Q worker_id (wc_lease_timeout c) q of
        (Inl e, q1) \<Rightarrow> Some (Inl e, q1)
      | (Inr None, q1) \<Rightarrow> Some (Inr Idle, q1)
      | (Inr (Some job), q1) \<Rightarrow>
          (case execute_with_heartbeat Q W job claimed_at (claimed_at + re_claim_time env)
                  (re_finish env) (re_beats env) q1 of
             None \<Rightarrow> None
           | Some (Inl e, sent, t, q2) \<Rightarrow> Some (Inl e, q2)
           | Some (Inr (res, deadline), sent, t, q2) \<Rightarrow>
               if deadline \<le> t then Some (Inl LeaseLost, q2)
               else (case res of
                 Inr u \<Rightarrow>
                   (case timeout_call deadline t (re_terminal env)
                           (q_complete Q (cj_id job) worker_id (cj_attempts job)) q2 of
                      (None, _, q3) \<Rightarrow> Some (Inl LeaseLost, q3)
                    | (Some (Inl e), _, q3) \<Rightarrow> Some (Inl e, q3)
                    | (Some (Inr u), _, q3) \<Rightarrow> Some (Inr RunCompleted, q3))
               | Inl error \<Rightarrow>
                   (let delay = retry_delay (wc_retry_base c) (wc_retry_max c) (cj_attempts job);
                        message = handler_error_message error in
                    case timeout_call deadline t (re_terminal env)
                           (q_fail Q (cj_id job) worker_id (cj_attempts job) message delay) q2 of
                      (None, _, q3) \<Rightarrow> Some (Inl LeaseLost, q3)
                    | (Some (Inl e), _, q3) \<Rightarrow> Some (Inl e, q3)
                    | (Some (Inr RetryScheduledDisposition), _, q3) \<Rightarrow> Some (Inr RunRetryScheduled, q3)
                    | (Some (Inr DeadLetteredDisposition), _, q3) \<Rightarrow> Some (Inr RunDeadLettered, q3)))))"

section \<open>Maintenance\<close>

text \<open>\<open>others n\<close> is what other clients do to the queue before the call with \<open>n\<close> rounds left.\<close>

fun maintenance_rounds :: "'q job_queue \<Rightarrow> job_worker_config \<Rightarrow> (nat \<Rightarrow> 'q \<Rightarrow> 'q) \<Rightarrow> nat
    \<Rightarrow> nat \<Rightarrow> ('q, job_queue_error, nat) op" where
  "maintenance_rounds Q c others 0 purged_total q = (Inr purged_total, q)"
| "maintenance_rounds Q c others (Suc n) purged_total q =
     (case q_purge_terminal Q (wc_completed_retention c) (wc_dead_retention c) (others n q) of
        (Inl e, q') \<Rightarrow> (Inl e, q')
      | (Inr purged, q') \<Rightarrow>
          if purged < PURGE_BATCH_SIZE then (Inr (purged_total + purged), q')
          else maintenance_rounds Q c others n (purged_total + purged) q')"

definition run_maintenance :: "'q job_queue \<Rightarrow> job_worker_config \<Rightarrow> (nat \<Rightarrow> 'q \<Rightarrow> 'q)
    \<Rightarrow> ('q, job_queue_error, nat) op" where
  "run_maintenance Q c others = maintenance_rounds Q c others 16 0"

section \<open>A sample run\<close>

text \<open>
  A worker with one handler on the sample table: the job is claimed at 0, the handler finishes at 15
  under a lease of 20, after two renewals.
\<close>

definition sample_call :: "pg call" where
  "sample_call = \<lparr> cl_reply = Some 1, cl_late = 0, cl_others = (\<lambda>q. q), cl_applied = True \<rparr>"

definition sample_beat :: "pg beat" where
  "sample_beat = \<lparr> bt_late = 0, bt_select_late = 0, bt_renewal = sample_call \<rparr>"

definition sample_worker :: job_worker where
  "sample_worker = job_worker_new
     [\<lparr> jh_job_type = lit ''user.created'', jh_handle = (\<lambda>job. Inr ()) \<rparr>]
     \<lparr> wc_worker_id = lit ''w'', wc_lease_timeout = 20, wc_retry_base = 5, wc_retry_max = 300,
       wc_completed_retention = 20, wc_dead_retention = 50 \<rparr>"

definition sample_run :: "pg run_env" where
  "sample_run = \<lparr> re_claim_time = 2, re_finish = Some 15,
     re_beats = [sample_beat, sample_beat, sample_beat], re_terminal = sample_call \<rparr>"

lemmas worker_eval = sample_call_def sample_beat_def sample_worker_def sample_run_def
  job_worker_new_def run_once_def execute_with_heartbeat_def select_renewal_def call_effect_def
  timeout_call_def reply_at_def by_time_def poll_at_def renewal_interval_def retry_interval_def
  handler_result_def pg_job_queue_def

lemma sample_run_once:
  "run_once pg_job_queue sample_worker sample_run 0 sample_db =
     Some (Inr RunCompleted, snd (the (run_once pg_job_queue sample_worker sample_run 0 sample_db)))"
  by (simp add: worker_eval queue_eval)

lemma sample_maintenance:
  "run_maintenance pg_job_queue (jw_config sample_worker) (\<lambda>_ q. q) sample_db =
     (Inr 1, snd (run_maintenance pg_job_queue (jw_config sample_worker) (\<lambda>_ q. q) sample_db))"
  by (simp add: run_maintenance_def worker_eval queue_eval numeral_eq_Suc)

lemma sample_heartbeat:
  "execute_with_heartbeat pg_job_queue sample_worker sample_claimed_job 0 2 (Some 15)
     [sample_beat, sample_beat, sample_beat] (snd (pg_claim (lit ''w'') 20 sample_db)) =
   Some (Inr (Inr (), 32), [(6, Some (Inr ())), (12, Some (Inr ()))], 15, 
     (snd (snd (snd (the (execute_with_heartbeat pg_job_queue sample_worker sample_claimed_job 0 2 (Some 15)
     [sample_beat, sample_beat, sample_beat] (snd (pg_claim (lit ''w'') 20 sample_db))))))))"
  by (simp add: worker_eval queue_eval sample_claimed_job_def)

section \<open>The retry delay\<close>

lemma retry_delay_eq:
  "retry_delay base maximum attempt =
     min (min (base * 2 ^ min (unat attempt - 1) 31) DURATION_MAX) maximum"
proof -
  have sub: "unat (u32_saturating_sub attempt 1) = unat attempt - 1"
    by (cases "attempt = 0")
      (auto simp: u32_saturating_sub_def word_less_nat_alt unat_sub word_le_nat_alt)
  have "unat (min (u32_saturating_sub attempt 1) 31) = min (unat attempt - 1) 31"
    by (simp add: sub min_def word_le_nat_alt)
  moreover have "unat (push_bit n (1 :: u32)) = 2 ^ n" if "n \<le> 31" for n
  proof -
    have "(2 :: nat) ^ n < 2 ^ 32" using that by (intro power_strict_increasing) auto
    moreover have "push_bit n (1 :: u32) = of_nat (2 ^ n)" by simp
    ultimately show ?thesis by (simp only: unat_of_nat) simp
  qed
  ultimately show ?thesis
    by (simp add: retry_delay_def duration_saturating_mul_def)
qed

text \<open>
  The retry delay is a capped exponential backoff.  The first attempt waits the base delay,
  each further one twice as long up to a factor of 2 to the 31, no product overflows, the delay
  never exceeds the configured maximum and never shrinks from one attempt to the next.
\<close>

theorem retry_delay_backoff:
  assumes "base \<le> maximum" and "maximum \<le> DURATION_MAX"
  shows "retry_delay base maximum 1 = base \<and>
     retry_delay base maximum a = min (base * 2 ^ min (unat a - 1) 31) maximum \<and>
     base \<le> retry_delay base maximum a \<and> retry_delay base maximum a \<le> maximum \<and>
     (unat a \<le> unat b \<longrightarrow> retry_delay base maximum a \<le> retry_delay base maximum b)"
proof -
  have eq: "retry_delay base maximum a = min (base * 2 ^ min (unat a - 1) 31) maximum" for a
    using assms(2) by (simp add: retry_delay_eq min_def)
  have "base * 2 ^ min (unat a - 1) 31 \<le> base * 2 ^ min (unat b - 1) 31" if "unat a \<le> unat b"
    using that by (intro mult_left_mono power_increasing) auto
  then have "unat a \<le> unat b \<longrightarrow> retry_delay base maximum a \<le> retry_delay base maximum b"
    unfolding eq using min.mono [OF _ order_refl] by blast
  then show ?thesis using assms(1) eq [of 1] eq [of a] by simp
qed

theorem retry_delay_backoff_witness:
  "retry_delay 5 300 4 = 40 \<and> retry_delay 5 300 9 \<le> 300"
  using retry_delay_backoff [of 5 300 4 4] retry_delay_backoff [of 5 300 9 9]
  by (simp add: DURATION_MAX_def)

section \<open>Lemmas about awaiting\<close>

named_theorems await_simps \<open>when an awaited event has happened\<close>

lemma by_time_simps [await_simps]:
  "\<not> by_time None t" "by_time (Some e) t \<longleftrightarrow> e \<le> t"
  by (simp_all add: by_time_def)

lemma poll_at_now: "now \<le> poll_at now es d late"
  by (simp add: poll_at_def)

lemma earliest_happened:
  "earliest es d \<le> t \<Longrightarrow> d \<le> t \<or> (\<exists>e \<in> set es. by_time e t)"
proof (induction es d rule: earliest.induct)
  case (3 e es d)
  then show ?case by (cases "e \<le> earliest es d") (auto simp: await_simps min_def)
qed auto

lemma poll_at_happened: "d \<le> poll_at now es d late \<or> (\<exists>e \<in> set es. by_time e (poll_at now es d late))"
  by (rule earliest_happened) (simp add: poll_at_def)

lemma call_effect_answered:
  "call_effect a cl m q = (Some r, q') \<Longrightarrow> a \<and> m (cl_others cl q) = (r, q')"
  by (auto simp: call_effect_def Let_def split: prod.splits if_splits)

lemma select_renewal_answer:
  assumes "select_renewal b h d now m q = (r, finished, t, q')"
  shows "now \<le> t" and "finished \<Longrightarrow> by_time (hr_finish h) t"
    and "r = Some x \<Longrightarrow> m (cl_others (bt_renewal b) q) = (x, q')"
proof -
  let ?cl = "bt_renewal b"
  let ?p = "poll_at now [reply_at now ?cl, hr_finish h] d (bt_select_late b)"
  let ?p' = "poll_at ?p [reply_at now ?cl] d (cl_late ?cl)"
  have t: "t = (if finished then ?p' else ?p)"
    and f: "finished \<longleftrightarrow> \<not> (by_time (reply_at now ?cl) ?p \<or> d \<le> ?p)"
    and r: "call_effect (by_time (reply_at now ?cl) t) ?cl m q = (r, q')"
    using assms by (auto simp: select_renewal_def Let_def split: prod.splits if_splits)
  show "now \<le> t"
    using poll_at_now [of now "[reply_at now ?cl, hr_finish h]" d "bt_select_late b"]
      poll_at_now [of ?p "[reply_at now ?cl]" d "cl_late ?cl"] by (simp add: t)
  show "by_time (hr_finish h) t" if finished
  proof -
    from that f have "by_time (hr_finish h) ?p"
      using poll_at_happened [of d now "[reply_at now ?cl, hr_finish h]" "bt_select_late b"] by auto
    with that poll_at_now [of ?p "[reply_at now ?cl]" d "cl_late ?cl"] show ?thesis
      by (auto simp: t by_time_def split: option.splits)
  qed
  show "m (cl_others ?cl q) = (x, q')" if "r = Some x"
    using call_effect_answered [OF r [unfolded that]] by simp
qed

section \<open>What the heartbeat guarantees\<close>

text \<open>A beat in which the task is polled as soon as something it waits for has happened.\<close>

definition prompt :: "'q beat \<Rightarrow> bool" where
  "prompt b \<longleftrightarrow> bt_late b = 0 \<and> bt_select_late b = 0 \<and> cl_late (bt_renewal b) = 0"

lemma earliest_le: "earliest es d \<le> d"
  by (induction es d rule: earliest.induct) auto

lemma earliest_le_event: "Some e \<in> set es \<Longrightarrow> earliest es d \<le> e"
  by (induction es d rule: earliest.induct) auto

lemma poll_at_prompt: "poll_at now es d 0 \<le> max now d"
  using earliest_le [of es d] by (auto simp: poll_at_def)

lemma select_renewal_prompt:
  assumes "prompt b" and "select_renewal b h d now m q = (r, f, t, q')"
  shows "t \<le> max now d" and "\<not> f \<Longrightarrow> by_time (hr_finish h) now \<Longrightarrow> t = now"
proof -
  let ?es = "[reply_at now (bt_renewal b), hr_finish h]"
  let ?p = "poll_at now ?es d 0"
  have t: "t = (if f then poll_at ?p [reply_at now (bt_renewal b)] d 0 else ?p)"
    using assms by (auto simp: select_renewal_def prompt_def Let_def split: prod.splits if_splits)
  show "t \<le> max now d"
    using poll_at_prompt [of now ?es d] poll_at_prompt [of ?p "[reply_at now (bt_renewal b)]" d]
    by (auto simp: t)
  show "t = now" if "\<not> f" and h: "by_time (hr_finish h) now"
  proof -
    from h obtain e where "hr_finish h = Some e" "e \<le> now" by (auto simp: by_time_def split: option.splits)
    then have "earliest ?es d \<le> now" using earliest_le_event [of e ?es d] by simp
    with that(1) show ?thesis by (simp add: t poll_at_def)
  qed
qed

text \<open>One round of the loop: it gives up, returns the handler's result, or renews the lease.\<close>

lemma heartbeat_round:
  assumes "heartbeat_loop Q c job h (b # bs) s sent q = Some out"
  obtains (expired) t where "out = (Inl LeaseLost, sent, t, q)"
        and "prompt b \<Longrightarrow> t \<le> max (hb_now s) (hb_deadline s)"
    | (lost) t r t' q' where "out = (Inl LeaseLost, sent @ [(t, r)], t', q')" and "t < hb_deadline s"
        and "r \<noteq> Some (Inr ())" and "prompt b \<Longrightarrow> t' \<le> hb_deadline s"
    | (finished) t where "out = (Inr (hr_result h, hb_deadline s), sent, t, q)"
        and "by_time (hr_finish h) t" and "prompt b \<Longrightarrow> t \<le> max (hb_now s) (hb_deadline s)"
    | (renewed) t r f t' q' s' where "t < hb_deadline s" and "prompt b \<Longrightarrow> t' \<le> hb_deadline s"
        and "hb_now s \<le> t" and "hb_now s' = t'"
        and "select_renewal b h (hb_deadline s) t
               (q_renew Q (cj_id job) (wc_worker_id c) (cj_attempts job)) q = (Some r, f, t', q')"
        and "r = Inr () \<and> hb_deadline s' = t + wc_lease_timeout c \<or>
             r = Inl QueueUnavailable \<and> hb_deadline s' = hb_deadline s"
        and "if f then out = (Inr (hr_result h, hb_deadline s'), sent @ [(t, Some r)], t', q')
             else heartbeat_loop Q c job h bs s' (sent @ [(t, Some r)]) q' = Some out"
proof -
  let ?t = "poll_at (hb_now s) [Some (hb_next_renewal s), hr_finish h] (hb_deadline s) (bt_late b)"
  obtain r f t' q' where sel: "select_renewal b h (hb_deadline s) ?t
      (q_renew Q (cj_id job) (wc_worker_id c) (cj_attempts job)) q = (r, f, t', q')"
    by (metis prod_cases4)
  have now: "hb_now s \<le> ?t" by (rule poll_at_now)
  have late: "?t \<le> max (hb_now s) (hb_deadline s)" if "prompt b"
    using that poll_at_prompt by (simp add: prompt_def)
  have late': "t' \<le> hb_deadline s" if "prompt b" "?t < hb_deadline s"
    using select_renewal_prompt(1) [OF that(1) sel] that(2) by simp
  consider "hb_deadline s \<le> hb_now s" | "hb_now s < hb_deadline s" "\<not> hb_next_renewal s \<le> ?t"
    | "hb_now s < hb_deadline s" "hb_next_renewal s \<le> ?t" "hb_deadline s \<le> ?t"
    | "hb_now s < hb_deadline s" "hb_next_renewal s \<le> ?t" "?t < hb_deadline s" by linarith
  then show thesis
  proof cases
    case 4
    consider "r = None \<or> r = Some (Inl LeaseLost)" | "r = Some (Inr ())" | "r = Some (Inl QueueUnavailable)"
      by (cases r; cases "the r"; cases "projl (the r)") auto
    then show thesis
    proof cases
      case 1
      with 4 sel assms late' show thesis by (intro lost [where t = ?t and r = r and t' = t' and q' = q']) (auto simp: Let_def)
    next
      case 2
      with 4 sel assms late' now show thesis
        by (intro renewed [where t = ?t and r = "Inr ()" and f = f and t' = t' and q' = q' and s' = "\<lparr> hb_now = t',
            hb_deadline = ?t + wc_lease_timeout c, hb_next_renewal = ?t + renewal_interval c \<rparr>"])
          (auto simp: Let_def split: if_splits)
    next
      case 3
      with 4 sel assms late' now show thesis
        by (intro renewed [where t = ?t and r = "Inl QueueUnavailable" and f = f and t' = t' and q' = q' and s' = "\<lparr> hb_now = t',
            hb_deadline = hb_deadline s, hb_next_renewal = t' + retry_interval c \<rparr>"])
          (auto simp: Let_def split: if_splits)
    qed
  next
    case 1
    with assms show thesis by (intro expired [of "hb_now s"]) auto
  next
    case 2
    with assms late show thesis
      by (cases "by_time (hr_finish h) ?t") (auto simp: Let_def intro: expired finished)
  next
    case 3
    with assms late show thesis by (intro expired [of ?t]) (auto simp: Let_def)
  qed
qed

text \<open>
  \<open>within_lease l s rs\<close>: renewal after renewal, starting from a lease confirmed at \<open>s\<close>, each
  is sent before the lease confirmed last has run out; \<open>last_confirmed\<close> is its start.
\<close>

fun within_lease :: "duration \<Rightarrow> instant \<Rightarrow> renewals \<Rightarrow> bool" where
  "within_lease l s [] = True"
| "within_lease l s ((t, r) # rs) =
     (t < s + l \<and> within_lease l (if r = Some (Inr ()) then t else s) rs)"

fun last_confirmed :: "instant \<Rightarrow> renewals \<Rightarrow> instant" where
  "last_confirmed s [] = s"
| "last_confirmed s ((t, r) # rs) = last_confirmed (if r = Some (Inr ()) then t else s) rs"

lemma within_lease_snoc:
  "within_lease l s (rs @ [(t, r)]) \<longleftrightarrow> within_lease l s rs \<and> t < last_confirmed s rs + l"
  by (induction rs arbitrary: s) auto

lemma last_confirmed_snoc:
  "last_confirmed s (rs @ [(t, r)]) = (if r = Some (Inr ()) then t else last_confirmed s rs)"
  by (induction rs arbitrary: s) auto

definition survivable :: "renewals \<Rightarrow> bool" where
  "survivable rs \<longleftrightarrow> (\<forall>(t, r) \<in> set rs. r = Some (Inr ()) \<or> r = Some (Inl QueueUnavailable))"

lemma heartbeat_loop_sound:
  assumes "heartbeat_loop Q c job h bs s sent q = Some (out, sent', t', q')"
    and "hb_deadline s = last_confirmed c0 sent + wc_lease_timeout c"
    and "within_lease (wc_lease_timeout c) c0 sent" and "survivable sent"
  shows "within_lease (wc_lease_timeout c) c0 sent' \<and>
     (case out of
        Inl e \<Rightarrow> e = LeaseLost
      | Inr (res, deadline) \<Rightarrow> res = hr_result h \<and> by_time (hr_finish h) t' \<and> survivable sent' \<and>
          deadline = last_confirmed c0 sent' + wc_lease_timeout c)"
  using assms
proof (induction bs arbitrary: s sent q)
  case (Cons b bs)
  from Cons.prems(1) show ?case
  proof (cases rule: heartbeat_round)
    case (renewed t r f t'' q'' s')
    let ?sent = "sent @ [(t, Some r)]"
    have d: "hb_deadline s' = last_confirmed c0 ?sent + wc_lease_timeout c"
      using renewed(6) Cons.prems(2) by (auto simp: last_confirmed_snoc)
    have w: "within_lease (wc_lease_timeout c) c0 ?sent"
      using renewed(1) Cons.prems(2,3) by (simp add: within_lease_snoc)
    have v: "survivable ?sent"
      using renewed(6) Cons.prems(4) by (auto simp: survivable_def)
    show ?thesis
    proof (cases f)
      case True
      with renewed(7) d w v select_renewal_answer(2) [OF renewed(5)] show ?thesis by simp
    next
      case False
      with renewed(7) have "heartbeat_loop Q c job h bs s' ?sent q'' = Some (out, sent', t', q')"
        by simp
      from Cons.IH [OF this d w v] show ?thesis .
    qed
  qed (use Cons.prems in \<open>auto simp: within_lease_snoc\<close>)
qed simp

text \<open>
  C10. The heartbeat never overestimates the lease.  Every renewal is sent before the last confirmed
  lease has run out.  When the handler's result is returned, the handler has finished, no
  renewal was answered \<open>LeaseLost\<close> or left unanswered, and the deadline handed on is
  exactly the start of the last confirmed renewal (or of the claim) plus the lease timeout, whatever
  the latencies were.  Every other exit reports a lost lease.
\<close>

theorem heartbeat_tracks_lease:
  assumes "execute_with_heartbeat Q W job claimed_at now finish beats q = Some (out, sent, t, q')"
  shows "within_lease (wc_lease_timeout (jw_config W)) claimed_at sent \<and>
     (case out of
        Inl e \<Rightarrow> e = LeaseLost
      | Inr (res, deadline) \<Rightarrow> res = handler_result W job \<and> (\<exists>f. finish = Some f \<and> f \<le> t) \<and>
          survivable sent \<and>
          deadline = last_confirmed claimed_at sent + wc_lease_timeout (jw_config W))"
  using heartbeat_loop_sound [OF assms [unfolded execute_with_heartbeat_def], of claimed_at]
  by (auto simp: survivable_def by_time_def split: sum.splits option.splits)

theorem heartbeat_tracks_lease_witness:
  "(32 :: nat) = last_confirmed 0 [(6, Some (Inr ())), (12, Some (Inr ()))] + 20"
  using heartbeat_tracks_lease [OF sample_heartbeat]
  by (simp add: sample_worker_def job_worker_new_def)

lemma heartbeat_loop_in_time:
  assumes "heartbeat_loop Q c job h bs s sent q = Some (out, sent', t', q')"
    and "\<forall>b \<in> set bs. prompt b"
    and "hb_deadline s = last_confirmed c0 sent + wc_lease_timeout c"
    and "last_confirmed c0 sent \<le> hb_now s"
  shows "t' \<le> max (hb_now s) (last_confirmed c0 sent' + wc_lease_timeout c) \<and>
         last_confirmed c0 sent \<le> last_confirmed c0 sent'"
  using assms
proof (induction bs arbitrary: s sent q)
  case (Cons b bs)
  have b: "prompt b" using Cons.prems(2) by simp
  from Cons.prems(1) show ?case
  proof (cases rule: heartbeat_round)
    case (renewed t r f t'' q'' s')
    let ?sent = "sent @ [(t, Some r)]"
    have d: "hb_deadline s' = last_confirmed c0 ?sent + wc_lease_timeout c"
      using renewed(6) Cons.prems(3) by (auto simp: last_confirmed_snoc)
    have le: "last_confirmed c0 sent \<le> last_confirmed c0 ?sent"
      using Cons.prems(4) renewed(3) by (simp add: last_confirmed_snoc)
    have now: "hb_now s' \<le> last_confirmed c0 ?sent + wc_lease_timeout c"
      using renewed(2) [OF b] renewed(4) Cons.prems(3) le by simp
    show ?thesis
    proof (cases f)
      case True
      with renewed(4,7) now le show ?thesis by simp
    next
      case False
      with renewed(7) have 1: "heartbeat_loop Q c job h bs s' ?sent q'' = Some (out, sent', t', q')"
        by simp
      have 2: "last_confirmed c0 ?sent \<le> hb_now s'"
        using renewed(3,4) select_renewal_answer(1) [OF renewed(5)] Cons.prems(4)
        by (simp add: last_confirmed_snoc)
      have "\<forall>b \<in> set bs. prompt b" using Cons.prems(2) by simp
      from Cons.IH [OF 1 this d 2] now le show ?thesis by linarith
    qed
  qed (use Cons.prems(3) b in \<open>auto simp: last_confirmed_snoc\<close>)
qed simp

text \<open>
  The handler is cancelled in time.  If the task is polled when its timers fire, every exit
  from the heartbeat (where the handler's future is dropped) happens no later than the end of the
  last confirmed lease, unless that lease was over before the handler was started.
\<close>

theorem heartbeat_cancels_in_time:
  assumes "execute_with_heartbeat Q W job claimed_at now finish beats q = Some (out, sent, t, q')"
    and "\<forall>b \<in> set beats. prompt b" and "claimed_at \<le> now"
  shows "t \<le> max now (last_confirmed claimed_at sent + wc_lease_timeout (jw_config W))"
  using heartbeat_loop_in_time [OF assms(1) [unfolded execute_with_heartbeat_def] assms(2),
      of claimed_at] assms(3) by simp

theorem heartbeat_cancels_in_time_witness:
  "(15 :: nat) \<le> max 2 (last_confirmed 0 [(6, Some (Inr ())), (12, Some (Inr ()))] + 20)"
  using heartbeat_cancels_in_time [OF sample_heartbeat]
  by (simp add: prompt_def sample_beat_def sample_call_def sample_worker_def job_worker_new_def)

section \<open>The heartbeat ends\<close>

lemma heartbeat_stuck:
  assumes "heartbeat_loop Q c job h (b # bs) s sent q = None"
  obtains t r t' q' s' where
      "t = poll_at (hb_now s) [Some (hb_next_renewal s), hr_finish h] (hb_deadline s) (bt_late b)"
    and "hb_next_renewal s \<le> t" and "t < hb_deadline s" and "hb_now s' = t'"
    and "select_renewal b h (hb_deadline s) t
           (q_renew Q (cj_id job) (wc_worker_id c) (cj_attempts job)) q = (Some r, False, t', q')"
    and "r = Inr () \<and> hb_next_renewal s' = t + renewal_interval c \<or>
         r = Inl QueueUnavailable \<and> hb_next_renewal s' = t' + retry_interval c \<and>
           hb_deadline s' = hb_deadline s"
    and "heartbeat_loop Q c job h bs s' (sent @ [(t, Some r)]) q' = None"
proof -
  let ?t = "poll_at (hb_now s) [Some (hb_next_renewal s), hr_finish h] (hb_deadline s) (bt_late b)"
  obtain r f t' q' where sel: "select_renewal b h (hb_deadline s) ?t
      (q_renew Q (cj_id job) (wc_worker_id c) (cj_attempts job)) q = (r, f, t', q')"
    by (metis prod_cases4)
  have t: "hb_now s < hb_deadline s" "hb_next_renewal s \<le> ?t" "?t < hb_deadline s"
    using assms by (auto simp: Let_def split: if_splits)
  consider "r = None \<or> r = Some (Inl LeaseLost)" | "r = Some (Inr ())" | "r = Some (Inl QueueUnavailable)"
    by (cases r; cases "the r"; cases "projl (the r)") auto
  then show thesis
  proof cases
    case 1
    with t sel assms show thesis by (auto simp: Let_def)
  next
    case 2
    with t sel assms show thesis
      by (intro that [where t = ?t and r = "Inr ()" and t' = t' and q' = q' and s' = "\<lparr> hb_now = t',
          hb_deadline = ?t + wc_lease_timeout c, hb_next_renewal = ?t + renewal_interval c \<rparr>"])
        (auto simp: Let_def split: if_splits)
  next
    case 3
    with t sel assms show thesis
      by (intro that [where t = ?t and r = "Inl QueueUnavailable" and t' = t' and q' = q' and s' = "\<lparr> hb_now = t',
          hb_deadline = hb_deadline s, hb_next_renewal = t' + retry_interval c \<rparr>"])
        (auto simp: Let_def split: if_splits)
  qed
qed

lemma intervals_positive: "1 \<le> renewal_interval c" "1 \<le> retry_interval c"
  by (simp_all add: renewal_interval_def retry_interval_def)

text \<open>How many more beats a handler that is ready at \<open>f\<close> can take.\<close>

definition beats_needed :: "instant \<Rightarrow> heartbeat \<Rightarrow> nat" where
  "beats_needed f s =
     (if hb_next_renewal s \<le> f then f - hb_next_renewal s + 3
      else if hb_next_renewal s \<le> hb_now s then 2 else 1)"

lemma heartbeat_loop_returns:
  assumes "hr_finish h = Some f" and "\<forall>b \<in> set bs. prompt b" and "beats_needed f s \<le> length bs"
  shows "heartbeat_loop Q c job h bs s sent q \<noteq> None"
  using assms(2,3)
proof (induction bs arbitrary: s sent q)
  case Nil
  then show ?case by (simp add: beats_needed_def split: if_splits)
next
  case (Cons b bs)
  have b: "prompt b" using Cons.prems(1) by simp
  show ?case
  proof
    assume "heartbeat_loop Q c job h (b # bs) s sent q = None"
    then show False
    proof (cases rule: heartbeat_stuck)
      case (1 t r t' q' s')
      have late: "bt_late b = 0" using b by (simp add: prompt_def)
      have t: "t = max (hb_now s) (min (hb_next_renewal s) (min f (hb_deadline s)))"
        using 1(1) assms(1) late by (simp add: poll_at_def)
      have grow: "t < hb_next_renewal s'"
        using 1(6) intervals_positive [of c] select_renewal_answer(1) [OF 1(5)] by auto
      have same: "hb_now s' < hb_next_renewal s'" if "f \<le> t"
        using 1(4,6) grow intervals_positive [of c] select_renewal_prompt(2) [OF b 1(5)] that assms(1)
        by (auto simp: await_simps)
      have over: "hb_next_renewal s \<le> hb_now s \<and> f \<le> t" if "f < hb_next_renewal s"
        using that 1(2) by (auto simp: t max_def min_def split: if_splits)
      have "beats_needed f s' < beats_needed f s"
      proof (cases "hb_next_renewal s \<le> f")
        case True
        with 1(2) grow show ?thesis by (auto simp: beats_needed_def)
      next
        case False
        with over same grow show ?thesis by (auto simp: beats_needed_def)
      qed
      with Cons.prems(2) have "beats_needed f s' \<le> length bs" by simp
      with Cons.IH [of s' "sent @ [(t, Some r)]" q'] Cons.prems(1) 1(7) show False by simp
    qed
  qed
qed

text \<open>
  A handler that finishes ends the heartbeat.  If the handler's result is ready at some instant,
  and the task is polled when its timers fire, the loop returns: a number of rounds linear in the time
  left is enough, whatever the queue answers and however long it takes.
\<close>

theorem heartbeat_terminates:
  assumes "\<forall>b \<in> set beats. prompt b" and "f - claimed_at + 3 \<le> length beats"
  shows "\<exists>out sent t q'.
     execute_with_heartbeat Q W job claimed_at now (Some f) beats q = Some (out, sent, t, q')"
proof -
  let ?s = "\<lparr> hb_now = now, hb_deadline = claimed_at + wc_lease_timeout (jw_config W),
         hb_next_renewal = claimed_at + renewal_interval (jw_config W) \<rparr>"
  have "beats_needed f ?s \<le> length beats"
    using assms(2) by (auto simp: beats_needed_def)
  from heartbeat_loop_returns [OF _ assms(1) this] show ?thesis
    unfolding execute_with_heartbeat_def by (metis handler_run.select_convs(1) not_None_eq prod_cases4)
qed

theorem heartbeat_terminates_witness:
  "\<exists>out sent t q'. execute_with_heartbeat pg_job_queue sample_worker sample_claimed_job 0 2 (Some 15)
     (replicate 18 sample_beat) sample_db = Some (out, sent, t, q')"
  by (rule heartbeat_terminates) (simp_all add: prompt_def sample_beat_def sample_call_def)

text \<open>A queue whose renewals never succeed: the worker is cut off from the database.\<close>

lemma heartbeat_loop_cut_off:
  assumes "\<And>q'. fst (q_renew Q (cj_id job) (wc_worker_id c) (cj_attempts job) q') \<noteq> Inr ()"
    and "hb_deadline s - hb_next_renewal s < length bs"
  shows "heartbeat_loop Q c job h bs s sent q \<noteq> None"
  using assms(2)
proof (induction bs arbitrary: s sent q)
  case (Cons b bs)
  show ?case
  proof
    assume "heartbeat_loop Q c job h (b # bs) s sent q = None"
    then show False
    proof (cases rule: heartbeat_stuck)
      case (1 t r t' q' s')
      have "fst (q_renew Q (cj_id job) (wc_worker_id c) (cj_attempts job) (cl_others (bt_renewal b) q)) = r"
        using select_renewal_answer(3) [OF 1(5)] by simp
      with assms(1) 1(6) have s': "hb_next_renewal s' = t' + retry_interval c"
        "hb_deadline s' = hb_deadline s" by auto
      have "hb_next_renewal s < hb_next_renewal s'"
        using 1(2) select_renewal_answer(1) [OF 1(5)] s'(1) intervals_positive(2) [of c] by linarith
      with s' 1(2,3) Cons.prems have "hb_deadline s' - hb_next_renewal s' < length bs" by simp
      with Cons.IH [OF this, of "sent @ [(t, Some r)]" q'] 1(7) show False by simp
    qed
  qed
qed simp

lemma heartbeat_loop_unconfirmed:
  assumes "\<And>q'. fst (q_renew Q (cj_id job) (wc_worker_id c) (cj_attempts job) q') \<noteq> Inr ()"
    and "heartbeat_loop Q c job h bs s sent q = Some (out, sent', t', q')"
  shows "last_confirmed c0 sent' = last_confirmed c0 sent"
  using assms(2)
proof (induction bs arbitrary: s sent q)
  case (Cons b bs)
  from Cons.prems show ?case
  proof (cases rule: heartbeat_round)
    case (renewed t r f t'' q'' s')
    have "fst (q_renew Q (cj_id job) (wc_worker_id c) (cj_attempts job) (cl_others (bt_renewal b) q)) = r"
      using select_renewal_answer(3) [OF renewed(5)] by simp
    with assms(1) have "r \<noteq> Inr ()" by auto
    with renewed(7) Cons.IH [of s' "sent @ [(t, Some r)]" q''] show ?thesis
      by (cases f) (auto simp: last_confirmed_snoc)
  qed (auto simp: last_confirmed_snoc)
qed simp

text \<open>
  A worker cut off from the database stops.  If no renewal can succeed, the heartbeat ends even
  when the handler would run forever: within the rounds that fit into one lease it either reports
  \<open>LeaseLost\<close> or returns a handler result that came before the deadline fixed at the claim.
\<close>

theorem cut_off_worker_stops:
  assumes "\<And>q'. fst (q_renew Q (cj_id job) (wc_worker_id (jw_config W)) (cj_attempts job) q') \<noteq> Inr ()"
    and "wc_lease_timeout (jw_config W) < length beats"
  shows "\<exists>out sent t q'. execute_with_heartbeat Q W job claimed_at now finish beats q =
       Some (out, sent, t, q') \<and>
     (out = Inl LeaseLost \<or>
      out = Inr (handler_result W job, claimed_at + wc_lease_timeout (jw_config W)))"
proof -
  let ?s = "\<lparr> hb_now = now, hb_deadline = claimed_at + wc_lease_timeout (jw_config W),
         hb_next_renewal = claimed_at + renewal_interval (jw_config W) \<rparr>"
  let ?h = "\<lparr> hr_finish = finish, hr_result = handler_result W job \<rparr>"
  have "hb_deadline ?s - hb_next_renewal ?s < length beats" using assms(2) by simp
  from heartbeat_loop_cut_off [OF assms(1) this, of ?h "[]" q] obtain out sent t q' where
    run: "heartbeat_loop Q (jw_config W) job ?h beats ?s [] q = Some (out, sent, t, q')"
    by (metis not_None_eq prod_cases4)
  have "last_confirmed claimed_at sent = claimed_at"
    using heartbeat_loop_unconfirmed [OF assms(1) run] by simp
  with heartbeat_loop_sound [OF run, of claimed_at] run show ?thesis
    by (auto simp: execute_with_heartbeat_def survivable_def split: sum.splits)
qed

theorem cut_off_worker_stops_witness:
  "\<exists>out sent t q'. execute_with_heartbeat
     (pg_job_queue\<lparr> q_renew := \<lambda>i w a db. (Inl QueueUnavailable, db) \<rparr>)
     sample_worker sample_claimed_job 0 2 None (replicate 21 sample_beat) sample_db = Some (out, sent, t, q')"
  using cut_off_worker_stops [of "pg_job_queue\<lparr> q_renew := \<lambda>i w a db. (Inl QueueUnavailable, db) \<rparr>"
      sample_claimed_job sample_worker "replicate 21 sample_beat" 0 2 None sample_db]
  by (force simp: sample_worker_def job_worker_new_def)

section \<open>One run of the worker\<close>

lemma call_effect_keeps:
  assumes "op_keeps P m" and "\<And>x. P x \<Longrightarrow> P (cl_others cl x)" and "P q"
  shows "P (snd (call_effect a cl m q))"
  using assms op_keepsD [OF assms(1) assms(2) [OF assms(3)]]
  by (auto simp: call_effect_def Let_def split: prod.splits)

lemma select_renewal_keeps:
  assumes "op_keeps P m" and "\<And>x. P x \<Longrightarrow> P (cl_others (bt_renewal b) x)" and "P q"
    and "select_renewal b h d now m q = (r, f, t, q')"
  shows "P q'"
proof -
  obtain a where "call_effect a (bt_renewal b) m q = (r, q')"
    using assms(4) by (auto simp: select_renewal_def Let_def split: prod.splits)
  with call_effect_keeps [OF assms(1-3), of a] show ?thesis by simp
qed

lemma heartbeat_loop_keeps:
  assumes "op_keeps P (q_renew Q (cj_id job) (wc_worker_id c) (cj_attempts job))"
    and "\<And>b x. b \<in> set bs \<Longrightarrow> P x \<Longrightarrow> P (cl_others (bt_renewal b) x)" and "P q"
    and "heartbeat_loop Q c job h bs s sent q = Some (out, sent', t', q')"
  shows "P q'"
  using assms(2-4)
proof (induction bs arbitrary: s sent q)
  case (Cons b bs)
  let ?t = "poll_at (hb_now s) [Some (hb_next_renewal s), hr_finish h] (hb_deadline s) (bt_late b)"
  obtain r f t1 q1 where sel: "select_renewal b h (hb_deadline s) ?t
      (q_renew Q (cj_id job) (wc_worker_id c) (cj_attempts job)) q = (r, f, t1, q1)"
    by (metis prod_cases4)
  have q1: "P q1"
    using select_renewal_keeps [OF assms(1) _ Cons.prems(2) sel] Cons.prems(1) by simp
  have IH: "heartbeat_loop Q c job h bs s1 sent1 q1 = Some (out, sent', t', q') \<Longrightarrow> P q'" for s1 sent1
    using Cons.IH [OF _ q1] Cons.prems(1) by simp
  show ?case
    using Cons.prems(2,3) q1 IH sel
    by (auto simp: Let_def split: if_splits option.splits sum.splits job_queue_error.splits)
qed simp

lemma timeout_call_answer:
  assumes "timeout_call d now cl m q = (r, t, q')"
  shows "r = Some x \<Longrightarrow> m (cl_others cl q) = (x, q')"
  using assms call_effect_answered [of _ cl m q x q']
  by (auto simp: timeout_call_def Let_def split: prod.splits)

text \<open>The other clients of the queue use it through the port too: they keep its invariant.\<close>

definition env_keeps :: "('q \<Rightarrow> bool) \<Rightarrow> 'q run_env \<Rightarrow> bool" where
  "env_keeps P env \<longleftrightarrow> (\<forall>q. P q \<longrightarrow> P (cl_others (re_terminal env) q)) \<and>
     (\<forall>b \<in> set (re_beats env). \<forall>q. P q \<longrightarrow> P (cl_others (bt_renewal b) q))"

text \<open>The terminal write behind each outcome of \<open>run_once\<close> that has one.\<close>

definition terminal_write :: "'q job_queue \<Rightarrow> job_worker \<Rightarrow> claimed_job \<Rightarrow> run_outcome
    \<Rightarrow> 'q \<Rightarrow> 'q \<Rightarrow> bool" where
  "terminal_write Q W job outcome q q' =
     (let c = jw_config W in
      case handler_result W job of
        Inr u \<Rightarrow> outcome = RunCompleted \<and>
          q_complete Q (cj_id job) (wc_worker_id c) (cj_attempts job) q = (Inr (), q')
      | Inl error \<Rightarrow> \<exists>d. q_fail Q (cj_id job) (wc_worker_id c) (cj_attempts job)
            (handler_error_message error)
            (retry_delay (wc_retry_base c) (wc_retry_max c) (cj_attempts job)) q = (Inr d, q') \<and>
          outcome = (case d of RetryScheduledDisposition \<Rightarrow> RunRetryScheduled
                             | DeadLetteredDisposition \<Rightarrow> RunDeadLettered))"

lemma run_once_Ok:
  assumes "run_once Q W env claimed_at q = Some (Inr outcome, q')"
  obtains (idle) "outcome = Idle"
      and "q_claim Q (wc_worker_id (jw_config W)) (wc_lease_timeout (jw_config W)) q = (Inr None, q')"
    | (ran) job q1 sent t q2 deadline where
      "q_claim Q (wc_worker_id (jw_config W)) (wc_lease_timeout (jw_config W)) q = (Inr (Some job), q1)"
      and "execute_with_heartbeat Q W job claimed_at (claimed_at + re_claim_time env)
             (re_finish env) (re_beats env) q1 = Some (Inr (handler_result W job, deadline), sent, t, q2)"
      and "t < deadline" and "terminal_write Q W job outcome (cl_others (re_terminal env) q2) q'"
proof -
  let ?c = "jw_config W"
  obtain r q1 where claim: "q_claim Q (wc_worker_id ?c) (wc_lease_timeout ?c) q = (r, q1)" by fastforce
  show thesis
  proof (cases r)
    case (Inl e)
    with assms claim show thesis by (simp add: run_once_def Let_def)
  next
    case (Inr found)
    show thesis
    proof (cases found)
      case None
      with Inr assms claim show thesis by (intro idle) (simp_all add: run_once_def Let_def)
    next
      case (Some job)
      from assms claim Inr Some obtain res deadline sent t q2 where
        run: "execute_with_heartbeat Q W job claimed_at (claimed_at + re_claim_time env)
             (re_finish env) (re_beats env) q1 = Some (Inr (res, deadline), sent, t, q2)"
        and t: "t < deadline"
        by (auto simp: run_once_def Let_def split: option.splits sum.splits if_splits)
      have res: "res = handler_result W job"
        using heartbeat_loop_sound [OF run [unfolded execute_with_heartbeat_def], of claimed_at]
        by (simp add: survivable_def)
      have "terminal_write Q W job outcome (cl_others (re_terminal env) q2) q'"
        using assms claim Inr Some run t res
        by (auto simp: run_once_def terminal_write_def Let_def dest: timeout_call_answer
              split: option.splits sum.splits if_splits prod.splits job_disposition.splits)
      with claim Inr Some run t res show thesis by (intro ran) auto
    qed
  qed
qed

context job_queue_contract
begin

lemma op_keeps_renew: "op_keeps inv (q_renew Q i w a)"
  by (intro op_keepsI renew_inv)

text \<open>Whoever reports an outcome other than \<open>Idle\<close> held the lease when the outcome was written.\<close>

lemma run_once_owned:
  assumes "inv q" and "env_keeps inv env"
    and "run_once Q W env claimed_at q = Some (Inr outcome, q')" and "outcome \<noteq> Idle"
  shows "\<exists>job q1 q2. q_claim Q (wc_worker_id (jw_config W)) (wc_lease_timeout (jw_config W)) q =
             (Inr (Some job), q1) \<and>
           terminal_write Q W job outcome q2 q' \<and>
           owned q2 (cj_id job) (wc_worker_id (jw_config W)) (cj_attempts job) \<and>
           (\<forall>v b. \<not> owned q' (cj_id job) v b)"
  using assms(3)
proof (cases rule: run_once_Ok)
  case (ran job q1 sent t q2 deadline)
  have q1: "inv q1" using claim_inv [OF assms(1)] ran(1) by (metis snd_conv)
  have "inv q2"
    using heartbeat_loop_keeps [OF op_keeps_renew _ q1 ran(2) [unfolded execute_with_heartbeat_def]]
      assms(2) by (simp add: env_keeps_def)
  with assms(2) have inv: "inv (cl_others (re_terminal env) q2)" by (simp add: env_keeps_def)
  have "owned (cl_others (re_terminal env) q2) (cj_id job) (wc_worker_id (jw_config W)) (cj_attempts job) \<and>
      (\<forall>v b. \<not> owned q' (cj_id job) v b)"
    using ran(4) complete_owned [OF inv] fail_owned [OF inv]
    by (auto simp: terminal_write_def Let_def split: sum.splits)
  with ran show ?thesis by blast
qed (use assms(4) in simp)

text \<open>A maintenance cycle on a queue nobody else touches.\<close>

lemma maintenance_rounds_bound:
  assumes "inv q" and "maintenance_rounds Q c (\<lambda>_ q. q) n k q = (Inr m, q')"
  shows "inv q' \<and> stored q + k = stored q' + m \<and> m \<le> k + n * PURGE_BATCH_SIZE \<and>
     (m < k + n * PURGE_BATCH_SIZE \<longrightarrow> (\<exists>q1 purged. purged < PURGE_BATCH_SIZE \<and> inv q1 \<and>
        q_purge_terminal Q (wc_completed_retention c) (wc_dead_retention c) q1 = (Inr purged, q')))"
  using assms
proof (induction n arbitrary: k q)
  case (Suc n)
  obtain r q1 where purge: "q_purge_terminal Q (wc_completed_retention c) (wc_dead_retention c) q = (r, q1)"
    by fastforce
  have q1: "inv q1" using purge_inv [OF Suc.prems(1)] purge by (metis snd_conv)
  show ?case
  proof (cases r)
    case (Inr purged)
    note bound = purge_bound [OF Suc.prems(1) purge [unfolded Inr]]
    show ?thesis
    proof (cases "purged < PURGE_BATCH_SIZE")
      case True
      with Suc.prems purge Inr bound q1 show ?thesis by auto
    next
      case False
      with Suc.prems(2) purge Inr have "maintenance_rounds Q c (\<lambda>_ q. q) n (k + purged) q1 = (Inr m, q')"
        by simp
      from Suc.IH [OF q1 this] bound False show ?thesis by auto
    qed
  qed (use Suc.prems purge in simp)
qed simp

end

section \<open>The worker on the PostgreSQL queue\<close>

text \<open>
  C11. A run reports only what it owned.  When \<open>run_once\<close> on the PostgreSQL queue reports that a
  job completed, was scheduled again or was dead-lettered, it had claimed that job; at the moment of
  the terminal write this worker still held the claimed attempt; the write matches the handler's
  result (for a failure: its message and the computed delay); and nobody holds the job afterwards.
  This holds for any latencies, faults and interleaved calls of other workers.
\<close>

theorem run_once_outcome_owned:
  assumes "pg_jobs_ok db" and "env_keeps pg_jobs_ok env"
    and "run_once pg_job_queue W env claimed_at db = Some (Inr outcome, db')" and "outcome \<noteq> Idle"
  shows "\<exists>job db1 db2.
     pg_claim (wc_worker_id (jw_config W)) (wc_lease_timeout (jw_config W)) db = (Inr (Some job), db1) \<and>
     terminal_write pg_job_queue W job outcome db2 db' \<and>
     leased db2 (cj_id job) (wc_worker_id (jw_config W)) (cj_attempts job) \<and>
     (\<forall>v b. \<not> leased db' (cj_id job) v b)"
  using pgq.run_once_owned [OF assms] by (simp add: pg_job_queue_def)

theorem run_once_outcome_owned_witness:
  "\<exists>db2. terminal_write pg_job_queue sample_worker sample_claimed_job RunCompleted db2
       (snd (the (run_once pg_job_queue sample_worker sample_run 0 sample_db))) \<and>
     leased db2 1 (lit ''w'') 1"
proof -
  have env: "env_keeps pg_jobs_ok sample_run"
    by (simp add: env_keeps_def sample_run_def sample_beat_def sample_call_def)
  show ?thesis
    using run_once_outcome_owned [OF sample_db_ok env sample_run_once] sample_claim
    by (auto simp: sample_worker_def job_worker_new_def sample_claimed_job_def)
qed

text \<open>
  Maintenance is bounded and drains.  A cycle deletes at most 16 batches of 1000 rows and its
  result is the number of rows gone; when it is less than that maximum, the last purge left no
  expired terminal row behind except rows locked by other transactions.
\<close>

theorem maintenance_bounded_and_drains:
  assumes "pg_jobs_ok db" and "run_maintenance pg_job_queue c (\<lambda>_ q. q) db = (Inr m, db')"
  shows "m \<le> 16000 \<and> length (jobs db) = length (jobs db') + m \<and> pg_jobs_ok db' \<and>
     (m < 16000 \<longrightarrow> (\<forall>r \<in> set (jobs db').
        purgeable (int (wc_completed_retention c)) (int (wc_dead_retention c)) (pg_now db') r \<longrightarrow>
          locked_elsewhere db' r))"
proof -
  from pgq.maintenance_rounds_bound [OF assms(1) assms(2) [unfolded run_maintenance_def]]
  have b: "pg_jobs_ok db'" "length (jobs db) = length (jobs db') + m" "m \<le> 16 * PURGE_BATCH_SIZE"
    and last: "m < 16 * PURGE_BATCH_SIZE \<longrightarrow> (\<exists>q1 purged. purged < PURGE_BATCH_SIZE \<and> pg_jobs_ok q1 \<and>
        pg_purge_terminal (wc_completed_retention c) (wc_dead_retention c) q1 = (Inr purged, db'))"
    by (auto simp: pg_job_queue_def)
  from last have "m < 16000 \<longrightarrow> (\<forall>r \<in> set (jobs db').
        purgeable (int (wc_completed_retention c)) (int (wc_dead_retention c)) (pg_now db') r \<longrightarrow>
          locked_elsewhere db' r)"
    using purge_drained by (fastforce simp: PURGE_BATCH_SIZE_def)
  with b show ?thesis by (simp add: PURGE_BATCH_SIZE_def)
qed

theorem maintenance_bounded_and_drains_witness:
  "length (jobs sample_db) =
     length (jobs (snd (run_maintenance pg_job_queue (jw_config sample_worker) (\<lambda>_ q. q) sample_db))) + 1"
  using maintenance_bounded_and_drains [OF sample_db_ok sample_maintenance] by blast

end
