(* ===== verification/Job_System.thy ===== *)
theory Job_System
  imports Job_Worker
begin

text \<open>
  Several workers on one job table.  The state of the system is the database, what each worker
  believes about its attempts, and the messages between them; a step executes one statement of the
  PostgreSQL queue, delivers or loses a message, lets a worker act as \<open>run_once\<close> and
  \<open>execute_with_heartbeat\<close> do, or lets time pass.  All workers are configured with the
  same lease timeout \<open>L\<close>.  The clock of the database and the clocks of the workers run at the same
  rate, and a statement takes effect at its \<open>NOW()\<close>; identifiers of new jobs are fresh
  (\<open>Uuid::new_v4\<close>).
\<close>

section \<open>The system\<close>

text \<open>
  Requests carry the instant they were sent, as the worker measures its lease from there.  A
  request for a claim, a renewal or a terminal write may be executed long after it was sent.
\<close>

datatype message =
    AskClaim rstring timestamp
  | Claimed rstring uuid u32 timestamp
  | AskRenew rstring uuid u32 timestamp
  | Renewed rstring uuid u32 timestamp
  | AskComplete rstring uuid u32
  | AskFail rstring uuid u32 rstring duration

type_synonym attempt = "uuid \<times> rstring \<times> u32"

text \<open>
  \<open>belief\<close> maps each attempt whose handler is running to the deadline its worker believes in.
  \<open>used\<close> (the identifiers of all jobs so far) and \<open>started\<close> (how often each job was
  handed out) record history.
\<close>

record system =
  sdb :: pg
  belief :: "attempt \<Rightarrow> timestamp option"
  net :: "message set"
  used :: "uuid set"
  started :: "uuid \<Rightarrow> nat"

abbreviation now :: "system \<Rightarrow> timestamp" where
  "now s \<equiv> pg_now (sdb s)"

inductive sys_step :: "duration \<Rightarrow> system \<Rightarrow> system \<Rightarrow> bool" for L :: duration where
  tick: "sys_step L s (s\<lparr> sdb := (sdb s)\<lparr> pg_now := now s + int d \<rparr> \<rparr>)"
| locks: "sys_step L s (s\<lparr> sdb := (sdb s)\<lparr> row_locks := ls \<rparr> \<rparr>)"
| enqueue: "validate_max_attempts (nj_max_attempts j) = Some m \<Longrightarrow> nj_id j \<notin> used s \<Longrightarrow>
    insert_job j m (sdb s) = (Inr (), db) \<Longrightarrow>
    sys_step L s (s\<lparr> sdb := db, used := insert (nj_id j) (used s) \<rparr>)"
| reap: "reap_stmt (int L) (sdb s) = (res, db) \<Longrightarrow> sys_step L s (s\<lparr> sdb := db \<rparr>)"
| purge: "purge_stmt c d (sdb s) = (res, db) \<Longrightarrow> sys_step L s (s\<lparr> sdb := db \<rparr>)"
| send_claim: "sys_step L s (s\<lparr> net := insert (AskClaim w (now s)) (net s) \<rparr>)"
| serve_claim: "AskClaim w t \<in> net s \<Longrightarrow> take_stmt w (sdb s) = (Inr (Some row), db) \<Longrightarrow>
    into_application row = Inr j \<Longrightarrow>
    sys_step L s (s\<lparr> sdb := db,
      net := insert (Claimed w (cj_id j) (cj_attempts j) t) (net s - {AskClaim w t}),
      started := (started s)(cj_id j := started s (cj_id j) + 1) \<rparr>)"
| recv_claim: "Claimed w i a t \<in> net s \<Longrightarrow>
    sys_step L s (s\<lparr> belief := (belief s)((i, w, a) \<mapsto> t + int L),
      net := net s - {Claimed w i a t} \<rparr>)"
| send_renew: "belief s (i, w, a) = Some d \<Longrightarrow> now s < d \<Longrightarrow>
    sys_step L s (s\<lparr> net := insert (AskRenew w i a (now s)) (net s) \<rparr>)"
| serve_renew: "AskRenew w i a t \<in> net s \<Longrightarrow> renew_stmt i w a (sdb s) = (Inr n, db) \<Longrightarrow>
    sys_step L s (s\<lparr> sdb := db,
      net := (if is_ok (ensure_lease n) then insert (Renewed w i a t) else id)
               (net s - {AskRenew w i a t}) \<rparr>)"
| recv_renew: "Renewed w i a t \<in> net s \<Longrightarrow> belief s (i, w, a) = Some d \<Longrightarrow>
    sys_step L s (s\<lparr> belief := (belief s)((i, w, a) \<mapsto> t + int L),
      net := net s - {Renewed w i a t} \<rparr>)"
| give_up: "sys_step L s (s\<lparr> belief := (belief s)(k := None) \<rparr>)"
| send_complete: "belief s (i, w, a) = Some d \<Longrightarrow> now s < d \<Longrightarrow>
    sys_step L s (s\<lparr> belief := (belief s)((i, w, a) := None),
      net := insert (AskComplete w i a) (net s) \<rparr>)"
| send_fail: "belief s (i, w, a) = Some d \<Longrightarrow> now s < d \<Longrightarrow>
    sys_step L s (s\<lparr> belief := (belief s)((i, w, a) := None),
      net := insert (AskFail w i a m delay) (net s) \<rparr>)"
| serve_complete: "AskComplete w i a \<in> net s \<Longrightarrow> complete_stmt i w a (sdb s) = (res, db) \<Longrightarrow>
    sys_step L s (s\<lparr> sdb := db, net := net s - {AskComplete w i a} \<rparr>)"
| serve_fail: "AskFail w i a m delay \<in> net s \<Longrightarrow>
    fail_stmt i w a (duration_seconds delay) (take 4000 m) (sdb s) = (res', db) \<Longrightarrow>
    sys_step L s (s\<lparr> sdb := db, net := net s - {AskFail w i a m delay} \<rparr>)"
| lose: "sys_step L s (s\<lparr> net := net s - {msg} \<rparr>)"

definition initial :: "timestamp \<Rightarrow> system" where
  "initial t = \<lparr> sdb = \<lparr> users = [], jobs = [], pg_now = t, row_locks = [], faults = [] \<rparr>,
     belief = (\<lambda>k. None), net = {}, used = {}, started = (\<lambda>i. 0) \<rparr>"

inductive reachable :: "duration \<Rightarrow> timestamp \<Rightarrow> system \<Rightarrow> bool" for L t0 where
  start: "reachable L t0 (initial t0)"
| step: "reachable L t0 s \<Longrightarrow> sys_step L s s' \<Longrightarrow> reachable L t0 s'"

section \<open>How the statements change a row\<close>

text \<open>\<open>held_from db i w a t\<close>: the row is leased to the attempt, since \<open>t\<close> or later.\<close>

definition held_from :: "pg \<Rightarrow> uuid \<Rightarrow> rstring \<Rightarrow> u32 \<Rightarrow> timestamp \<Rightarrow> bool" where
  "held_from db i w a t \<longleftrightarrow> (\<exists>r u. job_at db i = Some r \<and> holds_lease i w a r \<and>
     jr_locked_at r = Some u \<and> t \<le> u \<and> u \<le> pg_now db)"

text \<open>A lease is safe until the timeout has passed.\<close>

definition lease_safe :: "duration \<Rightarrow> pg \<Rightarrow> attempt \<Rightarrow> timestamp \<Rightarrow> bool" where
  "lease_safe L db k t = (case k of (i, w, a) \<Rightarrow> pg_now db \<le> t + int L \<longrightarrow> held_from db i w a t)"

text \<open>
  \<open>evolves X T L db db'\<close>: no row is new, the jobs in \<open>T\<close> (and no others) have one attempt
  more, and no safe lease outside \<open>X\<close> is lost.
\<close>

definition evolves :: "attempt set \<Rightarrow> uuid set \<Rightarrow> duration \<Rightarrow> pg \<Rightarrow> pg \<Rightarrow> bool" where
  "evolves X T L db db' \<longleftrightarrow> pg_now db \<le> pg_now db' \<and>
     (\<forall>i r'. job_at db' i = Some r' \<longrightarrow> (\<exists>r. job_at db i = Some r \<and>
        jr_attempts r' = jr_attempts r + (if i \<in> T then 1 else 0))) \<and>
     (\<forall>k t. k \<notin> X \<longrightarrow> lease_safe L db k t \<longrightarrow> lease_safe L db' k t)"

lemma evolvesI:
  assumes "\<And>i r'. job_at db' i = Some r' \<Longrightarrow> \<exists>r. job_at db i = Some r \<and>
        jr_attempts r' = jr_attempts r + (if i \<in> T then 1 else 0)"
    and "pg_now db' = pg_now db"
    and "\<And>i w a r u t. (i, w, a) \<notin> X \<Longrightarrow> job_at db i = Some r \<Longrightarrow> holds_lease i w a r \<Longrightarrow>
           jr_locked_at r = Some u \<Longrightarrow> u \<le> pg_now db \<Longrightarrow> pg_now db \<le> u + int L \<Longrightarrow>
           \<exists>r' u'. job_at db' i = Some r' \<and> holds_lease i w a r' \<and> jr_locked_at r' = Some u' \<and>
             u \<le> u' \<and> u' \<le> pg_now db"
  shows "evolves X T L db db'"
proof -
  have "lease_safe L db' k t" if "k \<notin> X" "lease_safe L db k t" for k t
  proof -
    obtain i w a where k: "k = (i, w, a)" by (cases k)
    show ?thesis
    proof (cases "pg_now db \<le> t + int L")
      case True
      with that(2) k obtain r u where r: "job_at db i = Some r" "holds_lease i w a r"
        "jr_locked_at r = Some u" "t \<le> u" "u \<le> pg_now db"
        by (auto simp: lease_safe_def held_from_def)
      with assms(3) [of i w a r u] that(1) k True obtain r' u' where
        "job_at db' i = Some r'" "holds_lease i w a r'" "jr_locked_at r' = Some u'" "u \<le> u'"
        "u' \<le> pg_now db" by auto
      with r k assms(2) show ?thesis by (auto simp: lease_safe_def held_from_def)
    qed (use k assms(2) in \<open>simp add: lease_safe_def\<close>)
  qed
  with assms(1,2) show ?thesis by (simp add: evolves_def)
qed

lemma evolves_reap:
  assumes "pg_jobs_ok db"
  shows "evolves {} {} L db (snd (reap_stmt (int L) db))"
proof (rule evolvesI)
  let ?db' = "snd (reap_stmt (int L) db)"
  have "reaped (int L) db ?db'"
    unfolding reaped_def reap_stmt_ok(1) [OF assms] by (rule exI [of _ "faults db"]) simp
  note at = reaped_job_at [OF this]
  show "pg_now ?db' = pg_now db" by (simp add: reap_stmt_ok(1) [OF assms])
  show "\<exists>r. job_at db i = Some r \<and> jr_attempts r' = jr_attempts r + (if i \<in> {} then 1 else 0)"
    if "job_at ?db' i = Some r'" for i r'
    using that by (auto simp: at reap_row_def)
  fix i w a r u t
  assume r: "job_at db i = Some r" "holds_lease i w a r" "jr_locked_at r = Some u" "u \<le> pg_now db"
    "pg_now db \<le> u + int L"
  have "i \<notin> set (reap_candidates (int L) db)"
    using reap_candidates_sound [OF assms, of r "int L"] job_at_Some [OF r(1)] r(3,5)
    by (auto simp: lease_expired_def)
  with r show "\<exists>r' u'. job_at ?db' i = Some r' \<and> holds_lease i w a r' \<and> jr_locked_at r' = Some u' \<and>
      u \<le> u' \<and> u' \<le> pg_now db" by (auto simp: at)
qed

lemma evolves_take:
  assumes "pg_jobs_ok db" and "take_stmt w db = (Inr (Some row), db')"
  shows "evolves {} {jr_id row} L db db'"
proof (rule evolvesI)
  obtain c where c: "c \<in> set (jobs db)" "claimable db c" "row = take_row w (pg_now db) c"
    and at: "\<And>k. job_at db' k = (if k = jr_id c then Some row else job_at db k)"
    by (rule take_stmt_some [OF assms]) blast
  have c': "job_at db (jr_id c) = Some c" using job_at_iff [OF assms(1)] c(1) by simp
  show "pg_now db' = pg_now db" using take_stmt_ok(1) [OF assms(1), of w] assms(2) by auto
  show "\<exists>r. job_at db i = Some r \<and> jr_attempts r' = jr_attempts r + (if i \<in> {jr_id row} then 1 else 0)"
    if "job_at db' i = Some r'" for i r'
  proof (cases "i = jr_id c")
    case True
    with that at have "r' = row" by simp
    with True c' c(3) show ?thesis by (simp add: take_row_def)
  next
    case False
    with that at have "job_at db i = Some r'" by simp
    with False c(3) show ?thesis by simp
  qed
  fix i v a r u
  assume r: "job_at db i = Some r" "holds_lease i v a r" "jr_locked_at r = Some u" "u \<le> pg_now db"
  have "i \<noteq> jr_id c"
  proof
    assume "i = jr_id c"
    with r(1) c' have "r = c" by simp
    with r(2) c(2) show False by (simp add: claimable_def holds_lease_def)
  qed
  then have "job_at db' i = Some r" using at r(1) by simp
  with r show "\<exists>r' u'. job_at db' i = Some r' \<and> holds_lease i v a r' \<and> jr_locked_at r' = Some u' \<and>
      u \<le> u' \<and> u' \<le> pg_now db" by blast
qed

lemma holds_lease_unique: "holds_lease i w a r \<Longrightarrow> holds_lease j v b r \<Longrightarrow> j = i \<and> v = w \<and> b = a"
  unfolding holds_lease_def by (metis option.inject word_uint_eq_iff)

text \<open>The three lease-checked statements: a renewal moves the lease forward, the others end it.\<close>

lemma evolves_lease_update:
  assumes f: "f = complete_row (pg_now db) \<or> f = renew_row (pg_now db) \<or> f = fail_row (pg_now db) sec m"
    and X: "f = renew_row (pg_now db) \<or> (i, w, a) \<in> X"
  shows "evolves X {} L db (db\<lparr> jobs := map (\<lambda>r. if holds_lease i w a r then f r else r) (jobs db) \<rparr>)"
proof (rule evolvesI)
  let ?db' = "db\<lparr> jobs := map (\<lambda>r. if holds_lease i w a r then f r else r) (jobs db) \<rparr>"
  have id: "jr_id (f r) = jr_id r" for r using f by auto
  note at = job_at_lease_update [where f = f, OF id]
  have keep: "jr_attempts (f r) = jr_attempts r \<and> jr_max_attempts (f r) = jr_max_attempts r" for r
    using f by (auto simp: row_update_defs)
  show "pg_now ?db' = pg_now db" by simp
  show "\<exists>r. job_at db j = Some r \<and> jr_attempts r' = jr_attempts r + (if j \<in> {} then 1 else 0)"
    if "job_at ?db' j = Some r'" for j r'
    using that keep by (auto simp: at split: if_splits)
  fix j v b r u t
  assume r: "(j, v, b) \<notin> X" "job_at db j = Some r" "holds_lease j v b r" "jr_locked_at r = Some u"
    "u \<le> pg_now db"
  have same: "v = w \<and> b = a" if "j = i" "leased db i w a"
    using that r(2,3) holds_lease_unique by (auto simp: leased_def)
  show "\<exists>r' u'. job_at ?db' j = Some r' \<and> holds_lease j v b r' \<and> jr_locked_at r' = Some u' \<and>
      u \<le> u' \<and> u' \<le> pg_now db"
  proof (cases "j = i \<and> leased db i w a")
    case True
    with same X r(1) have "f = renew_row (pg_now db)" by auto
    with True r(2) have "job_at ?db' j = Some (renew_row (pg_now db) r)" by (simp add: at)
    moreover have "holds_lease j v b (renew_row (pg_now db) r)"
      using r(3) by (simp add: holds_lease_def renew_row_def)
    ultimately show ?thesis using r(5) by (auto simp: renew_row_def)
  qed (use r in \<open>auto simp: at\<close>)
qed

lemma evolves_lease_stmts:
  assumes "pg_jobs_ok db"
  shows "evolves {(i, w, a)} {} L db (snd (complete_stmt i w a db))"
    and "evolves {} {} L db (snd (renew_stmt i w a db))"
    and "evolves {(i, w, a)} {} L db (snd (fail_stmt i w a sec m db))"
  using evolves_lease_update [of "complete_row (pg_now db)" db 0 "[]" i w a "{(i, w, a)}" L]
    evolves_lease_update [of "renew_row (pg_now db)" db 0 "[]" i w a "{}" L]
    evolves_lease_update [of "fail_row (pg_now db) sec m" db sec m i w a "{(i, w, a)}" L]
  by (simp_all add: lease_stmts_ok [OF assms])

lemma find_filter:
  "find P (filter Q xs) = find (\<lambda>x. P x \<and> Q x) xs"
  by (induction xs) auto

lemma purge_job_at:
  assumes "pg_jobs_ok db"
  shows "job_at (snd (purge_stmt c d db)) j = (if j \<in> set (purge_candidates c d db) then None else job_at db j)"
proof -
  let ?K = "set (purge_candidates c d db)"
  have db': "snd (purge_stmt c d db) = db\<lparr> jobs := filter (\<lambda>r. jr_id r \<notin> ?K) (jobs db) \<rparr>"
    by (simp add: purge_stmt_def Let_def delete_jobs_def)
  show ?thesis
  proof (cases "j \<in> ?K")
    case True
    then show ?thesis by (auto simp: db' job_at_def find_filter find_None_iff)
  next
    case False
    have "find (\<lambda>r. jr_id r = j \<and> jr_id r \<notin> ?K) (jobs db) = find (\<lambda>r. jr_id r = j) (jobs db)"
      using False by (intro find_cong) auto
    with False show ?thesis by (simp add: db' job_at_def find_filter)
  qed
qed

lemma evolves_purge:
  assumes "pg_jobs_ok db"
  shows "evolves {} {} L db (snd (purge_stmt c d db))"
proof (rule evolvesI)
  let ?db' = "snd (purge_stmt c d db)" and ?K = "set (purge_candidates c d db)"
  have db': "?db' = db\<lparr> jobs := filter (\<lambda>r. jr_id r \<notin> ?K) (jobs db) \<rparr>"
    by (simp add: purge_stmt_def Let_def delete_jobs_def)
  note at = purge_job_at [OF assms, of c d]
  show "pg_now ?db' = pg_now db" by (simp add: db')
  show "\<exists>r. job_at db j = Some r \<and> jr_attempts r' = jr_attempts r + (if j \<in> {} then 1 else 0)"
    if "job_at ?db' j = Some r'" for j r'
    using that by (auto simp: at split: if_splits)
  show "\<exists>r' u'. job_at ?db' j = Some r' \<and> holds_lease j v b r' \<and> jr_locked_at r' = Some u' \<and>
      u \<le> u' \<and> u' \<le> pg_now db"
    if r: "job_at db j = Some r" "holds_lease j v b r" "jr_locked_at r = Some u" "u \<le> pg_now db" for j v b r u
  proof -
    have "j \<notin> ?K"
      using purge_candidates_sound [OF assms, of r c d] job_at_Some [OF r(1)] r(2)
      by (auto simp: purgeable_def holds_lease_def)
    with r show ?thesis by (auto simp: at)
  qed
qed

section \<open>The invariant\<close>

fun lease_of :: "message \<Rightarrow> attempt option" where
  "lease_of (AskClaim w t) = None"
| "lease_of (Claimed w i a t) = Some (i, w, a)"
| "lease_of (AskRenew w i a t) = Some (i, w, a)"
| "lease_of (Renewed w i a t) = Some (i, w, a)"
| "lease_of (AskComplete w i a) = Some (i, w, a)"
| "lease_of (AskFail w i a m d) = Some (i, w, a)"

fun terminal_of :: "message \<Rightarrow> attempt option" where
  "terminal_of (AskComplete w i a) = Some (i, w, a)"
| "terminal_of (AskFail w i a m d) = Some (i, w, a)"
| "terminal_of _ = None"

fun sent_at :: "message \<Rightarrow> timestamp option" where
  "sent_at (AskClaim w t) = Some t"
| "sent_at (AskRenew w i a t) = Some t"
| "sent_at _ = None"

definition mentioned :: "system \<Rightarrow> attempt \<Rightarrow> bool" where
  "mentioned s k \<longleftrightarrow> belief s k \<noteq> None \<or> Some k \<in> lease_of ` net s"

text \<open>The attempt numbers in use never exceed the row's.\<close>

definition attempts_inv :: "system \<Rightarrow> bool" where
  "attempts_inv s \<longleftrightarrow>
     (\<forall>i r. job_at (sdb s) i = Some r \<longrightarrow> i \<in> used s \<and> int (started s i) = jr_attempts r) \<and>
     (\<forall>i w a. mentioned s (i, w, a) \<longrightarrow> i \<in> used s \<and> uint a \<le> int (started s i)) \<and>
     (\<forall>m \<in> net s. \<forall>t. sent_at m = Some t \<longrightarrow> t \<le> now s) \<and>
     (\<forall>i. i \<notin> used s \<longrightarrow> started s i = 0)"

text \<open>Every belief, and every reply that can lead to one, is backed by the table.\<close>

definition belief_inv :: "duration \<Rightarrow> system \<Rightarrow> bool" where
  "belief_inv L s \<longleftrightarrow>
     (\<forall>k d. belief s k = Some d \<longrightarrow> lease_safe L (sdb s) k (d - int L)) \<and>
     (\<forall>i w a t. Claimed w i a t \<in> net s \<longrightarrow> lease_safe L (sdb s) (i, w, a) t \<and>
        belief s (i, w, a) = None \<and> (\<forall>m \<in> net s. lease_of m = Some (i, w, a) \<longrightarrow> m = Claimed w i a t)) \<and>
     (\<forall>i w a t. Renewed w i a t \<in> net s \<longrightarrow> belief s (i, w, a) \<noteq> None \<longrightarrow>
        lease_safe L (sdb s) (i, w, a) t) \<and>
     (\<forall>m \<in> net s. \<forall>k. terminal_of m = Some k \<longrightarrow> belief s k = None)"

definition sys_inv :: "duration \<Rightarrow> system \<Rightarrow> bool" where
  "sys_inv L s \<longleftrightarrow> pg_jobs_ok (sdb s) \<and> attempts_inv s \<and> belief_inv L s"

lemma sys_inv_initial: "sys_inv L (initial t)"
  by (simp add: sys_inv_def attempts_inv_def belief_inv_def initial_def pg_jobs_ok_def jobs_ok_def
        job_at_def mentioned_def)

lemma evolves_now: "evolves X T L db db' \<Longrightarrow> pg_now db \<le> pg_now db'"
  by (simp add: evolves_def)

lemma evolves_row: "evolves X T L db db' \<Longrightarrow> job_at db' i = Some r' \<Longrightarrow>
    \<exists>r. job_at db i = Some r \<and> jr_attempts r' = jr_attempts r + (if i \<in> T then 1 else 0)"
  by (simp add: evolves_def)

lemma evolves_safe: "evolves X T L db db' \<Longrightarrow> k \<notin> X \<Longrightarrow> lease_safe L db k t \<Longrightarrow> lease_safe L db' k t"
  unfolding evolves_def by blast

text \<open>The invariant, clause by clause.\<close>

lemma sys_invD:
  assumes "sys_inv L s"
  shows "pg_jobs_ok (sdb s)"
    and "\<And>i r. job_at (sdb s) i = Some r \<Longrightarrow> i \<in> used s"
    and "\<And>i r. job_at (sdb s) i = Some r \<Longrightarrow> int (started s i) = jr_attempts r"
    and "\<And>i w a. mentioned s (i, w, a) \<Longrightarrow> i \<in> used s"
    and "\<And>i w a. mentioned s (i, w, a) \<Longrightarrow> uint a \<le> int (started s i)"
    and "\<And>m t. m \<in> net s \<Longrightarrow> sent_at m = Some t \<Longrightarrow> t \<le> now s"
    and "\<And>k d. belief s k = Some d \<Longrightarrow> lease_safe L (sdb s) k (d - int L)"
    and "\<And>i w a t. Claimed w i a t \<in> net s \<Longrightarrow> lease_safe L (sdb s) (i, w, a) t"
    and "\<And>i w a t. Claimed w i a t \<in> net s \<Longrightarrow> belief s (i, w, a) = None"
    and "\<And>i w a t m. Claimed w i a t \<in> net s \<Longrightarrow> m \<in> net s \<Longrightarrow> lease_of m = Some (i, w, a) \<Longrightarrow> m = Claimed w i a t"
    and "\<And>i w a t. Renewed w i a t \<in> net s \<Longrightarrow> belief s (i, w, a) \<noteq> None \<Longrightarrow> lease_safe L (sdb s) (i, w, a) t"
    and "\<And>m k. m \<in> net s \<Longrightarrow> terminal_of m = Some k \<Longrightarrow> belief s k = None"
    and "\<And>i. i \<notin> used s \<Longrightarrow> started s i = 0"
proof -
  have *: "pg_jobs_ok (sdb s)" "attempts_inv s" "belief_inv L s" using assms by (simp_all add: sys_inv_def)
  note a = *(2) [unfolded attempts_inv_def] and b = *(3) [unfolded belief_inv_def]
  note A = a [THEN conjunct1] a [THEN conjunct2, THEN conjunct1] 
    a [THEN conjunct2, THEN conjunct2, THEN conjunct1] a [THEN conjunct2, THEN conjunct2, THEN conjunct2]
  note B = b [THEN conjunct1] b [THEN conjunct2, THEN conjunct1]
    b [THEN conjunct2, THEN conjunct2, THEN conjunct1] b [THEN conjunct2, THEN conjunct2, THEN conjunct2]
  show "pg_jobs_ok (sdb s)" by (rule *)
  show "\<And>i r. job_at (sdb s) i = Some r \<Longrightarrow> i \<in> used s" 
     "\<And>i r. job_at (sdb s) i = Some r \<Longrightarrow> int (started s i) = jr_attempts r" using A(1) by metis+
  show "\<And>i w a. mentioned s (i, w, a) \<Longrightarrow> i \<in> used s"
     "\<And>i w a. mentioned s (i, w, a) \<Longrightarrow> uint a \<le> int (started s i)" using A(2) by metis+
  show "\<And>m t. m \<in> net s \<Longrightarrow> sent_at m = Some t \<Longrightarrow> t \<le> now s" using A(3) by metis
  show "\<And>k d. belief s k = Some d \<Longrightarrow> lease_safe L (sdb s) k (d - int L)" using B(1) by metis
  show "\<And>i w a t. Claimed w i a t \<in> net s \<Longrightarrow> lease_safe L (sdb s) (i, w, a) t"
   "\<And>i w a t. Claimed w i a t \<in> net s \<Longrightarrow> belief s (i, w, a) = None"
   "\<And>i w a t m. Claimed w i a t \<in> net s \<Longrightarrow> m \<in> net s \<Longrightarrow> lease_of m = Some (i, w, a) \<Longrightarrow> m = Claimed w i a t"
   using B(2) by metis+
  show "\<And>i w a t. Renewed w i a t \<in> net s \<Longrightarrow> belief s (i, w, a) \<noteq> None \<Longrightarrow> lease_safe L (sdb s) (i, w, a) t" using B(3) by metis
  show "\<And>m k. m \<in> net s \<Longrightarrow> terminal_of m = Some k \<Longrightarrow> belief s k = None" using B(4) by metis
  show "\<And>i. i \<notin> used s \<Longrightarrow> started s i = 0" using A(4) by metis
qed
lemma sys_invI:
  assumes "pg_jobs_ok (sdb s)"
    and "\<And>i r. job_at (sdb s) i = Some r \<Longrightarrow> i \<in> used s \<and> int (started s i) = jr_attempts r"
    and "\<And>i w a. mentioned s (i, w, a) \<Longrightarrow> i \<in> used s \<and> uint a \<le> int (started s i)"
    and "\<And>m t. m \<in> net s \<Longrightarrow> sent_at m = Some t \<Longrightarrow> t \<le> now s"
    and "\<And>k d. belief s k = Some d \<Longrightarrow> lease_safe L (sdb s) k (d - int L)"
    and "\<And>i w a t. Claimed w i a t \<in> net s \<Longrightarrow> lease_safe L (sdb s) (i, w, a) t \<and>
        belief s (i, w, a) = None \<and> (\<forall>m \<in> net s. lease_of m = Some (i, w, a) \<longrightarrow> m = Claimed w i a t)"
    and "\<And>i w a t. Renewed w i a t \<in> net s \<Longrightarrow> belief s (i, w, a) \<noteq> None \<Longrightarrow>
        lease_safe L (sdb s) (i, w, a) t"
    and "\<And>m k. m \<in> net s \<Longrightarrow> terminal_of m = Some k \<Longrightarrow> belief s k = None"
    and "\<And>i. i \<notin> used s \<Longrightarrow> started s i = 0"
  shows "sys_inv L s"
  unfolding sys_inv_def attempts_inv_def belief_inv_def
  using assms by (intro conjI allI impI ballI; metis)

lemma terminal_lease: "terminal_of m = Some k \<Longrightarrow> lease_of m = Some k"
  by (cases m) auto

lemma belief_mentioned: "belief s k = Some d \<Longrightarrow> mentioned s k"
  by (simp add: mentioned_def)

lemma net_mentioned: "m \<in> net s \<Longrightarrow> lease_of m = Some k \<Longrightarrow> mentioned s k"
  by (force simp: mentioned_def)

text \<open>Steps that only change the table, drop messages or drop beliefs.\<close>

lemma sys_inv_evolve:
  assumes inv: "sys_inv L s" and ev: "evolves X {} L (sdb s) (sdb s')" and ok: "pg_jobs_ok (sdb s')"
    and X: "\<And>k. k \<in> X \<Longrightarrow> \<exists>m \<in> net s. terminal_of m = Some k"
    and net: "net s' \<subseteq> net s" and bel: "\<And>k d. belief s' k = Some d \<Longrightarrow> belief s k = Some d"
    and same: "used s' = used s" "started s' = started s"
  shows "sys_inv L s'"
proof (rule sys_invI)
  note D = sys_invD [OF inv]
  have men: "mentioned s k" if "mentioned s' k" for k
    using net bel [of k] that by (cases "belief s' k") (auto simp: mentioned_def)
  have none: "belief s' k = None" if "belief s k = None" for k
    using bel [of k] that by (cases "belief s' k") auto
  have XT: "k \<notin> X" if "belief s k \<noteq> None" for k
  proof
    assume "k \<in> X"
    with X obtain m where "m \<in> net s" "terminal_of m = Some k" by blast
    from D(12) [OF this] that show False by simp
  qed
  have XC: "(i, w, a) \<notin> X" if "Claimed w i a t \<in> net s" for i w a t
  proof
    assume "(i, w, a) \<in> X"
    with X obtain m where m: "m \<in> net s" "terminal_of m = Some (i, w, a)" by blast
    from D(10) [OF that m(1) terminal_lease [OF m(2)]] m(2) show False by simp
  qed
  show "pg_jobs_ok (sdb s')" by (rule ok)
  show "i \<in> used s' \<and> int (started s' i) = jr_attempts r" if at: "job_at (sdb s') i = Some r" for i r
  proof -
    from evolves_row [OF ev at] obtain r0 where "job_at (sdb s) i = Some r0" "jr_attempts r = jr_attempts r0"
      by auto
    with D(2,3) [of i r0] same show ?thesis by simp
  qed
  show "i \<in> used s' \<and> uint a \<le> int (started s' i)" if m: "mentioned s' (i, w, a)" for i w a
    using D(4,5) [OF men [OF m]] same by simp
  show "t \<le> now s'" if "m \<in> net s'" "sent_at m = Some t" for m t
  proof -
    from that(1) net have "m \<in> net s" by blast
    from D(6) [OF this that(2)] evolves_now [OF ev] show ?thesis by linarith
  qed
  show "lease_safe L (sdb s') k (d - int L)" if b: "belief s' k = Some d" for k d
  proof -
    from bel [OF b] have b: "belief s k = Some d" .
    then have "k \<notin> X" by (intro XT) simp
    from evolves_safe [OF ev this D(7) [OF b]] show ?thesis .
  qed
  show "lease_safe L (sdb s') (i, w, a) t \<and> belief s' (i, w, a) = None \<and>
      (\<forall>m \<in> net s'. lease_of m = Some (i, w, a) \<longrightarrow> m = Claimed w i a t)"
    if "Claimed w i a t \<in> net s'" for i w a t
  proof -
    from that net have c: "Claimed w i a t \<in> net s" by blast
    have "lease_safe L (sdb s') (i, w, a) t" by (rule evolves_safe [OF ev XC [OF c] D(8) [OF c]])
    moreover have "m = Claimed w i a t" if "m \<in> net s'" "lease_of m = Some (i, w, a)" for m
      using D(10) [OF c _ that(2)] that(1) net by (meson subsetD)
    ultimately show ?thesis using none [OF D(9) [OF c]] by blast
  qed
  show "lease_safe L (sdb s') (i, w, a) t"
    if "Renewed w i a t \<in> net s'" "belief s' (i, w, a) \<noteq> None" for i w a t
  proof -
    from that net have n: "Renewed w i a t \<in> net s" by blast
    have b: "belief s (i, w, a) \<noteq> None" using that(2) none [of "(i, w, a)"] by argo
    show ?thesis by (rule evolves_safe [OF ev XT [OF b] D(11) [OF n b]])
  qed
  show "belief s' k = None" if "m \<in> net s'" "terminal_of m = Some k" for m k
    using none [OF D(12) [OF _ that(2)]] that(1) net by (meson subsetD)
  show "started s' i = 0" if "i \<notin> used s'" for i
    using D(13) that same by simp
qed

lemma evolves_refl: "evolves X {} L db db"
  by (simp add: evolves_def)

lemma evolves_clock: "evolves X {} L db (db\<lparr> pg_now := pg_now db + int d \<rparr>)"
  by (auto simp: evolves_def lease_safe_def held_from_def job_at_def split: prod.splits)

lemma evolves_locks: "evolves X {} L db (db\<lparr> row_locks := ls \<rparr>)"
  by (auto simp: evolves_def lease_safe_def held_from_def job_at_def split: prod.splits)

text \<open>A message about an attempt whose handler is running may be sent.\<close>

lemma sys_inv_send:
  assumes inv: "sys_inv L s" and b: "belief s (i, w, a) = Some d"
    and msg: "msg = AskRenew w i a (now s) \<and> bel = belief s \<or>
              terminal_of msg = Some (i, w, a) \<and> sent_at msg = None \<and> bel = (belief s)((i, w, a) := None)"
  shows "sys_inv L (s\<lparr> belief := bel, net := insert msg (net s) \<rparr>)"
proof (rule sys_invI)
  let ?s = "s\<lparr> belief := bel, net := insert msg (net s) \<rparr>"
  note D = sys_invD [OF inv]
  have lm: "lease_of msg = Some (i, w, a)" using msg terminal_lease by auto
  have bel: "bel k = Some e \<Longrightarrow> belief s k = Some e" for k e using msg by (auto split: if_splits)
  have men: "mentioned ?s k \<Longrightarrow> mentioned s k" for k
    using bel b lm by (fastforce simp: mentioned_def)
  show "pg_jobs_ok (sdb ?s)" using D(1) by simp
  show "j \<in> used ?s \<and> int (started ?s j) = jr_attempts r" if "job_at (sdb ?s) j = Some r" for j r
    using D(2,3) that by simp
  show "j \<in> used ?s \<and> uint c \<le> int (started ?s j)" if "mentioned ?s (j, v, c)" for j v c
    using D(4,5) men [OF that] by simp
  show "t \<le> now ?s" if "m \<in> net ?s" "sent_at m = Some t" for m t
    using D(6) that msg by auto
  show "lease_safe L (sdb ?s) k (e - int L)" if "belief ?s k = Some e" for k e
    using D(7) bel that by simp
  show "lease_safe L (sdb ?s) (j, v, c) t \<and> belief ?s (j, v, c) = None \<and>
      (\<forall>m \<in> net ?s. lease_of m = Some (j, v, c) \<longrightarrow> m = Claimed v j c t)"
    if "Claimed v j c t \<in> net ?s" for v j c t
  proof -
    from that msg have c: "Claimed v j c t \<in> net s" by auto
    with D(9) b have "(j, v, c) \<noteq> (i, w, a)" by fastforce
    with lm D(8-10) [OF c] bel show ?thesis by (cases "bel (j, v, c)") auto
  qed
  show "lease_safe L (sdb ?s) (j, v, c) t"
    if "Renewed v j c t \<in> net ?s" "belief ?s (j, v, c) \<noteq> None" for v j c t
  proof -
    from that msg have "Renewed v j c t \<in> net s" by auto
    moreover from that bel have "belief s (j, v, c) \<noteq> None" by fastforce
    ultimately show ?thesis using D(11) by simp
  qed
  show "belief ?s k = None" if "m \<in> net ?s" "terminal_of m = Some k" for m k
  proof (cases "m = msg")
    case True
    with that(2) msg show ?thesis by auto
  next
    case False
    with that D(12) have "belief s k = None" by simp
    with bel show ?thesis by (cases "bel k") auto
  qed
  show "started ?s i = 0" if "i \<notin> used ?s" for i
    using D(13) [of i] that by simp
qed

text \<open>A reply is delivered: the belief it confirms is backed by the table already.\<close>

lemma sys_inv_receive:
  assumes inv: "sys_inv L s" and m: "msg \<in> net s"
    and k: "msg = Claimed w i a t \<or> msg = Renewed w i a t \<and> belief s (i, w, a) \<noteq> None"
  shows "sys_inv L (s\<lparr> belief := (belief s)((i, w, a) \<mapsto> t + int L), net := net s - {msg} \<rparr>)"
proof (rule sys_invI)
  let ?s = "s\<lparr> belief := (belief s)((i, w, a) \<mapsto> t + int L), net := net s - {msg} \<rparr>"
  note D = sys_invD [OF inv]
  have safe: "lease_safe L (sdb s) (i, w, a) t" using k m D(8,11) by auto
  have lm: "lease_of msg = Some (i, w, a)" using k by auto
  have men: "mentioned ?s k \<Longrightarrow> mentioned s k" for k
    using m lm net_mentioned [OF m lm] by (auto simp: mentioned_def split: if_splits)
  have unique: "m' = msg" if "m' \<in> net s" "lease_of m' = Some (i, w, a)" "belief s (i, w, a) = None" for m'
    using k m D(10) that by auto
  show "pg_jobs_ok (sdb ?s)" using D(1) by simp
  show "j \<in> used ?s \<and> int (started ?s j) = jr_attempts r" if "job_at (sdb ?s) j = Some r" for j r
    using D(2,3) that by simp
  show "j \<in> used ?s \<and> uint c \<le> int (started ?s j)" if "mentioned ?s (j, v, c)" for j v c
    using D(4,5) men [OF that] by simp
  show "u \<le> now ?s" if "m' \<in> net ?s" "sent_at m' = Some u" for m' u
    using D(6) that by auto
  show "lease_safe L (sdb ?s) k (e - int L)" if "belief ?s k = Some e" for k e
    using D(7) [of k e] safe that by (auto split: if_splits)
  show "lease_safe L (sdb ?s) (j, v, c) u \<and> belief ?s (j, v, c) = None \<and>
      (\<forall>m' \<in> net ?s. lease_of m' = Some (j, v, c) \<longrightarrow> m' = Claimed v j c u)"
    if "Claimed v j c u \<in> net ?s" for v j c u
  proof -
    from that have c: "Claimed v j c u \<in> net s" "Claimed v j c u \<noteq> msg" by auto
    have "(j, v, c) \<noteq> (i, w, a)"
    proof
      assume e: "(j, v, c) = (i, w, a)"
      with D(9) [OF c(1)] have "belief s (i, w, a) = None" by simp
      with unique [OF c(1)] e c(2) show False by simp
    qed
    with D(8-10) [OF c(1)] show ?thesis by auto
  qed
  show "lease_safe L (sdb ?s) (j, v, c) u"
    if "Renewed v j c u \<in> net ?s" "belief ?s (j, v, c) \<noteq> None" for v j c u
  proof (cases "belief s (j, v, c) = None")
    case True
    with that(2) have "(j, v, c) = (i, w, a)" by (auto split: if_splits)
    with that(1) True unique [of "Renewed v j c u"] show ?thesis by simp
  next
    case False
    with that(1) D(11) show ?thesis by simp
  qed
  show "belief ?s k = None" if "m' \<in> net ?s" "terminal_of m' = Some k" for m' k
  proof -
    from that have n: "m' \<in> net s" "m' \<noteq> msg" by auto
    from D(12) [OF n(1) that(2)] have "belief s k = None" .
    moreover have "k \<noteq> (i, w, a)"
      using unique [OF n(1)] n(2) terminal_lease [OF that(2)] calculation by auto
    ultimately show ?thesis by simp
  qed
  show "started ?s i = 0" if "i \<notin> used ?s" for i
    using D(13) [of i] that by simp
qed

text \<open>A claim is served: the attempt handed out is new.\<close>

lemma sys_inv_serve_claim:
  assumes inv: "sys_inv L s" and ask: "AskClaim w t \<in> net s"
    and take: "take_stmt w (sdb s) = (Inr (Some row), db)" and j: "into_application row = Inr j"
  shows "sys_inv L (s\<lparr> sdb := db,
      net := insert (Claimed w (cj_id j) (cj_attempts j) t) (net s - {AskClaim w t}),
      started := (started s)(cj_id j := started s (cj_id j) + 1) \<rparr>)"
proof (rule sys_invI)
  let ?k = "(cj_id j, w, cj_attempts j)" and ?msg = "Claimed w (cj_id j) (cj_attempts j) t"
  let ?s = "s\<lparr> sdb := db, net := insert ?msg (net s - {AskClaim w t}),
      started := (started s)(cj_id j := started s (cj_id j) + 1) \<rparr>"
  note D = sys_invD [OF inv]
  note ev = evolves_take [OF D(1) take, of L]
  obtain c where c: "c \<in> set (jobs (sdb s))" "claimable (sdb s) c" "row = take_row w (now s) c"
    and at: "\<And>k. job_at db k = (if k = jr_id c then Some row else job_at (sdb s) k)"
    by (rule take_stmt_some [OF D(1) take]) blast
  note f = claimed_attempts [OF D(1) c(1,2) j [unfolded c(3)]]
  have c': "job_at (sdb s) (cj_id j) = Some c" using job_at_iff [OF D(1)] c(1) f(1) by simp
  have id: "jr_id row = cj_id j" using f(1) c(3) by simp
  have st: "int (started s (cj_id j)) + 1 = uint (cj_attempts j)" using D(3) [OF c'] f(5) by simp
  have now: "pg_now db = now s"
    using take_stmt_ok(1) [OF D(1), of w] take by auto
  have fresh: "\<not> mentioned s ?k"
    using D(5) [of "cj_id j" w "cj_attempts j"] st by auto
  have bel: "belief s ?k = None" using fresh by (simp add: mentioned_def)
  have other: "lease_of m \<noteq> Some ?k" if "m \<in> net s" for m
    using fresh net_mentioned [OF that] by blast
  have men: "mentioned s k \<or> k = ?k" if "mentioned ?s k" for k
    using that by (auto simp: mentioned_def)
  show "pg_jobs_ok (sdb ?s)"
    using take_stmt_ok(2) [OF D(1), of w] take by simp
  show "i \<in> used ?s \<and> int (started ?s i) = jr_attempts r" if "job_at (sdb ?s) i = Some r" for i r
  proof -
    from that have "job_at db i = Some r" by simp
    from evolves_row [OF ev this] obtain r0 where r0: "job_at (sdb s) i = Some r0"
      "jr_attempts r = jr_attempts r0 + (if i \<in> {jr_id row} then 1 else 0)" by blast
    with D(2,3) [OF r0(1)] id show ?thesis by auto
  qed
  show "i \<in> used ?s \<and> uint a \<le> int (started ?s i)" if "mentioned ?s (i, v, a)" for i v a
    using men [OF that]
  proof
    assume "mentioned s (i, v, a)"
    with D(4,5) [of i v a] show ?thesis by auto
  next
    assume "(i, v, a) = ?k"
    with D(2) [OF c'] st show ?thesis by simp
  qed
  show "u \<le> now ?s" if "m \<in> net ?s" "sent_at m = Some u" for m u
    using D(6) [of m u] that now by auto
  show "lease_safe L (sdb ?s) k (d - int L)" if "belief ?s k = Some d" for k d
    using evolves_safe [OF ev _ D(7)] that by simp
  have row: "lease_safe L db ?k t"
    using at [of "cj_id j"] f(1,5) c(3) D(6) [OF ask, of t] now
    by (simp add: lease_safe_def held_from_def holds_lease_def take_row_def)
  show "lease_safe L (sdb ?s) (i, v, a) u \<and> belief ?s (i, v, a) = None \<and>
      (\<forall>m \<in> net ?s. lease_of m = Some (i, v, a) \<longrightarrow> m = Claimed v i a u)"
    if "Claimed v i a u \<in> net ?s" for v i a u
  proof (cases "Claimed v i a u = ?msg")
    case True
    with row bel other show ?thesis by auto
  next
    case False
    with that have n: "Claimed v i a u \<in> net s" by auto
    with other have "(i, v, a) \<noteq> ?k" by fastforce
    then have "m = Claimed v i a u" if "m \<in> net ?s" "lease_of m = Some (i, v, a)" for m
      using that D(10) [OF n, of m] by auto
    with evolves_safe [OF ev _ D(8) [OF n]] D(9) [OF n] show ?thesis by simp
  qed
  show "lease_safe L (sdb ?s) (i, v, a) u"
    if "Renewed v i a u \<in> net ?s" "belief ?s (i, v, a) \<noteq> None" for v i a u
    using evolves_safe [OF ev _ D(11) [of v i a u]] that by simp
  show "belief ?s k = None" if "m \<in> net ?s" "terminal_of m = Some k" for m k
    using D(12) [of m k] that by auto
  show "started ?s i = 0" if "i \<notin> used ?s" for i
    using D(13) [of i] D(2) [OF c'] that by auto
qed

text \<open>A renewal is served: its reply confirms a lease that starts after it was sent.\<close>

lemma sys_inv_add_renewed:
  assumes inv: "sys_inv L s" and safe: "lease_safe L (sdb s) (i, w, a) t"
    and men: "i \<in> used s" "uint a \<le> int (started s i)"
    and noclaim: "\<And>u. Claimed w i a u \<notin> net s"
  shows "sys_inv L (s\<lparr> net := insert (Renewed w i a t) (net s) \<rparr>)"
proof (rule sys_invI)
  let ?s = "s\<lparr> net := insert (Renewed w i a t) (net s) \<rparr>"
  note D = sys_invD [OF inv]
  show "pg_jobs_ok (sdb ?s)" using D(1) by simp
  show "j \<in> used ?s \<and> int (started ?s j) = jr_attempts r" if "job_at (sdb ?s) j = Some r" for j r
    using D(2,3) that by simp
  show "j \<in> used ?s \<and> uint b \<le> int (started ?s j)" if "mentioned ?s (j, v, b)" for j v b
    using D(4,5) [of j v b] that men by (auto simp: mentioned_def)
  show "u \<le> now ?s" if "m \<in> net ?s" "sent_at m = Some u" for m u
    using D(6) [of m u] that by auto
  show "lease_safe L (sdb ?s) k (d - int L)" if "belief ?s k = Some d" for k d
    using D(7) that by simp
  show "lease_safe L (sdb ?s) (j, v, b) u \<and> belief ?s (j, v, b) = None \<and>
      (\<forall>m \<in> net ?s. lease_of m = Some (j, v, b) \<longrightarrow> m = Claimed v j b u)"
    if "Claimed v j b u \<in> net ?s" for v j b u
  proof -
    from that have n: "Claimed v j b u \<in> net s" by simp
    with noclaim have "(j, v, b) \<noteq> (i, w, a)" by auto
    with D(8-10) [OF n] show ?thesis by auto
  qed
  show "lease_safe L (sdb ?s) (j, v, b) u"
    if "Renewed v j b u \<in> net ?s" "belief ?s (j, v, b) \<noteq> None" for v j b u
    using D(11) [of v j b u] that safe by auto
  show "belief ?s k = None" if "m \<in> net ?s" "terminal_of m = Some k" for m k
    using D(12) [of m k] that by auto
  show "started ?s i = 0" if "i \<notin> used ?s" for i
    using D(13) [of i] that by simp
qed

lemma sys_inv_serve_renew:
  assumes inv: "sys_inv L s" and ask: "AskRenew w i a t \<in> net s"
    and renew: "renew_stmt i w a (sdb s) = (Inr n, db)"
  shows "sys_inv L (s\<lparr> sdb := db,
      net := (if is_ok (ensure_lease n) then insert (Renewed w i a t) else id)
               (net s - {AskRenew w i a t}) \<rparr>)"
proof -
  let ?s = "s\<lparr> sdb := db, net := net s - {AskRenew w i a t} \<rparr>"
  note D = sys_invD [OF inv]
  have db: "db = sdb s\<lparr> jobs := map (\<lambda>r. if holds_lease i w a r then renew_row (now s) r else r) (jobs (sdb s)) \<rparr>"
    and n: "n = length (filter (holds_lease i w a) (jobs (sdb s)))"
    using renew by (auto simp: lease_stmts_ok [OF D(1)])
  have "evolves {} {} L (sdb s) (sdb ?s)"
    using evolves_lease_stmts(2) [OF D(1), of L i w a] renew by simp
  moreover have "pg_jobs_ok (sdb ?s)"
    using op_keepsD [OF keeps_ok_stmts(4) D(1), of i w a] renew by simp
  ultimately have inv': "sys_inv L ?s"
    by (rule sys_inv_evolve [OF inv]) auto
  show ?thesis
  proof (cases "is_ok (ensure_lease n)")
    case True
    then have "leased (sdb s) i w a"
      using filter_lease [OF D(1), of i w a] by (simp add: n ensure_lease_def split: if_splits)
    then obtain r where r: "job_at (sdb s) i = Some r" "holds_lease i w a r"
      by (auto simp: leased_def split: option.splits)
    have "job_at db i = Some (renew_row (now s) r)"
      using job_at_lease_update [where f = "renew_row (now s)" and db = "sdb s" and k = i, OF row_updates_id(4)]
        r \<open>leased (sdb s) i w a\<close> by (simp add: db)
    then have safe: "lease_safe L (sdb ?s) (i, w, a) t"
      using r(2) D(6) [OF ask, of t] by (simp add: lease_safe_def held_from_def holds_lease_def renew_row_def db)
    have m: "mentioned s (i, w, a)" by (rule net_mentioned [OF ask]) simp
    have "Claimed w i a u \<notin> net ?s" for u
      using D(10) [of w i a u, OF _ ask] by auto
    from sys_inv_add_renewed [OF inv' safe _ _ this] D(4,5) [OF m] True show ?thesis by simp
  qed (use inv' in simp)
qed

lemma find_snoc: "find P (xs @ [x]) = (case find P xs of None \<Rightarrow> if P x then Some x else None | Some y \<Rightarrow> Some y)"
  by (induction xs) auto

text \<open>A new job: its identifier occurs nowhere.\<close>

lemma sys_inv_enqueue:
  assumes inv: "sys_inv L s" and m: "validate_max_attempts (nj_max_attempts j) = Some m"
    and fresh: "nj_id j \<notin> used s" and ins: "insert_job j m (sdb s) = (Inr (), db)"
  shows "sys_inv L (s\<lparr> sdb := db, used := insert (nj_id j) (used s) \<rparr>)"
proof (rule sys_invI)
  let ?s = "s\<lparr> sdb := db, used := insert (nj_id j) (used s) \<rparr>"
  note D = sys_invD [OF inv]
  let ?r = "inserted_job j m (now s)"
  have db: "db = sdb s\<lparr> jobs := jobs (sdb s) @ [?r] \<rparr>"
    using ins by (auto simp: insert_job_def Let_def split: if_splits)
  have none: "job_at (sdb s) (nj_id j) = None"
    using D(2) fresh by (cases "job_at (sdb s) (nj_id j)") auto
  have at: "job_at db i = (if i = nj_id j then Some ?r else job_at (sdb s) i)" for i
    using none by (simp add: db job_at_def find_snoc inserted_job_def split: option.splits)
  have start: "started s (nj_id j) = 0" by (rule D(13) [OF fresh])
  have keep: "lease_safe L db k t" if "lease_safe L (sdb s) k t" for k t
  proof -
    have now: "pg_now db = now s" by (simp add: db)
    from that none show ?thesis
      by (cases k) (auto simp: lease_safe_def held_from_def at now)
  qed
  show "pg_jobs_ok (sdb ?s)"
    using op_keepsD [OF insert_job_ok D(1), of m j] validate_max_attempts_range [OF m] ins by simp
  show "i \<in> used ?s \<and> int (started ?s i) = jr_attempts r" if "job_at (sdb ?s) i = Some r" for i r
    using that D(2,3) [of i r] start by (auto simp: at inserted_job_def split: if_splits)
  show "i \<in> used ?s \<and> uint a \<le> int (started ?s i)" if "mentioned ?s (i, w, a)" for i w a
    using that D(4,5) [of i w a] by (auto simp: mentioned_def)
  show "t \<le> now ?s" if "msg \<in> net ?s" "sent_at msg = Some t" for msg t
    using that D(6) [of msg t] by (simp add: db)
  show "lease_safe L (sdb ?s) k (d - int L)" if "belief ?s k = Some d" for k d
    using that keep D(7) by simp
  show "lease_safe L (sdb ?s) (i, w, a) t \<and> belief ?s (i, w, a) = None \<and>
      (\<forall>m \<in> net ?s. lease_of m = Some (i, w, a) \<longrightarrow> m = Claimed w i a t)"
    if "Claimed w i a t \<in> net ?s" for w i a t
    using that keep D(8-10) [of w i a t] by auto
  show "lease_safe L (sdb ?s) (i, w, a) t"
    if "Renewed w i a t \<in> net ?s" "belief ?s (i, w, a) \<noteq> None" for w i a t
    using that keep D(11) [of w i a t] by simp
  show "belief ?s k = None" if "msg \<in> net ?s" "terminal_of msg = Some k" for msg k
    using that D(12) [of msg k] by simp
  show "started ?s i = 0" if "i \<notin> used ?s" for i
    using D(13) [of i] that by simp
qed

section \<open>Steps\<close>

lemma sys_inv_step:
  assumes "sys_step L s s'" and inv: "sys_inv L s"
  shows "sys_inv L s'"
  using assms(1)
proof cases
  case (tick d)
  show ?thesis
    by (rule sys_inv_evolve [OF inv, where X = "{}"])
      (use tick sys_invD(1) [OF inv] in \<open>simp_all add: evolves_clock pg_jobs_ok_def\<close>)
next
  case (locks ls)
  show ?thesis
    by (rule sys_inv_evolve [OF inv, where X = "{}"])
      (use locks sys_invD(1) [OF inv] in \<open>simp_all add: evolves_locks pg_jobs_ok_def\<close>)
next
  case (enqueue j m db)
  then show ?thesis using sys_inv_enqueue [OF inv] by simp
next
  case (reap res db)
  have "evolves {} {} L (sdb s) (sdb s')" "pg_jobs_ok (sdb s')"
    using evolves_reap [OF sys_invD(1) [OF inv], of L] reap_stmt_ok(2) [OF sys_invD(1) [OF inv], of "int L"] reap
    by simp_all
  then show ?thesis by (rule sys_inv_evolve [OF inv]) (use reap in simp_all)
next
  case (purge c d res db)
  have "evolves {} {} L (sdb s) (sdb s')" "pg_jobs_ok (sdb s')"
    using evolves_purge [OF sys_invD(1) [OF inv], of L c d]
      op_keepsD [OF keeps_ok_stmts(6) sys_invD(1) [OF inv], of c d] purge by simp_all
  then show ?thesis by (rule sys_inv_evolve [OF inv]) (use purge in simp_all)
next
  case (send_claim w)
  note D = sys_invD [OF inv]
  show ?thesis unfolding send_claim
  proof (rule sys_invI)
    let ?s = "s\<lparr> net := insert (AskClaim w (now s)) (net s) \<rparr>"
    show "pg_jobs_ok (sdb ?s)" using D(1) by simp
    show "i \<in> used ?s \<and> int (started ?s i) = jr_attempts r" if "job_at (sdb ?s) i = Some r" for i r
      using D(2,3) that by simp
    show "i \<in> used ?s \<and> uint a \<le> int (started ?s i)" if "mentioned ?s (i, v, a)" for i v a
      using D(4,5) [of i v a] that by (auto simp: mentioned_def)
    show "t \<le> now ?s" if "m \<in> net ?s" "sent_at m = Some t" for m t
      using D(6) [of m t] that by auto
    show "lease_safe L (sdb ?s) k (d - int L)" if "belief ?s k = Some d" for k d
      using D(7) that by simp
    show "lease_safe L (sdb ?s) (i, v, a) t \<and> belief ?s (i, v, a) = None \<and>
        (\<forall>m \<in> net ?s. lease_of m = Some (i, v, a) \<longrightarrow> m = Claimed v i a t)"
      if "Claimed v i a t \<in> net ?s" for v i a t
    proof -
      from that have n: "Claimed v i a t \<in> net s" by simp
      have "m = Claimed v i a t" if "m \<in> net ?s" "lease_of m = Some (i, v, a)" for m
        using that D(10) [OF n, of m] by auto
      with D(8,9) [OF n] show ?thesis by simp
    qed
    show "lease_safe L (sdb ?s) (i, v, a) t"
      if "Renewed v i a t \<in> net ?s" "belief ?s (i, v, a) \<noteq> None" for v i a t
      using D(11) [of v i a t] that by simp
    show "belief ?s k = None" if "m \<in> net ?s" "terminal_of m = Some k" for m k
      using D(12) [of m k] that by auto
    show "started ?s i = 0" if "i \<notin> used ?s" for i
      using D(13) [of i] that by simp
  qed
next
  case (serve_claim w t row db j)
  then show ?thesis using sys_inv_serve_claim [OF inv] by simp
next
  case (recv_claim w i a t)
  then show ?thesis using sys_inv_receive [OF inv] by simp
next
  case (send_renew i w a d)
  then show ?thesis using sys_inv_send [OF inv, of i w a d "AskRenew w i a (now s)" "belief s"] by simp
next
  case (serve_renew w i a t n db)
  then show ?thesis using sys_inv_serve_renew [OF inv] by simp
next
  case (recv_renew w i a t d)
  then show ?thesis using sys_inv_receive [OF inv, of "Renewed w i a t" w i a t] by simp
next
  case (give_up k)
  show ?thesis
    by (rule sys_inv_evolve [OF inv, where X = "{}"])
      (use give_up sys_invD(1) [OF inv] in \<open>auto simp: evolves_refl split: if_splits\<close>)
next
  case (send_complete i w a d)
  then show ?thesis
    using sys_inv_send [OF inv, of i w a d "AskComplete w i a" "(belief s)((i, w, a) := None)"] by simp
next
  case (send_fail i w a d m delay)
  then show ?thesis
    using sys_inv_send [OF inv, of i w a d "AskFail w i a m delay" "(belief s)((i, w, a) := None)"] by simp
next
  case (serve_complete w i a res db)
  have "evolves {(i, w, a)} {} L (sdb s) (sdb s')" "pg_jobs_ok (sdb s')"
    using evolves_lease_stmts(1) [OF sys_invD(1) [OF inv], of i w a L]
      op_keepsD [OF keeps_ok_stmts(3) sys_invD(1) [OF inv], of i w a] serve_complete by simp_all
  then show ?thesis
    by (rule sys_inv_evolve [OF inv]) (use serve_complete in \<open>auto intro: bexI [of _ "AskComplete w i a"]\<close>)
next
  case (serve_fail w i a m delay res db)
  have "evolves {(i, w, a)} {} L (sdb s) (sdb s')" "pg_jobs_ok (sdb s')"
    using evolves_lease_stmts(3) [OF sys_invD(1) [OF inv], of i w a L "duration_seconds delay" "take 4000 m"]
      op_keepsD [OF keeps_ok_stmts(5) sys_invD(1) [OF inv], of i w a "duration_seconds delay" "take 4000 m"]
      serve_fail by simp_all
  then show ?thesis
    by (rule sys_inv_evolve [OF inv]) (use serve_fail in \<open>auto intro: bexI [of _ "AskFail w i a m delay"]\<close>)
next
  case (lose msg)
  show ?thesis
    by (rule sys_inv_evolve [OF inv, where X = "{}"])
      (use lose sys_invD(1) [OF inv] in \<open>auto simp: evolves_refl\<close>)
qed

lemma reachable_inv: "reachable L t0 s \<Longrightarrow> sys_inv L s"
  by (induction rule: reachable.induct) (auto intro: sys_inv_initial sys_inv_step)

lemma belief_held:
  assumes "reachable L t0 s" and "belief s (i, w, a) = Some d" and "now s \<le> d"
  shows "held_from (sdb s) i w a (d - int L)"
  using sys_invD(7) [OF reachable_inv [OF assms(1)] assms(2)] assms(3) by (simp add: lease_safe_def)

section \<open>What every reachable state guarantees\<close>

text \<open>A run: a job is enqueued, asked for, claimed, and its worker starts the handler.\<close>

definition sample_row :: job_row where
  "sample_row = inserted_job (new_job_new 9 (lit ''user.created'') JNull 3) 3 0"

definition sample_running :: system where
  "sample_running = \<lparr> sdb = \<lparr> users = [], jobs = [take_row (lit ''w'') 0 sample_row], pg_now = 0,
       row_locks = [], faults = [] \<rparr>,
     belief = (\<lambda>k. None)((9, lit ''w'', 1) \<mapsto> 20), net = {}, used = {9},
     started = (\<lambda>i. 0)(9 := 1) \<rparr>"

lemma sample_running_reachable: "reachable 20 0 sample_running"
proof -
  let ?db = "\<lambda>r. \<lparr> users = [], jobs = [r], pg_now = 0, row_locks = [], faults = [] \<rparr> :: pg"
  let ?w = "lit ''w''"
  let ?s = "initial 0\<lparr> sdb := ?db sample_row, used := {9} \<rparr>"
  let ?c = "Claimed ?w 9 1 0"
  have 1: "reachable 20 0 ?s"
    using reachable.step [OF reachable.start, OF sys_step.enqueue
        [where j = "new_job_new 9 (lit ''user.created'') JNull 3" and m = 3 and db = "?db sample_row"], of 0 20]
    by (simp add: initial_def new_job_new_def validate_max_attempts_def insert_job_def sample_row_def
          inserted_job_def job_checks_def btrim_def pg_text_ok_def)
  have 2: "reachable 20 0 (?s\<lparr> net := {AskClaim ?w 0} \<rparr>)"
    using reachable.step [OF 1 sys_step.send_claim [where w = ?w]] by (simp add: initial_def)
  have take: "take_stmt ?w (?db sample_row) = (Inr (Some (take_row ?w 0 sample_row)), ?db (take_row ?w 0 sample_row))"
    by (simp add: queue_eval sample_row_def new_job_new_def)
  have app: "\<exists>j. into_application (take_row ?w 0 sample_row) = Inr j \<and> cj_id j = 9 \<and> cj_attempts j = 1"
    by (simp add: queue_eval sample_row_def new_job_new_def)
  then obtain j where j: "into_application (take_row ?w 0 sample_row) = Inr j" "cj_id j = 9" "cj_attempts j = 1"
    by blast
  have 3: "reachable 20 0 (?s\<lparr> sdb := ?db (take_row ?w 0 sample_row), net := {?c},
      started := (\<lambda>i. 0)(9 := 1) \<rparr>)"
    using reachable.step [OF 2 sys_step.serve_claim
        [where w = ?w and t = 0 and j = j and row = "take_row ?w 0 sample_row"
           and db = "?db (take_row ?w 0 sample_row)"]] take j
    by (simp add: initial_def)
  show ?thesis
    using reachable.step [OF 3 sys_step.recv_claim [where w = ?w and i = 9 and a = 1 and t = 0]]
    by (simp add: initial_def sample_running_def)
qed

text \<open>The same run, continued until the job is completed.\<close>

definition sample_done :: system where
  "sample_done = \<lparr> sdb = \<lparr> users = [], jobs = [complete_row 0 (take_row (lit ''w'') 0 sample_row)],
       pg_now = 0, row_locks = [], faults = [] \<rparr>,
     belief = (\<lambda>k. None), net = {}, used = {9}, started = (\<lambda>i. 0)(9 := 1) \<rparr>"

lemma sample_done_reachable: "reachable 20 0 sample_done"
proof -
  let ?w = "lit ''w''"
  have 1: "reachable 20 0 (sample_running\<lparr> belief := (\<lambda>k. None), net := {AskComplete ?w 9 1} \<rparr>)"
    using reachable.step [OF sample_running_reachable sys_step.send_complete
        [where i = 9 and w = ?w and a = 1 and d = 20]]
    by (simp add: sample_running_def)
  have "complete_stmt 9 ?w 1 (sdb sample_running) = (Inr 1, sdb sample_done)"
    by (simp add: queue_eval sample_done_def sample_running_def sample_row_def new_job_new_def)
  then show ?thesis
    using reachable.step [OF 1 sys_step.serve_complete
        [where i = 9 and w = ?w and a = 1 and res = "Inr 1" and db = "sdb sample_done"]]
    by (simp add: sample_done_def sample_running_def)
qed

text \<open>
  C9. A worker that believes in its lease owns the job.  In every reachable state of the system (any
  number of workers; requests and replies delayed, lost, or executed late; leases recovered, jobs
  purged and enqueued meanwhile), if a handler runs and the deadline of its worker has not passed,
  the job's row is \<open>running\<close>, locked by this worker under this attempt number, and the
  database will not consider the lease expired before that deadline.
\<close>

theorem believed_lease_is_owned:
  assumes "reachable L t0 s" and "belief s (i, w, a) = Some d" and "now s \<le> d"
  shows "\<exists>r u. job_at (sdb s) i = Some r \<and> jr_status r = Running \<and> jr_locked_by r = Some w \<and>
     jr_attempts r = uint a \<and> jr_locked_at r = Some u \<and> d \<le> u + int L"
  using belief_held [OF assms] by (auto simp: held_from_def holds_lease_def)

theorem believed_lease_is_owned_witness:
  "\<exists>r. job_at (sdb sample_running) 9 = Some r \<and> jr_status r = Running \<and> jr_locked_by r = Some (lit ''w'')"
  using believed_lease_is_owned [OF sample_running_reachable, of 9 "lit ''w''" 1 20]
  by (auto simp: sample_running_def)

text \<open>
  C2. At most one worker runs a job at a time.  Two handlers of the same job whose workers' deadlines
  have not passed are the same attempt of the same worker.
\<close>

theorem one_live_attempt_per_job:
  assumes "reachable L t0 s"
    and "belief s (i, w, a) = Some d" and "now s \<le> d"
    and "belief s (i, v, b) = Some e" and "now s \<le> e"
  shows "v = w \<and> b = a"
  using belief_held [OF assms(1-3)] belief_held [OF assms(1,4,5)] holds_lease_unique
  by (auto simp: held_from_def)

theorem one_live_attempt_per_job_witness:
  "{(v, b). \<exists>e. belief sample_running (9, v, b) = Some e \<and> now sample_running \<le> e} = {(lit ''w'', 1)}"
proof -
  have w: "belief sample_running (9, lit ''w'', 1) = Some 20" "now sample_running \<le> 20"
    by (simp_all add: sample_running_def)
  from w one_live_attempt_per_job [OF sample_running_reachable w] show ?thesis by blast
qed

text \<open>
  C15. A job is handed out at most \<open>max_attempts\<close> times.  In every reachable state the attempt
  counter of a stored job is the number of times it was handed to a worker, and that number
  does not exceed the job's limit.
\<close>

theorem attempts_count_executions:
  assumes "reachable L t0 s" and "job_at (sdb s) i = Some r"
  shows "int (started s i) = jr_attempts r \<and> int (started s i) \<le> jr_max_attempts r"
proof -
  note D = sys_invD [OF reachable_inv [OF assms(1)]]
  have "job_row_ok r" using job_row_ok_in [OF D(1)] job_at_Some [OF assms(2)] by blast
  with D(3) [OF assms(2)] show ?thesis by (simp add: job_row_ok_def job_checks_def)
qed

theorem attempts_count_executions_witness:
  "int (started sample_running 9) = jr_attempts (take_row (lit ''w'') 0 sample_row)"
proof -
  have "job_at (sdb sample_running) 9 = Some (take_row (lit ''w'') 0 sample_row)"
    by (simp add: sample_running_def job_at_def sample_row_def inserted_job_def new_job_new_def take_row_def)
  from attempts_count_executions [OF sample_running_reachable this] show ?thesis by simp
qed

section \<open>Finished jobs\<close>

definition is_terminal :: "job_row \<Rightarrow> bool" where
  "is_terminal r \<longleftrightarrow> jr_status r = Completed \<or> jr_status r = Dead"

lemma lease_update_terminal:
  assumes "job_at db k = Some r" and "is_terminal r" and "\<And>r. jr_id (f r) = jr_id r"
  shows "job_at (db\<lparr> jobs := map (\<lambda>r. if holds_lease i w a r then f r else r) (jobs db) \<rparr>) k = Some r"
proof -
  have "\<not> (k = i \<and> leased db i w a)"
    using assms(1,2) by (auto simp: leased_def holds_lease_def is_terminal_def)
  then show ?thesis by (simp only: job_at_lease_update [where f = f, OF assms(3)] if_False assms(1))
qed

lemma reap_terminal:
  assumes ok: "pg_jobs_ok db" and "reap_stmt l db = (res, db')"
    and "job_at db i = Some r" and "is_terminal r"
  shows "job_at db' i = Some r"
proof -
  have "reaped l db db'"
    using reap_stmt_ok(1) [OF ok, of l] assms(2)
    by (auto simp: reaped_def intro: exI [of _ "faults db"])
  moreover have "i \<notin> set (reap_candidates l db)"
    using reap_candidates_sound [OF ok, of r l] job_at_Some [OF assms(3)] assms(4)
    by (auto simp: lease_expired_def is_terminal_def)
  ultimately show ?thesis using reaped_job_at assms(3) by simp
qed

lemma claim_terminal:
  assumes ok: "pg_jobs_ok db" and "take_stmt w db = (Inr (Some row), db')"
    and "job_at db i = Some r" and "is_terminal r"
  shows "job_at db' i = Some r"
proof -
  obtain c where c: "c \<in> set (jobs db)" "claimable db c"
    and at: "\<And>k. job_at db' k = (if k = jr_id c then Some row else job_at db k)"
    by (rule take_stmt_some [OF ok assms(2)]) blast
  have "job_at db (jr_id c) = Some c" using job_at_iff [OF ok] c(1) by simp
  with c(2) assms(3,4) have "i \<noteq> jr_id c" by (auto simp: claimable_def is_terminal_def)
  with at assms(3) show ?thesis by simp
qed

text \<open>
  C20. A finished job is final.  No step of the system changes the row of a completed or dead job in
  any way: late requests, recovery of leases and claims leave it alone, and only a purge removes it.
\<close>

theorem terminal_jobs_stay:
  assumes "reachable L t0 s" and "sys_step L s s'"
    and "job_at (sdb s) i = Some r" and "is_terminal r"
  shows "job_at (sdb s') i = Some r \<or>
     job_at (sdb s') i = None \<and> (\<exists>c d res. purge_stmt c d (sdb s) = (res, sdb s'))"
proof -
  note ok = sys_invD(1) [OF reachable_inv [OF assms(1)]]
  note ids = row_updates_id
  from assms(2) show ?thesis
  proof cases
    case (enqueue j m db)
    then have "db = sdb s\<lparr> jobs := jobs (sdb s) @ [inserted_job j m (now s)] \<rparr>"
      by (auto simp: insert_job_def Let_def split: if_splits)
    with enqueue(1) assms(3) show ?thesis by (simp add: job_at_def find_snoc)
  next
    case (reap res db)
    with reap_terminal [OF ok reap(2) assms(3,4)] show ?thesis by simp
  next
    case (purge c d res db)
    then show ?thesis using purge_job_at [OF ok, of c d] assms(3) by (auto split: if_splits)
  next
    case (serve_claim w t row db j)
    with claim_terminal [OF ok serve_claim(3) assms(3,4)] show ?thesis by simp
  next
    case (serve_renew w i' a t n db)
    then show ?thesis
      using lease_update_terminal [OF assms(3,4), of "renew_row (now s)" i' w a] lease_stmts_ok(2) [OF ok, of i' w a]
      by simp
  next
    case (serve_complete w i' a res db)
    then show ?thesis
      using lease_update_terminal [OF assms(3,4), of "complete_row (now s)" i' w a] lease_stmts_ok(1) [OF ok, of i' w a]
      by simp
  next
    case (serve_fail w i' a m delay res db)
    then show ?thesis
      using lease_update_terminal [OF assms(3,4), of "fail_row (now s) (duration_seconds delay) (take 4000 m)" i' w a]
        lease_stmts_ok(3) [OF ok, of i' w a "duration_seconds delay" "take 4000 m"]
      by simp
  qed (use assms(3) in \<open>simp_all add: job_at_def\<close>)
qed

theorem terminal_jobs_stay_witness:
  "job_at (sdb (sample_done\<lparr> sdb := (sdb sample_done)\<lparr> pg_now := now sample_done + int 5 \<rparr> \<rparr>)) 9 =
     Some (complete_row 0 (take_row (lit ''w'') 0 sample_row)) \<or>
   job_at (sdb (sample_done\<lparr> sdb := (sdb sample_done)\<lparr> pg_now := now sample_done + int 5 \<rparr> \<rparr>)) 9 = None"
proof -
  have at: "job_at (sdb sample_done) 9 = Some (complete_row 0 (take_row (lit ''w'') 0 sample_row))"
    by (simp add: sample_done_def job_at_def complete_row_def take_row_def sample_row_def
          inserted_job_def new_job_new_def)
  have "is_terminal (complete_row 0 (take_row (lit ''w'') 0 sample_row))"
    by (simp add: is_terminal_def complete_row_def)
  from terminal_jobs_stay [OF sample_done_reachable sys_step.tick [where d = 5] at this] show ?thesis
    by (elim disjE conjE) (rule disjI1, assumption, rule disjI2, assumption)
qed

end
