(* ===== verification/Domain_User.thy ===== *)
theory Domain_User
  imports Prelude
begin

text \<open>
  The domain layer, \<open>src/domain/user\<close>: the value objects \<open>UserId\<close>, \<open>Email\<close> and
  \<open>DisplayName\<close> with their parsers, the \<open>UserError\<close> they raise and the \<open>User\<close>
  entity.  UUID parsing and printing belong to the \<open>uuid\<close> crate and are parameters.
\<close>

datatype user_error = InvalidEmail | InvalidDisplayName

datatype user_id = UserId (as_uuid: uuid)

datatype email = Email (email_str: rstring)

datatype display_name = DisplayName (name_str: rstring)

definition user_error_message :: "user_error \<Rightarrow> rstring" where
  "user_error_message e = (case e of
     InvalidEmail \<Rightarrow> lit ''email address is invalid''
   | InvalidDisplayName \<Rightarrow> lit ''display name must contain between 2 and 100 characters'')"

text \<open>\<open>UserId::try_from(&str)\<close> and \<open>Display for UserId\<close>.\<close>

definition user_id_try_from :: "(rstring \<Rightarrow> uuid option) \<Rightarrow> rstring \<Rightarrow> user_id option" where
  "user_id_try_from parse_str value = map_option UserId (parse_str value)"

definition user_id_display :: "(uuid \<Rightarrow> rstring) \<Rightarrow> user_id \<Rightarrow> rstring" where
  "user_id_display display_uuid i = display_uuid (as_uuid i)"

section \<open>Email\<close>

definition email_parse :: "unicode \<Rightarrow> rstring \<Rightarrow> user_error + email" where
  "email_parse U value =
     (let normalized = to_lowercase U (trim value) in
      case split_once 64 normalized of
        None \<Rightarrow> Inl InvalidEmail
      | Some (local_part, domain) \<Rightarrow>
          if local_part = [] \<or> domain = [] \<or> 46 \<notin> set domain \<or> 64 \<in> set domain
             \<or> list_ex (\<lambda>label. label = []) (split_on 46 domain)
             \<or> 254 < utf8_len normalized
             \<or> list_ex is_whitespace normalized
          then Inl InvalidEmail
          else Inr (Email normalized))"

text \<open>
  What an accepted address is, written without the parser: a non-empty local part, one
  \<open>@\<close>, and at least two non-empty dot-separated labels, without whitespace and in at most
  254 bytes.
\<close>

definition valid_email_text :: "rstring \<Rightarrow> bool" where
  "valid_email_text s \<longleftrightarrow>
     (\<exists>local_part labels. s = local_part @ 64 # join_with 46 labels \<and>
        local_part \<noteq> [] \<and> 64 \<notin> set local_part \<and> 2 \<le> length labels \<and>
        (\<forall>l \<in> set labels. l \<noteq> [] \<and> 46 \<notin> set l \<and> 64 \<notin> set l)) \<and>
     utf8_len s \<le> 254 \<and> (\<forall>c \<in> set s. \<not> is_whitespace c)"

lemma set_join_with: "set (join_with c ws) \<subseteq> insert c (\<Union> (set ` set ws))"
  by (induction c ws rule: join_with.induct) auto

lemma join_with_pieces: "w \<in> set ws \<Longrightarrow> set w \<subseteq> set (join_with c ws)"
  by (induction c ws rule: join_with.induct) auto

lemma email_domain_iff:
  "(domain \<noteq> [] \<and> 46 \<in> set domain \<and> 64 \<notin> set domain \<and>
      \<not> list_ex (\<lambda>label. label = []) (split_on 46 domain))
   \<longleftrightarrow> (\<exists>labels. domain = join_with 46 labels \<and> 2 \<le> length labels \<and>
        (\<forall>l \<in> set labels. l \<noteq> [] \<and> 46 \<notin> set l \<and> 64 \<notin> set l))" (is "?L \<longleftrightarrow> ?R")
proof
  assume L: ?L
  have "\<forall>l \<in> set (split_on 46 domain). l \<noteq> [] \<and> 46 \<notin> set l \<and> 64 \<notin> set l"
  proof
    fix l assume l: "l \<in> set (split_on 46 domain)"
    then have "set l \<subseteq> set domain"
      using join_with_pieces [of l "split_on 46 domain" 46] by (simp add: join_split_on)
    with L l show "l \<noteq> [] \<and> 46 \<notin> set l \<and> 64 \<notin> set l"
      by (auto simp: list_ex_iff dest: split_on_pieces)
  qed
  moreover from L have "2 \<le> length (split_on 46 domain)" by (simp add: length_split_on)
  ultimately show ?R by (metis join_split_on)
next
  assume ?R
  then obtain labels where d: "domain = join_with 46 labels" and n: "2 \<le> length labels"
    and l: "\<forall>l \<in> set labels. l \<noteq> [] \<and> 46 \<notin> set l \<and> 64 \<notin> set l" by blast
  from n have ne: "labels \<noteq> []" by auto
  then have sp: "split_on 46 domain = labels" using d l by (auto intro: split_join_with)
  with n have dot: "46 \<in> set domain" by (simp flip: length_split_on)
  from d l set_join_with [of 46 labels] have "64 \<notin> set domain" by auto
  with sp dot l show ?L by (auto simp: list_ex_iff)
qed

lemma email_check_iff:
  "(\<exists>l d. split_once 64 n = Some (l, d) \<and> \<not> (l = [] \<or> d = [] \<or> 46 \<notin> set d \<or> 64 \<in> set d
       \<or> list_ex (\<lambda>label. label = []) (split_on 46 d)
       \<or> 254 < utf8_len n \<or> list_ex is_whitespace n))
   \<longleftrightarrow> valid_email_text n" (is "?L \<longleftrightarrow> ?R")
proof -
  have "?L \<longleftrightarrow> (\<exists>l d. n = l @ 64 # d \<and> l \<noteq> [] \<and> 64 \<notin> set l \<and>
      (d \<noteq> [] \<and> 46 \<in> set d \<and> 64 \<notin> set d \<and> \<not> list_ex (\<lambda>label. label = []) (split_on 46 d))) \<and>
      utf8_len n \<le> 254 \<and> (\<forall>c \<in> set n. \<not> is_whitespace c)"
    by (simp add: split_once_Some list_ex_iff not_less) blast
  also have "\<dots> \<longleftrightarrow> ?R"
    unfolding email_domain_iff valid_email_text_def by blast
  finally show ?thesis .
qed

lemma email_parse_alt:
  "email_parse U v =
     (let n = to_lowercase U (trim v) in
      if valid_email_text n then Inr (Email n) else Inl InvalidEmail)"
proof (cases "split_once 64 (to_lowercase U (trim v))")
  case None
  then have "\<not> valid_email_text (to_lowercase U (trim v))"
    unfolding email_check_iff [symmetric] by simp
  with None show ?thesis by (simp add: email_parse_def Let_def)
next
  case (Some p)
  obtain l d where p: "p = (l, d)" by (cases p)
  show ?thesis
    using Some p unfolding email_check_iff [symmetric] email_parse_def Let_def by simp
qed

lemma valid_email_text_no_whitespace: "valid_email_text s \<Longrightarrow> trim s = s"
  by (rule trim_no_whitespace) (simp add: valid_email_text_def)

lemma valid_email_text_nonempty: "valid_email_text s \<Longrightarrow> s \<noteq> []"
  by (auto simp: valid_email_text_def)

text \<open>The values the type \<open>Email\<close> can hold: its field is private, \<open>parse\<close> its only constructor.\<close>

definition valid_email :: "unicode \<Rightarrow> email \<Rightarrow> bool" where
  "valid_email U e \<longleftrightarrow> (\<exists>v. email_parse U v = Inr e)"

lemma email_parse_reparse:
  "lower_stable U \<Longrightarrow> valid_email U e \<Longrightarrow> email_parse U (email_str e) = Inr e"
  by (auto simp: valid_email_def email_parse_alt Let_def to_lowercase_idem
        valid_email_text_no_whitespace split: if_splits)

text \<open>
  C40. The e-mail parser accepts exactly the intended grammar: \<open>Email::parse\<close> succeeds if and
  only if the trimmed, lowercased input is a non-empty local part, a single \<open>@\<close>, and two or
  more non-empty dot-separated labels, with no whitespace and at most 254 bytes; the value
  is that normalized text, and every other input is \<open>InvalidEmail\<close>.
\<close>

theorem email_parse_exact:
  "email_parse U v =
     (if valid_email_text (to_lowercase U (trim v))
      then Inr (Email (to_lowercase U (trim v))) else Inl InvalidEmail)"
  by (simp add: email_parse_alt Let_def)

text \<open>
  Normalization is stable: re-parsing the text of an accepted e-mail gives the same value.
  Rows read back from the database and entries read back from the cache go through
  \<open>Email::parse\<close> again, and rely on it.
\<close>

theorem email_parse_idempotent:
  assumes "lower_stable U" and "email_parse U v = Inr e"
  shows "email_parse U (email_str e) = Inr e"
  using assms by (intro email_parse_reparse) (auto simp: valid_email_def)

theorem email_parse_idempotent_witness:
  "email_parse sample_unicode (email_str (Email (lit ''ada@example.com''))) =
     Inr (Email (lit ''ada@example.com''))"
proof (rule email_parse_idempotent [OF sample_unicode_stable])
  show "email_parse sample_unicode (lit ''  Ada@Example.COM '') = Inr (Email (lit ''ada@example.com''))"
    by (simp add: email_parse_def Let_def string_eval)
qed

section \<open>Display name\<close>

definition display_name_parse :: "rstring \<Rightarrow> user_error + display_name" where
  "display_name_parse value =
     (let value = trim value; len = length value in
      if \<not> (2 \<le> len \<and> len \<le> 100) then Inl InvalidDisplayName
      else Inr (DisplayName value))"

definition valid_display_name :: "display_name \<Rightarrow> bool" where
  "valid_display_name n \<longleftrightarrow> (\<exists>v. display_name_parse v = Inr n)"

lemma valid_display_name_iff:
  "valid_display_name n \<longleftrightarrow>
     trim (name_str n) = name_str n \<and> 2 \<le> length (name_str n) \<and> length (name_str n) \<le> 100"
proof
  assume "trim (name_str n) = name_str n \<and> 2 \<le> length (name_str n) \<and> length (name_str n) \<le> 100"
  then have "display_name_parse (name_str n) = Inr n"
    by (simp add: display_name_parse_def)
  then show "valid_display_name n" unfolding valid_display_name_def by blast
qed (auto simp: valid_display_name_def display_name_parse_def Let_def split: if_splits)

lemma display_name_reparse:
  "valid_display_name n \<Longrightarrow> display_name_parse (name_str n) = Inr n"
  by (simp add: valid_display_name_iff display_name_parse_def)

section \<open>The user entity\<close>

record user =
  u_id :: user_id
  u_email :: email
  u_display_name :: display_name
  u_created_at :: timestamp
  u_updated_at :: timestamp

text \<open>The clock reading \<open>Utc::now()\<close> and the fresh UUID are inputs.\<close>

definition user_new :: "uuid \<Rightarrow> timestamp \<Rightarrow> email \<Rightarrow> display_name \<Rightarrow> user" where
  "user_new fresh now e n =
     \<lparr> u_id = UserId fresh, u_email = e, u_display_name = n,
       u_created_at = now, u_updated_at = now \<rparr>"

definition user_restore ::
  "user_id \<Rightarrow> email \<Rightarrow> display_name \<Rightarrow> timestamp \<Rightarrow> timestamp \<Rightarrow> user" where
  "user_restore i e n created updated =
     \<lparr> u_id = i, u_email = e, u_display_name = n,
       u_created_at = created, u_updated_at = updated \<rparr>"

definition update_profile :: "timestamp \<Rightarrow> email \<Rightarrow> display_name \<Rightarrow> user \<Rightarrow> user" where
  "update_profile now e n u =
     u\<lparr> u_email := e, u_display_name := n, u_updated_at := now \<rparr>"

definition valid_user :: "unicode \<Rightarrow> user \<Rightarrow> bool" where
  "valid_user U u \<longleftrightarrow> valid_email U (u_email u) \<and> valid_display_name (u_display_name u)"

lemma valid_user_new:
  "email_parse U e = Inr e' \<Longrightarrow> display_name_parse n = Inr n' \<Longrightarrow>
     valid_user U (user_new fresh now e' n')"
  by (auto simp: valid_user_def user_new_def valid_email_def valid_display_name_def)

lemma update_profile_frame:
  "u_id (update_profile now e n u) = u_id u"
  "u_created_at (update_profile now e n u) = u_created_at u"
  by (simp_all add: update_profile_def)

end
