(* ===== verification/App_User.thy ===== *)
theory App_User
  imports Domain_User Job_Model
begin

text \<open>
  The user feature of the application layer, \<open>src/application/user\<close>: inputs and errors
  (\<open>dto.rs\<close>, \<open>error.rs\<close>), the ports (\<open>ports.rs\<close>) as records of operations with the
  contracts of their providers as locales, and the five use cases (\<open>use_cases\<close>).

  The state is a pair of the repository's and the cache's.  Fresh identifiers, the clock and the
  text of a UUID are inputs of the operations that use them.
\<close>

section \<open>Errors and inputs\<close>

datatype repository_error = DuplicateEmail | RepositoryUnavailable | RepositoryNotFound

datatype application_error =
    InvalidInput user_error
  | NotFound
  | EmailAlreadyExists
  | DependencyUnavailable

definition application_error_from :: "repository_error \<Rightarrow> application_error" where
  "application_error_from e = (case e of
     DuplicateEmail \<Rightarrow> EmailAlreadyExists
   | RepositoryNotFound \<Rightarrow> NotFound
   | RepositoryUnavailable \<Rightarrow> DependencyUnavailable)"

datatype cache_error = CacheError (cache_error_message: rstring)

record user_input =
  ui_email :: rstring
  ui_display_name :: rstring

record list_users_input =
  li_page :: u32
  li_per_page :: u32

text \<open>\<open>Ord::clamp\<close>.\<close>

definition u32_clamp :: "u32 \<Rightarrow> u32 \<Rightarrow> u32 \<Rightarrow> u32" where
  "u32_clamp v lo hi = (if v < lo then lo else if hi < v then hi else v)"

definition normalized :: "list_users_input \<Rightarrow> list_users_input" where
  "normalized i = \<lparr> li_page = max (li_page i) 1, li_per_page = u32_clamp (li_per_page i) 1 100 \<rparr>"

definition offset :: "list_users_input \<Rightarrow> u64" where
  "offset i = (let n = normalized i in ucast (li_page n - 1) * ucast (li_per_page n))"

record user_creation_job =
  uj_job_type :: rstring
  uj_payload :: json
  uj_max_attempts :: u32

section \<open>Ports\<close>

record 'd user_repository =
  r_find_by_id :: "user_id \<Rightarrow> ('d, repository_error, user option) op"
  r_list :: "u32 \<Rightarrow> u64 \<Rightarrow> ('d, repository_error, user list) op"
  r_update :: "user_id \<Rightarrow> email \<Rightarrow> display_name \<Rightarrow> ('d, repository_error, user) op"
  r_delete :: "user_id \<Rightarrow> ('d, repository_error, bool) op"
  r_create_with_job :: "user \<Rightarrow> user_creation_job \<Rightarrow> ('d, repository_error, user) op"

record 'c user_cache =
  c_get :: "user_id \<Rightarrow> ('c, cache_error, user option) op"
  c_set :: "user \<Rightarrow> u64 \<Rightarrow> ('c, cache_error, unit) op"
  c_delete :: "user_id \<Rightarrow> ('c, cache_error, unit) op"

text \<open>
  What a repository promises its clients: \<open>stored d\<close> is the map of the users it holds.  A read
  never changes it and answers from it; \<open>NotFound\<close> and \<open>DuplicateEmail\<close> leave it as it
  was.  \<open>Unavailable\<close> promises nothing but the invariant.
\<close>

locale user_repository_contract =
  fixes R :: "'d user_repository"
    and inv :: "'d \<Rightarrow> bool"
    and stored :: "'d \<Rightarrow> user_id \<Rightarrow> user option"
    and U :: unicode
  assumes find_inv: "inv d \<Longrightarrow> inv (snd (r_find_by_id R i d)) \<and> stored (snd (r_find_by_id R i d)) = stored d"
    and find_ok: "inv d \<Longrightarrow> r_find_by_id R i d = (Inr found, d') \<Longrightarrow> found = stored d i"
    and find_error: "inv d \<Longrightarrow> r_find_by_id R i d = (Inl e, d') \<Longrightarrow> e = RepositoryUnavailable"
    and stored_id: "inv d \<Longrightarrow> stored d i = Some u \<Longrightarrow> u_id u = i"
    and stored_valid: "inv d \<Longrightarrow> stored d i = Some u \<Longrightarrow> valid_user U u"
    and update_inv: "inv d \<Longrightarrow> valid_email U em \<Longrightarrow> valid_display_name n \<Longrightarrow> inv (snd (r_update R i em n d))"
    and update_ok: "inv d \<Longrightarrow> valid_email U em \<Longrightarrow> valid_display_name n \<Longrightarrow>
          r_update R i em n d = (Inr u, d') \<Longrightarrow>
          u_id u = i \<and> u_email u = em \<and> u_display_name u = n \<and>
          stored d i \<noteq> None \<and> stored d' = (stored d)(i \<mapsto> u)"
    and update_missing: "inv d \<Longrightarrow> valid_email U em \<Longrightarrow> valid_display_name n \<Longrightarrow>
          r_update R i em n d = (Inl RepositoryNotFound, d') \<Longrightarrow>
          stored d i = None \<and> stored d' = stored d"
    and update_duplicate: "inv d \<Longrightarrow> valid_email U em \<Longrightarrow> valid_display_name n \<Longrightarrow>
          r_update R i em n d = (Inl DuplicateEmail, d') \<Longrightarrow>
          stored d' = stored d"
    and delete_inv: "inv d \<Longrightarrow> inv (snd (r_delete R i d))"
    and delete_ok: "inv d \<Longrightarrow> r_delete R i d = (Inr b, d') \<Longrightarrow>
          (b \<longleftrightarrow> stored d i \<noteq> None) \<and> stored d' = (stored d)(i := None)"
    and delete_error: "inv d \<Longrightarrow> r_delete R i d = (Inl e, d') \<Longrightarrow> e = RepositoryUnavailable"
    and create_inv: "inv d \<Longrightarrow> valid_user U u \<Longrightarrow> inv (snd (r_create_with_job R u j d))"
    and create_ok: "inv d \<Longrightarrow> valid_user U u \<Longrightarrow> r_create_with_job R u j d = (Inr v, d') \<Longrightarrow>
          u_id v = u_id u \<and> u_email v = u_email u \<and> u_display_name v = u_display_name u \<and> stored d (u_id u) = None \<and> stored d' = (stored d)(u_id u \<mapsto> v)"
    and create_duplicate: "inv d \<Longrightarrow> valid_user U u \<Longrightarrow> r_create_with_job R u j d = (Inl DuplicateEmail, d') \<Longrightarrow>
          stored d' = stored d"

text \<open>
  What a cache promises: \<open>cached c i\<close> is what a read may return.  Entries may disappear at any
  time (time to live, eviction); a failed write may or may not have taken effect.
\<close>

locale user_cache_contract =
  fixes C :: "'c user_cache"
    and cinv :: "'c \<Rightarrow> bool"
    and cached :: "'c \<Rightarrow> user_id \<Rightarrow> user option"
    and U :: unicode
  assumes get_inv: "cinv c \<Longrightarrow> cinv (snd (c_get C i c))"
    and get_ok: "cinv c \<Longrightarrow> c_get C i c = (Inr (Some u), c') \<Longrightarrow> cached c i = Some u"
    and get_frame: "cinv c \<Longrightarrow>
          cached (snd (c_get C i c)) k = cached c k \<or> cached (snd (c_get C i c)) k = None"
    and set_inv: "cinv c \<Longrightarrow> cinv (snd (c_set C u ttl c))"
    and set_ok: "cinv c \<Longrightarrow> valid_user U u \<Longrightarrow> c_set C u ttl c = (Inr x, c') \<Longrightarrow>
          cached c' (u_id u) = Some u \<or> cached c' (u_id u) = None"
    and set_frame: "cinv c \<Longrightarrow> valid_user U u \<Longrightarrow>
          cached (snd (c_set C u ttl c)) k = cached c k \<or> cached (snd (c_set C u ttl c)) k = None \<or>
          k = u_id u \<and> cached (snd (c_set C u ttl c)) k = Some u"
    and evict_inv: "cinv c \<Longrightarrow> cinv (snd (c_delete C i c))"
    and evict_ok: "cinv c \<Longrightarrow> c_delete C i c = (Inr x, c') \<Longrightarrow> cached c' i = None"
    and evict_frame: "cinv c \<Longrightarrow>
          cached (snd (c_delete C i c)) k = cached c k \<or> cached (snd (c_delete C i c)) k = None"

section \<open>Use cases\<close>

definition on_db :: "('d, 'e, 'a) op \<Rightarrow> ('d \<times> 'c, 'e, 'a) op" where
  "on_db m s = (case m (fst s) of (r, d) \<Rightarrow> (r, (d, snd s)))"

definition on_cache :: "('c, 'e, 'a) op \<Rightarrow> ('d \<times> 'c, 'e, 'a) op" where
  "on_cache m s = (case m (snd s) of (r, c) \<Rightarrow> (r, (fst s, c)))"

text \<open>A call whose \<open>Result\<close> is inspected instead of propagated.\<close>

definition op_try :: "('s, 'e, 'a) op \<Rightarrow> ('e + 'a \<Rightarrow> ('s, 'f, 'b) op) \<Rightarrow> ('s, 'f, 'b) op" where
  "op_try m f s = (case m s of (r, s') \<Rightarrow> f r s')"

definition create_user :: "unicode \<Rightarrow> 'd user_repository \<Rightarrow> 'c user_cache \<Rightarrow> u64 \<Rightarrow> u32
    \<Rightarrow> (uuid \<Rightarrow> rstring) \<Rightarrow> uuid \<Rightarrow> timestamp \<Rightarrow> user_input
    \<Rightarrow> ('d \<times> 'c, application_error, user) op" where
  "create_user U R C cache_ttl_seconds job_max_attempts display_uuid fresh now input =
     op_bind (lift_result (map_err InvalidInput (email_parse U (ui_email input)))) (\<lambda>email.
     op_bind (lift_result (map_err InvalidInput (display_name_parse (ui_display_name input)))) (\<lambda>name.
     let user = user_new fresh now email name;
         job = \<lparr> uj_job_type = USER_CREATED_JOB,
                 uj_payload = JObject [(lit ''user_id'', JString (user_id_display display_uuid (u_id user)))],
                 uj_max_attempts = job_max_attempts \<rparr> in
     op_bind (op_map_err application_error_from (on_db (r_create_with_job R user job))) (\<lambda>created.
     op_try (on_cache (c_set C created cache_ttl_seconds)) (\<lambda>_. lift_result (Inr created)))))"

definition get_user :: "'d user_repository \<Rightarrow> 'c user_cache \<Rightarrow> u64 \<Rightarrow> user_id
    \<Rightarrow> ('d \<times> 'c, application_error, user) op" where
  "get_user R C cache_ttl_seconds i =
     op_try (on_cache (c_get C i)) (\<lambda>hit. case hit of
       Inr (Some user) \<Rightarrow> lift_result (Inr user)
     | _ \<Rightarrow>
         op_bind (op_map_err application_error_from (on_db (r_find_by_id R i))) (\<lambda>found.
         op_bind (lift_result (ok_or NotFound found)) (\<lambda>user.
         op_try (on_cache (c_set C user cache_ttl_seconds)) (\<lambda>_. lift_result (Inr user)))))"

definition list_users :: "'d user_repository \<Rightarrow> list_users_input
    \<Rightarrow> ('d \<times> 'c, application_error, user list) op" where
  "list_users R input =
     (let input = normalized input in
      op_map_err application_error_from (on_db (r_list R (li_per_page input) (offset input))))"

definition update_user :: "unicode \<Rightarrow> 'd user_repository \<Rightarrow> 'c user_cache \<Rightarrow> u64 \<Rightarrow> user_id
    \<Rightarrow> user_input \<Rightarrow> ('d \<times> 'c, application_error, user) op" where
  "update_user U R C cache_ttl_seconds i input =
     op_bind (lift_result (map_err InvalidInput (email_parse U (ui_email input)))) (\<lambda>email.
     op_bind (lift_result (map_err InvalidInput (display_name_parse (ui_display_name input)))) (\<lambda>name.
     op_bind (op_map_err application_error_from (on_db (r_update R i email name))) (\<lambda>updated.
     op_try (on_cache (c_set C updated cache_ttl_seconds)) (\<lambda>res. case res of
       Inl e \<Rightarrow> op_try (on_cache (c_delete C (u_id updated))) (\<lambda>_. lift_result (Inr updated))
     | Inr u \<Rightarrow> lift_result (Inr updated)))))"

definition delete_user :: "'d user_repository \<Rightarrow> 'c user_cache \<Rightarrow> user_id
    \<Rightarrow> ('d \<times> 'c, application_error, unit) op" where
  "delete_user R C i =
     op_bind (op_map_err application_error_from (on_db (r_delete R i))) (\<lambda>deleted.
       if \<not> deleted then lift_result (Inl NotFound)
       else op_try (on_cache (c_delete C i)) (\<lambda>_. lift_result (Inr ())))"

lemma op_try_eq [op_simps]:
  "op_try m f s = (r, t) \<longleftrightarrow> (\<exists>x s'. m s = (x, s') \<and> f x s' = (r, t))"
  by (auto simp: op_try_def split: prod.splits)

lemma on_db_eq [op_simps]: "on_db m s = (r, t) \<longleftrightarrow> (\<exists>d. m (fst s) = (r, d) \<and> t = (d, snd s))"
  by (auto simp: on_db_def split: prod.splits)

lemma on_cache_eq [op_simps]: "on_cache m s = (r, t) \<longleftrightarrow> (\<exists>c. m (snd s) = (r, c) \<and> t = (fst s, c))"
  by (auto simp: on_cache_def split: prod.splits)

section \<open>Pages\<close>

lemma normalized_bounds:
  "1 \<le> unat (li_page (normalized i)) \<and> 1 \<le> unat (li_per_page (normalized i)) \<and>
   unat (li_per_page (normalized i)) \<le> 100"
  by (auto simp: normalized_def u32_clamp_def max_def word_le_nat_alt word_less_nat_alt)

lemma normalized_twice [simp]: "normalized (normalized i) = normalized i"
  by (auto simp: normalized_def u32_clamp_def max_def word_le_nat_alt word_less_nat_alt)

lemma unat_u32_less: "unat (w :: u32) < 2 ^ 32"
  using unsigned_less [of w] by simp

lemma unat_ucast_u64: "unat (ucast (w :: u32) :: u64) = unat w"
proof -
  have "unat w < 2 ^ 64" using unat_u32_less [of w] by simp
  then show ?thesis by (simp add: unsigned_ucast_eq take_bit_nat_eq_self)
qed

lemma offset_unat:
  "unat (offset i) = (unat (li_page (normalized i)) - 1) * unat (li_per_page (normalized i))"
proof -
  let ?p = "unat (li_page (normalized i))" and ?n = "unat (li_per_page (normalized i))"
  have b: "1 \<le> ?p" "?n \<le> 100" "?p < 2 ^ 32" using normalized_bounds [of i] unat_u32_less by auto
  have p: "unat (li_page (normalized i) - 1) = ?p - 1"
    using b(1) by (simp add: unat_sub word_le_nat_alt)
  have "(?p - 1) * ?n \<le> 2 ^ 32 * 100" using b by (intro mult_mono) auto
  then have "(?p - 1) * ?n < 2 ^ 64" by (rule le_less_trans) simp
  then show ?thesis
    by (simp add: offset_def Let_def unat_word_ariths p unat_ucast_u64)
qed

lemma offset_bound: "unat (offset i) \<le> 429496729400"
proof -
  have "unat (offset i) \<le> 4294967294 * 100"
    unfolding offset_unat using normalized_bounds [of i] unat_u32_less [of "li_page (normalized i)"]
    by (intro mult_mono) auto
  then show ?thesis by simp
qed

text \<open>
  Paging is safe.  Whatever page and page size a client sends, the normalized page is at least 1,
  the page size between 1 and 100, and the offset is exactly \<open>(page - 1) * per_page\<close>: the
  64-bit product never wraps, and normalizing twice changes nothing.
\<close>

theorem paging_is_exact:
  "1 \<le> unat (li_page (normalized i)) \<and> 1 \<le> unat (li_per_page (normalized i)) \<and>
   unat (li_per_page (normalized i)) \<le> 100 \<and> normalized (normalized i) = normalized i \<and>
   unat (offset i) = (unat (li_page (normalized i)) - 1) * unat (li_per_page (normalized i)) \<and>
   unat (offset i) \<le> 429496729400"
proof -
  show ?thesis using normalized_bounds [of i] offset_unat [of i] offset_bound [of i] by simp
qed

section \<open>Cache failures stay inside\<close>

text \<open>
  The cache never decides a write.  Creating, updating and deleting a user return the same
  result and leave the same repository whatever cache is plugged in and whatever it answers: its
  failures are never reported to the client.
\<close>

theorem writes_ignore_cache:
  "fst (create_user U R C ttl m disp fresh now input (d, c)) = fst (create_user U R C' ttl m disp fresh now input (d, c')) \<and>
   fst (snd (create_user U R C ttl m disp fresh now input (d, c))) =
     fst (snd (create_user U R C' ttl m disp fresh now input (d, c'))) \<and>
   fst (update_user U R C ttl i input (d, c)) = fst (update_user U R C' ttl i input (d, c')) \<and>
   fst (snd (update_user U R C ttl i input (d, c))) = fst (snd (update_user U R C' ttl i input (d, c'))) \<and>
   fst (delete_user R C i (d, c)) = fst (delete_user R C' i (d, c')) \<and>
   fst (snd (delete_user R C i (d, c))) = fst (snd (delete_user R C' i (d, c')))"
proof (intro conjI)
  note defs = op_bind_def op_map_err_def lift_result_def on_db_def on_cache_def op_try_def
  show "fst (create_user U R C ttl m disp fresh now input (d, c)) = fst (create_user U R C' ttl m disp fresh now input (d, c'))"
    "fst (snd (create_user U R C ttl m disp fresh now input (d, c))) =
     fst (snd (create_user U R C' ttl m disp fresh now input (d, c')))"
    by (simp_all add: create_user_def defs Let_def split: sum.split prod.split)
  show "fst (update_user U R C ttl i input (d, c)) = fst (update_user U R C' ttl i input (d, c'))"
    "fst (snd (update_user U R C ttl i input (d, c))) = fst (snd (update_user U R C' ttl i input (d, c')))"
    by (simp_all add: update_user_def defs split: sum.split prod.split)
  show "fst (delete_user R C i (d, c)) = fst (delete_user R C' i (d, c'))"
    "fst (snd (delete_user R C i (d, c))) = fst (snd (delete_user R C' i (d, c')))"
    by (simp_all add: delete_user_def defs split: sum.split prod.split)
qed

section \<open>The use cases over any repository and cache\<close>

text \<open>The use cases, unfolded.\<close>

named_theorems use_case_runs \<open>the use cases as one case analysis\<close>

lemma get_user_run [use_case_runs]:
  "get_user R C ttl i (d, c) = (case c_get C i c of (hit, c1) \<Rightarrow>
     (case hit of
        Inr (Some u) \<Rightarrow> (Inr u, d, c1)
      | _ \<Rightarrow> (case r_find_by_id R i d of
            (Inl e, d1) \<Rightarrow> (Inl (application_error_from e), d1, c1)
          | (Inr None, d1) \<Rightarrow> (Inl NotFound, d1, c1)
          | (Inr (Some u), d1) \<Rightarrow> (Inr u, d1, snd (c_set C u ttl c1)))))"
  by (simp add: get_user_def op_try_def on_cache_def on_db_def op_map_err_def op_bind_def lift_result_def
        split: prod.split sum.split option.split)

lemma update_user_run [use_case_runs]:
  "update_user U R C ttl i input (d, c) =
     (case email_parse U (ui_email input) of Inl e \<Rightarrow> (Inl (InvalidInput e), d, c)
      | Inr em \<Rightarrow> (case display_name_parse (ui_display_name input) of Inl e \<Rightarrow> (Inl (InvalidInput e), d, c)
      | Inr n \<Rightarrow> (case r_update R i em n d of
            (Inl e, d1) \<Rightarrow> (Inl (application_error_from e), d1, c)
          | (Inr u, d1) \<Rightarrow> (Inr u, d1,
              case fst (c_set C u ttl c) of
                Inl e \<Rightarrow> snd (c_delete C (u_id u) (snd (c_set C u ttl c)))
              | Inr x \<Rightarrow> snd (c_set C u ttl c)))))"
  by (simp add: update_user_def op_try_def on_cache_def on_db_def op_map_err_def op_bind_def lift_result_def
        split: prod.split sum.split)

definition coherent :: "(user_id \<Rightarrow> user option) \<Rightarrow> (user_id \<Rightarrow> user option) \<Rightarrow> bool" where
  "coherent st ca \<longleftrightarrow> (\<forall>i u. ca i = Some u \<longrightarrow> st i = Some u)"

lemma coherent_drop:
  "coherent st ca \<Longrightarrow> (\<And>k. ca' k = ca k \<or> ca' k = None) \<Longrightarrow> coherent st ca'"
  unfolding coherent_def by (metis option.distinct(1))

lemma coherent_write:
  assumes "coherent st ca" and "\<And>k. k \<noteq> i \<Longrightarrow> ca' k = ca k \<or> ca' k = None"
    and "ca' i = v \<or> ca' i = None"
  shows "coherent (st(i := v)) ca'"
  unfolding coherent_def
proof (intro allI impI)
  fix k u assume ca': "ca' k = Some u"
  show "(st(i := v)) k = Some u"
  proof (cases "k = i")
    case True
    with ca' assms(3) show ?thesis by auto
  next
    case False
    with ca' assms(2) [of k] have "ca k = Some u" by auto
    with assms(1) False show ?thesis by (simp add: coherent_def)
  qed
qed

locale user_service =
  user_repository_contract R inv stored U + user_cache_contract C cinv cached U
  for R :: "'d user_repository" and inv :: "'d \<Rightarrow> bool" and stored :: "'d \<Rightarrow> user_id \<Rightarrow> user option"
    and U :: unicode and C :: "'c user_cache" and cinv :: "'c \<Rightarrow> bool"
    and cached :: "'c \<Rightarrow> user_id \<Rightarrow> user option"
begin

lemma set_coherent:
  assumes "cinv c" and "coherent st (cached c)" and "st (u_id u) = Some u" and "valid_user U u"
  shows "coherent st (cached (snd (c_set C u ttl c)))"
proof -
  note frame = set_frame [OF assms(1,4), of ttl]
  have "coherent (st(u_id u := st (u_id u))) (cached (snd (c_set C u ttl c)))"
  proof (rule coherent_write [OF assms(2)])
    show "cached (snd (c_set C u ttl c)) k = cached c k \<or> cached (snd (c_set C u ttl c)) k = None"
      if "k \<noteq> u_id u" for k
      using frame [of k] that by simp
    show "cached (snd (c_set C u ttl c)) (u_id u) = st (u_id u) \<or>
        cached (snd (c_set C u ttl c)) (u_id u) = None"
    proof (cases "cached c (u_id u)")
      case None
      with frame [of "u_id u"] assms(3) show ?thesis by auto
    next
      case (Some v)
      with assms(2) have "st (u_id u) = Some v" by (simp add: coherent_def)
      with Some frame [of "u_id u"] assms(3) show ?thesis by auto
    qed
  qed
  then show ?thesis by simp
qed

lemma get_user_sound:
  assumes "inv d" and "cinv c" and "coherent (stored d) (cached c)"
    and "get_user R C ttl i (d, c) = (r, d', c')"
  shows "inv d' \<and> cinv c' \<and> stored d' = stored d \<and> coherent (stored d') (cached c') \<and>
     (r = Inl DependencyUnavailable \<or> r = (case stored d i of None \<Rightarrow> Inl NotFound | Some u \<Rightarrow> Inr u))"
proof -
  obtain hit c1 where get: "c_get C i c = (hit, c1)" by fastforce
  have c1: "cinv c1" using get_inv [OF assms(2), of i] get by simp
  have coh1: "coherent (stored d) (cached c1)"
    using coherent_drop [OF assms(3), of "cached c1"] get_frame [OF assms(2), of i] get by simp
  show ?thesis
  proof (cases "\<exists>u. hit = Inr (Some u)")
    case True
    then obtain u where hit: "hit = Inr (Some u)" by blast
    then have "stored d i = Some u"
      using get_ok [OF assms(2)] get assms(3) by (simp add: coherent_def)
    with hit get assms(1,4) coh1 c1 show ?thesis
      by (simp add: get_user_def op_try_def on_cache_def lift_result_def)
  next
    case False
    obtain found d1 where find: "r_find_by_id R i d = (found, d1)" by fastforce
    have d1: "inv d1" "stored d1 = stored d" using find_inv [OF assms(1), of i] find by simp_all
    from False assms(4) get find have run: "(r, d', c') = (case found of
            Inl e \<Rightarrow> (Inl (application_error_from e), d1, c1)
          | Inr None \<Rightarrow> (Inl NotFound, d1, c1)
          | Inr (Some u) \<Rightarrow> (Inr u, d1, snd (c_set C u ttl c1)))"
      by (cases hit) (auto simp: use_case_runs split: option.splits)
    show ?thesis
    proof (cases found)
      case (Inl e)
      with find_error [OF assms(1)] find have "e = RepositoryUnavailable" by blast
      with Inl run d1 coh1 c1 show ?thesis by (simp add: application_error_from_def)
    next
      case (Inr u)
      with find_ok [OF assms(1)] find have u: "u = stored d i" by blast
      show ?thesis
      proof (cases u)
        case None
        with Inr u run d1 coh1 c1 show ?thesis by simp
      next
        case (Some v)
        have v: "stored d (u_id v) = Some v" "valid_user U v"
          using stored_id [OF assms(1)] stored_valid [OF assms(1)] u Some by auto
        with set_coherent [OF c1 coh1 v] set_inv [OF c1] Inr Some run d1 u show ?thesis by simp
      qed
    qed
  qed
qed

lemma update_user_sound:
  assumes "inv d" and "cinv c" and "coherent (stored d) (cached c)"
    and "update_user U R C ttl i input (d, c) = (Inr u, d', c')"
  shows "inv d' \<and> cinv c' \<and> u_id u = i \<and> email_parse U (ui_email input) = Inr (u_email u) \<and>
     display_name_parse (ui_display_name input) = Inr (u_display_name u) \<and> stored d i \<noteq> None \<and>
     stored d' = (stored d)(i \<mapsto> u) \<and>
     coherent ((stored d')(i := None)) ((cached c')(i := None)) \<and>
     (is_ok (fst (c_set C u ttl c)) \<or> is_ok (fst (c_delete C i (snd (c_set C u ttl c)))) \<longrightarrow>
        coherent (stored d') (cached c'))"
proof -
  from assms(4) obtain em n where p: "email_parse U (ui_email input) = Inr em"
    "display_name_parse (ui_display_name input) = Inr n"
    and upd: "r_update R i em n d = (Inr u, d')"
    and c'_id: "c' = (case fst (c_set C u ttl c) of
               Inl e \<Rightarrow> snd (c_delete C (u_id u) (snd (c_set C u ttl c))) | Inr x \<Rightarrow> snd (c_set C u ttl c))"
    by (auto simp: use_case_runs split: sum.splits prod.splits)
  have v: "valid_email U em" "valid_display_name n"
    using p by (auto simp: valid_email_def valid_display_name_def)
  with update_inv [OF assms(1)] upd have inv': "inv d'" by (metis snd_conv)
  note ok = update_ok [OF assms(1) v upd]
  from ok have id: "u_id u = i" by simp
  note c' = c'_id [unfolded id]
  have valid: "valid_user U u" using stored_valid [OF inv', of i u] ok by simp
  let ?c1 = "snd (c_set C u ttl c)" and ?c2 = "snd (c_delete C i (snd (c_set C u ttl c)))"
  have c1: "cinv ?c1" by (rule set_inv [OF assms(2)])
  have cinv': "cinv c'" using c1 evict_inv [OF c1] by (auto simp: c' split: sum.splits)
  have set: "cached ?c1 k = cached c k \<or> cached ?c1 k = None" if "k \<noteq> i" for k
    using set_frame [OF assms(2) valid, of ttl k] ok that by simp
  have del: "cached ?c2 k = cached ?c1 k \<or> cached ?c2 k = None" for k
    by (rule evict_frame [OF c1])
  have frame: "cached c' k = cached c k \<or> cached c' k = None" if "k \<noteq> i" for k
    using set [OF that] del [of k] by (auto simp: c' split: sum.splits)
  have rest: "coherent ((stored d')(i := None)) ((cached c')(i := None))"
    using coherent_write [OF assms(3), of i "(cached c')(i := None)" None] frame ok by simp
  have "coherent (stored d') (cached c')"
    if "is_ok (fst (c_set C u ttl c)) \<or> is_ok (fst (c_delete C i (snd (c_set C u ttl c))))"
  proof -
    have "cached c' i = Some u \<or> cached c' i = None"
    proof (cases "fst (c_set C u ttl c)")
      case (Inr x)
      then have "c_set C u ttl c = (Inr x, ?c1)" by (metis prod.collapse)
      from set_ok [OF assms(2) valid this] Inr ok show ?thesis by (simp add: c')
    next
      case (Inl e)
      with that obtain y where "c_delete C i ?c1 = (Inr y, ?c2)"
        by (metis is_ok.simps(1) is_ok_iff prod.collapse)
      from evict_ok [OF c1 this] Inl show ?thesis by (simp add: c')
    qed
    with coherent_write [OF assms(3) frame] ok show ?thesis by simp
  qed
  with inv' cinv' ok rest p show ?thesis by blast
qed

lemma delete_user_sound:
  assumes "inv d" and "cinv c" and "coherent (stored d) (cached c)"
    and "delete_user R C i (d, c) = (Inr x, d', c')"
  shows "inv d' \<and> cinv c' \<and> stored d i \<noteq> None \<and> stored d' = (stored d)(i := None) \<and>
     (is_ok (fst (c_delete C i c)) \<longrightarrow> coherent (stored d') (cached c'))"
proof -
  from assms(4) have del: "r_delete R i d = (Inr True, d')" and c': "c' = snd (c_delete C i c)"
    by (auto simp: delete_user_def op_simps split: if_splits)
  have inv': "inv d'" using delete_inv [OF assms(1), of i] del by simp
  have cinv': "cinv c'" using evict_inv [OF assms(2)] by (simp add: c')
  note ok = delete_ok [OF assms(1) del]
  have "coherent (stored d') (cached c')" if "is_ok (fst (c_delete C i c))"
  proof -
    from that obtain y where del_c: "c_delete C i c = (Inr y, c')" by (metis c' is_ok_iff prod.collapse)
    from ok have st: "stored d' = (stored d)(i := None)" by simp
    from coherent_write [OF assms(3), of i "cached c'" None] evict_frame [OF assms(2), of i]
      evict_ok [OF assms(2) del_c] c'
    show ?thesis by (simp add: st c')
  qed
  with inv' cinv' ok show ?thesis by simp
qed

lemma create_user_sound:
  assumes "inv d" and "cinv c" and "coherent (stored d) (cached c)"
    and "create_user U R C ttl m disp fresh now input (d, c) = (Inr u, d', c')"
  shows "inv d' \<and> cinv c' \<and> u_id u = UserId fresh \<and> email_parse U (ui_email input) = Inr (u_email u) \<and>
     display_name_parse (ui_display_name input) = Inr (u_display_name u) \<and> stored d (UserId fresh) = None \<and>
     stored d' = (stored d)(UserId fresh \<mapsto> u) \<and> coherent (stored d') (cached c')"
proof -
  from assms(4) obtain em n j where p: "email_parse U (ui_email input) = Inr em"
    "display_name_parse (ui_display_name input) = Inr n"
    and cr: "r_create_with_job R (user_new fresh now em n) j d = (Inr u, d')"
    and c': "c' = snd (c_set C u ttl c)"
    by (auto simp: create_user_def Let_def op_simps result_simps)
  have new: "valid_user U (user_new fresh now em n)" by (rule valid_user_new [OF p])
  from create_inv [OF assms(1) new] cr have inv': "inv d'" by (metis snd_conv)
  have ok: "u_id u = UserId fresh" "stored d (UserId fresh) = None" "stored d' = (stored d)(UserId fresh \<mapsto> u)"
    "u_email u = em" "u_display_name u = n"
    using create_ok [OF assms(1) new cr] by (simp_all add: user_new_def)
  have valid: "valid_user U u" using stored_valid [OF inv', of "UserId fresh" u] ok by simp
  have "coherent (stored d') (cached c)"
    using assms(3) ok unfolding coherent_def by auto
  from set_coherent [OF assms(2) this _ valid] set_inv [OF assms(2)] ok p inv' show ?thesis by (simp add: c')
qed

end

end
