(* ===== verification/User_Repository_Pg.thy ===== *)
theory User_Repository_Pg
  imports App_User Job_Queue_Pg
begin

text \<open>
  The PostgreSQL user repository,
  \<open>src/infrastructure/database/postgres/user_repository.rs\<close>: rows and their conversion, one
  statement per method, and the registration transaction that writes a user and its first job
  together.  \<open>now\<close> is the reading of \<open>Utc::now()\<close>, \<open>fresh\<close> the identifier of the new
  job and \<open>trace\<close> the trace context of the request.
\<close>

section \<open>Rows and errors\<close>

definition user_into_domain :: "unicode \<Rightarrow> user_row \<Rightarrow> repository_error + user" where
  "user_into_domain U r =
     and_then (map_err (\<lambda>_. RepositoryUnavailable) (email_parse U (ur_email r))) (\<lambda>email.
     and_then (map_err (\<lambda>_. RepositoryUnavailable) (display_name_parse (ur_display_name r))) (\<lambda>name.
     Inr (user_restore (UserId (ur_id r)) email name (ur_created_at r) (ur_updated_at r))))"

definition repository_error_from_sqlx :: "sqlx_error \<Rightarrow> repository_error" where
  "repository_error_from_sqlx e = (case e of
     DatabaseError unique constraint \<Rightarrow>
       if unique \<and> (constraint = Some (lit ''users_email_unique'') \<or>
                    constraint = Some (lit ''users_email_key''))
       then DuplicateEmail else RepositoryUnavailable
   | OtherSqlxError \<Rightarrow> RepositoryUnavailable)"

text \<open>\<open>TIMESTAMPTZ\<close> keeps microseconds.\<close>

definition pg_timestamp :: "timestamp \<Rightarrow> timestamp" where
  "pg_timestamp t = t - t mod 1000"

section \<open>Statements\<close>

definition select_user :: "uuid \<Rightarrow> user_row option stmt" where
  "select_user i db = (Inr (find (\<lambda>r. ur_id r = i) (users db)), db)"

definition user_order :: "user_row list \<Rightarrow> user_row list" where
  "user_order rs = rev (sort_key (\<lambda>r. (ur_created_at r, uint (ur_id r))) rs)"

definition list_stmt :: "nat \<Rightarrow> nat \<Rightarrow> user_row list stmt" where
  "list_stmt lim off db = (Inr (take lim (drop off (user_order (users db)))), db)"

definition email_taken :: "pg \<Rightarrow> uuid \<Rightarrow> rstring \<Rightarrow> bool" where
  "email_taken db i email \<longleftrightarrow> (\<exists>r \<in> set (users db). ur_id r \<noteq> i \<and> ur_email r = email)"

definition email_violation :: sqlx_error where
  "email_violation = DatabaseError True (Some (lit ''users_email_unique''))"

definition update_user_stmt :: "uuid \<Rightarrow> rstring \<Rightarrow> rstring \<Rightarrow> timestamp \<Rightarrow> user_row option stmt" where
  "update_user_stmt i email name now db =
     (if \<not> (pg_text_ok email \<and> pg_text_ok name) then (Inl (DatabaseError False None), db)
      else case find (\<lambda>r. ur_id r = i) (users db) of
        None \<Rightarrow> (Inr None, db)
      | Some r \<Rightarrow>
          if email_taken db i email then (Inl email_violation, db)
          else
            let r' = r\<lparr> ur_email := email, ur_display_name := name, ur_updated_at := pg_timestamp now \<rparr> in
            (Inr (Some r'), db\<lparr> users := map (\<lambda>x. if ur_id x = i then r' else x) (users db) \<rparr>))"

definition delete_user_stmt :: "uuid \<Rightarrow> nat stmt" where
  "delete_user_stmt i db =
     (Inr (length (filter (\<lambda>r. ur_id r = i) (users db))),
      db\<lparr> users := filter (\<lambda>r. ur_id r \<noteq> i) (users db) \<rparr>)"

definition inserted_user :: "user \<Rightarrow> user_row" where
  "inserted_user u = \<lparr> ur_id = as_uuid (u_id u), ur_email = email_str (u_email u),
     ur_display_name = name_str (u_display_name u),
     ur_created_at = pg_timestamp (u_created_at u), ur_updated_at = pg_timestamp (u_updated_at u) \<rparr>"

definition insert_user_stmt :: "user \<Rightarrow> user_row stmt" where
  "insert_user_stmt u db =
     (let r = inserted_user u in
      if \<not> (pg_text_ok (ur_email r) \<and> pg_text_ok (ur_display_name r))
      then (Inl (DatabaseError False None), db)
      else if ur_id r \<in> ur_id ` set (users db)
      then (Inl (DatabaseError True (Some (lit ''users_pkey''))), db)
      else if email_taken db (ur_id r) (ur_email r) then (Inl email_violation, db)
      else (Inr r, db\<lparr> users := users db @ [r] \<rparr>))"

section \<open>The methods of the repository\<close>

definition transpose_row :: "unicode \<Rightarrow> user_row option \<Rightarrow> repository_error + user option" where
  "transpose_row U row = (case row of
     None \<Rightarrow> Inr None | Some r \<Rightarrow> map_ok Some (user_into_domain U r))"

definition pg_find_by_id :: "unicode \<Rightarrow> user_id \<Rightarrow> (pg, repository_error, user option) op" where
  "pg_find_by_id U i =
     op_bind (op_map_err repository_error_from_sqlx (exec (select_user (as_uuid i))))
       (\<lambda>row. lift_result (transpose_row U row))"

text \<open>\<open>i64::from(limit)\<close> and \<open>i64::try_from(offset).unwrap_or(i64::MAX)\<close>.\<close>

definition i64_offset :: "u64 \<Rightarrow> nat" where
  "i64_offset v = (if unat v \<le> 9223372036854775807 then unat v else 9223372036854775807)"

definition pg_list :: "unicode \<Rightarrow> u32 \<Rightarrow> u64 \<Rightarrow> (pg, repository_error, user list) op" where
  "pg_list U lim off =
     op_bind (op_map_err repository_error_from_sqlx (exec (list_stmt (unat lim) (i64_offset off))))
       (\<lambda>rows. lift_result (collect_results (user_into_domain U) rows))"

definition pg_update :: "unicode \<Rightarrow> timestamp \<Rightarrow> user_id \<Rightarrow> email \<Rightarrow> display_name
    \<Rightarrow> (pg, repository_error, user) op" where
  "pg_update U now i em n =
     op_bind (op_map_err repository_error_from_sqlx
         (exec (update_user_stmt (as_uuid i) (email_str em) (name_str n) now)))
       (\<lambda>row. lift_result (and_then (ok_or RepositoryNotFound row) (user_into_domain U)))"

definition pg_delete :: "user_id \<Rightarrow> (pg, repository_error, bool) op" where
  "pg_delete i =
     op_bind (op_map_err repository_error_from_sqlx (exec (delete_user_stmt (as_uuid i))))
       (\<lambda>rows_affected. lift_result (Inr (rows_affected = 1)))"

text \<open>
  A transaction works on a copy of the tables that other clients do not see; \<open>COMMIT\<close> makes it
  the state of the database.  An error before that drops the transaction, which rolls it back.
\<close>

definition begin_stmt :: "unit stmt" where
  "begin_stmt db = (Inr (), db)"

definition rolled_back :: "pg \<Rightarrow> pg \<Rightarrow> pg" where
  "rolled_back db0 db = db\<lparr> users := users db0, jobs := jobs db0 \<rparr>"

definition commit_stmt :: "pg \<Rightarrow> unit stmt" where
  "commit_stmt work db = (Inr (), db\<lparr> users := users work, jobs := jobs work \<rparr>)"

definition pg_create_with_job :: "unicode \<Rightarrow> uuid \<Rightarrow> json \<Rightarrow> user \<Rightarrow> user_creation_job
    \<Rightarrow> (pg, repository_error, user) op" where
  "pg_create_with_job U fresh trace u job db =
     (case validate_max_attempts (uj_max_attempts job) of
        None \<Rightarrow> (Inl RepositoryUnavailable, db)
      | Some max_attempts \<Rightarrow>
          let new_job = with_trace_context trace
                (new_job_new fresh (uj_job_type job) (uj_payload job) (uj_max_attempts job)) in
          (case exec begin_stmt db of
             (Inl e, db0) \<Rightarrow> (Inl (repository_error_from_sqlx e), db0)
           | (Inr _, db0) \<Rightarrow>
               (case exec (insert_user_stmt u) db0 of
                  (Inl e, db1) \<Rightarrow> (Inl (repository_error_from_sqlx e), rolled_back db0 db1)
                | (Inr created, db1) \<Rightarrow>
                    (case exec (insert_job new_job max_attempts) db1 of
                       (Inl e, db2) \<Rightarrow> (Inl (repository_error_from_sqlx e), rolled_back db0 db2)
                     | (Inr _, db2) \<Rightarrow>
                         (case exec (commit_stmt db2) (rolled_back db0 db2) of
                            (Inl e, db3) \<Rightarrow> (Inl (repository_error_from_sqlx e), db3)
                          | (Inr _, db3) \<Rightarrow> (user_into_domain U created, db3))))))"

definition pg_user_repository :: "unicode \<Rightarrow> timestamp \<Rightarrow> uuid \<Rightarrow> json \<Rightarrow> pg user_repository" where
  "pg_user_repository U now fresh trace = \<lparr>
     r_find_by_id = pg_find_by_id U, r_list = pg_list U, r_update = pg_update U now,
     r_delete = pg_delete, r_create_with_job = pg_create_with_job U fresh trace \<rparr>"

section \<open>Well-formed users\<close>

definition user_row_ok :: "unicode \<Rightarrow> user_row \<Rightarrow> bool" where
  "user_row_ok U r \<longleftrightarrow> email_parse U (ur_email r) = Inr (Email (ur_email r)) \<and>
     display_name_parse (ur_display_name r) = Inr (DisplayName (ur_display_name r))"

definition pg_users_ok :: "unicode \<Rightarrow> pg \<Rightarrow> bool" where
  "pg_users_ok U db \<longleftrightarrow> lower_stable U \<and> distinct (map ur_id (users db)) \<and>
     distinct (map ur_email (users db)) \<and> (\<forall>r \<in> set (users db). user_row_ok U r)"

definition user_of_row :: "user_row \<Rightarrow> user" where
  "user_of_row r = user_restore (UserId (ur_id r)) (Email (ur_email r)) (DisplayName (ur_display_name r))
     (ur_created_at r) (ur_updated_at r)"

definition user_at :: "pg \<Rightarrow> uuid \<Rightarrow> user_row option" where
  "user_at db i = find (\<lambda>r. ur_id r = i) (users db)"

definition stored_users :: "pg \<Rightarrow> user_id \<Rightarrow> user option" where
  "stored_users db i = map_option user_of_row (user_at db (as_uuid i))"

lemma user_into_domain_ok: "user_row_ok U r \<Longrightarrow> user_into_domain U r = Inr (user_of_row r)"
  by (simp add: user_into_domain_def user_row_ok_def user_of_row_def)

lemma user_into_domain_error: "user_into_domain U r = Inl e \<Longrightarrow> e = RepositoryUnavailable"
  by (auto simp: user_into_domain_def result_simps)

lemma pg_users_ok_faults [simp]: "pg_users_ok U (db\<lparr> faults := fs \<rparr>) = pg_users_ok U db"
  by (simp add: pg_users_ok_def)

lemma user_at_faults [simp]: "user_at (db\<lparr> faults := fs \<rparr>) i = user_at db i"
  by (simp add: user_at_def)

lemma stored_users_faults [simp]: "stored_users (db\<lparr> faults := fs \<rparr>) = stored_users db"
  by (simp add: stored_users_def fun_eq_iff)

lemma user_at_Some: "user_at db i = Some r \<Longrightarrow> r \<in> set (users db) \<and> ur_id r = i"
  by (auto simp: user_at_def find_Some_iff)

lemma user_at_None: "user_at db i = None \<longleftrightarrow> i \<notin> ur_id ` set (users db)"
  by (auto simp: user_at_def find_None_iff)

lemma user_row_ok_in: "pg_users_ok U db \<Longrightarrow> r \<in> set (users db) \<Longrightarrow> user_row_ok U r"
  by (simp add: pg_users_ok_def)

lemma user_row_valid: "user_row_ok U r \<Longrightarrow> valid_user U (user_of_row r)"
  by (auto simp: user_row_ok_def valid_user_def user_of_row_def user_restore_def valid_email_def
        valid_display_name_def)

lemma valid_user_row:
  assumes "lower_stable U" and "valid_user U u"
  shows "user_row_ok U (inserted_user u)"
  using assms email_parse_reparse [of U "u_email u"] display_name_reparse [of "u_display_name u"]
  by (simp add: user_row_ok_def inserted_user_def valid_user_def)

section \<open>Effects of the statements\<close>

lemma user_at_append: "user_at (db\<lparr> users := users db @ [r] \<rparr>) i =
    (case user_at db i of Some x \<Rightarrow> Some x | None \<Rightarrow> if ur_id r = i then Some r else None)"
proof -
  have "find P (xs @ [x]) = (case find P xs of Some y \<Rightarrow> Some y | None \<Rightarrow> if P x then Some x else None)"
    for P :: "user_row \<Rightarrow> bool" and xs x by (induction xs) auto
  then show ?thesis by (simp add: user_at_def)
qed

lemma user_at_map:
  assumes "ur_id r' = i"
  shows "user_at (db\<lparr> users := map (\<lambda>x. if ur_id x = i then r' else x) (users db) \<rparr>) k =
    (if k = i then map_option (\<lambda>_. r') (user_at db i) else user_at db k)"
proof -
  have "find (\<lambda>r. ur_id r = k) (map (\<lambda>x. if ur_id x = i then r' else x) xs) =
      (if k = i then map_option (\<lambda>_. r') (find (\<lambda>r. ur_id r = i) xs) else find (\<lambda>r. ur_id r = k) xs)" for xs
    using assms by (induction xs) auto
  then show ?thesis by (simp add: user_at_def)
qed

lemma user_at_filter:
  "user_at (db\<lparr> users := filter (\<lambda>r. ur_id r \<noteq> i) (users db) \<rparr>) k = (if k = i then None else user_at db k)"
proof -
  have "find (\<lambda>r. ur_id r = k) (filter (\<lambda>r. ur_id r \<noteq> i) xs) = (if k = i then None else find (\<lambda>r. ur_id r = k) xs)" for xs
    by (induction xs) auto
  from this [of "users db"] show ?thesis by (simp add: user_at_def)
qed

lemma update_user_stmt_eq:
  "update_user_stmt i em n now db =
     (if \<not> (pg_text_ok em \<and> pg_text_ok n) then (Inl (DatabaseError False None), db)
      else case user_at db i of
        None \<Rightarrow> (Inr None, db)
      | Some r \<Rightarrow>
          if email_taken db i em then (Inl email_violation, db)
          else
            let r' = r\<lparr> ur_email := em, ur_display_name := n, ur_updated_at := pg_timestamp now \<rparr> in
            (Inr (Some r'), db\<lparr> users := map (\<lambda>x. if ur_id x = i then r' else x) (users db) \<rparr>))"
  by (simp add: update_user_stmt_def user_at_def)

lemma distinct_map_update:
  assumes "distinct (map g xs)" and "\<And>x. x \<in> set xs \<Longrightarrow> h x = i \<Longrightarrow> x = x0"
    and "\<And>x. x \<in> set xs \<Longrightarrow> h x \<noteq> i \<Longrightarrow> g x \<noteq> g r'"
  shows "distinct (map (\<lambda>x. g (if h x = i then r' else x)) xs)"
  using assms
proof (induction xs)
  case (Cons x xs)
  then have IH: "distinct (map (\<lambda>x. g (if h x = i then r' else x)) xs)" by simp
  have "g (if h x = i then r' else x) \<notin> (\<lambda>x. g (if h x = i then r' else x)) ` set xs"
  proof
    assume "g (if h x = i then r' else x) \<in> (\<lambda>x. g (if h x = i then r' else x)) ` set xs"
    then obtain y where y: "y \<in> set xs" "g (if h x = i then r' else x) = g (if h y = i then r' else y)" by blast
    with Cons.prems(1) have ne: "g x \<noteq> g y" by auto
    show False
    proof (cases "h x = i")
      case True
      with Cons.prems(2) [of x] have x: "x = x0" by simp
      show False
      proof (cases "h y = i")
        case True
        with Cons.prems(2) [of y] y x ne show False by simp
      next
        case False
        with Cons.prems(3) [of y] y \<open>h x = i\<close> show False by simp
      qed
    next
      case False
      with Cons.prems(3) [of x] y ne show False by (auto split: if_splits)
    qed
  qed
  with IH show ?case by simp
qed simp

lemma update_user_ok:
  assumes "pg_users_ok U db" and "valid_email U em" and "valid_display_name n"
  shows "pg_users_ok U (snd (update_user_stmt i (email_str em) (name_str n) now db))"
proof (cases "snd (update_user_stmt i (email_str em) (name_str n) now db) = db")
  case False
  then obtain r where r: "user_at db i = Some r" and free: "\<not> email_taken db i (email_str em)"
    by (auto simp: update_user_stmt_eq Let_def split: if_splits option.splits)
  let ?r = "r\<lparr> ur_email := email_str em, ur_display_name := name_str n, ur_updated_at := pg_timestamp now \<rparr>"
  have db': "snd (update_user_stmt i (email_str em) (name_str n) now db) =
      db\<lparr> users := map (\<lambda>x. if ur_id x = i then ?r else x) (users db) \<rparr>"
    using False r free by (auto simp: update_user_stmt_eq Let_def split: if_splits)
  have id: "ur_id r = i" using user_at_Some [OF r] by simp
  have one: "x = r" if "x \<in> set (users db)" "ur_id x = i" for x
    using assms(1) that user_at_Some [OF r] by (auto simp: pg_users_ok_def distinct_map dest: inj_onD)
  have ids: "map ur_id (map (\<lambda>x. if ur_id x = i then ?r else x) (users db)) = map ur_id (users db)"
    using id by simp
  have emails: "distinct (map (\<lambda>x. ur_email (if ur_id x = i then ?r else x)) (users db))"
    by (rule distinct_map_update [where ?x0.0 = r])
      (use assms(1) one free in \<open>auto simp: pg_users_ok_def email_taken_def\<close>)
  have "user_row_ok U ?r"
    using assms email_parse_reparse [of U em] display_name_reparse [of n]
    by (simp add: user_row_ok_def pg_users_ok_def)
  moreover have "distinct (map ur_email (map (\<lambda>x. if ur_id x = i then ?r else x) (users db)))"
    using emails by (simp add: o_def)
  moreover have "distinct (map ur_id (map (\<lambda>x. if ur_id x = i then ?r else x) (users db)))"
    unfolding ids using assms(1) by (simp add: pg_users_ok_def)
  ultimately show ?thesis
    using assms(1) unfolding db' by (auto simp: pg_users_ok_def simp del: map_map distinct_map)
qed (use assms in simp)

lemma insert_user_ok:
  assumes "pg_users_ok U db" and "valid_user U u"
  shows "pg_users_ok U (snd (insert_user_stmt u db))"
proof (cases "snd (insert_user_stmt u db) = db")
  case False
  then have "snd (insert_user_stmt u db) = db\<lparr> users := users db @ [inserted_user u] \<rparr>"
    "ur_id (inserted_user u) \<notin> ur_id ` set (users db)"
    "\<not> email_taken db (ur_id (inserted_user u)) (ur_email (inserted_user u))"
    by (auto simp: insert_user_stmt_def Let_def split: if_splits)
  moreover from this(2,3) have "ur_email (inserted_user u) \<notin> ur_email ` set (users db)"
    by (auto simp: email_taken_def image_iff) metis
  ultimately show ?thesis
    using assms valid_user_row [of U u] by (simp add: pg_users_ok_def)
qed (use assms in simp)

lemma delete_user_ok: "pg_users_ok U db \<Longrightarrow> pg_users_ok U (snd (delete_user_stmt i db))"
  by (auto simp: pg_users_ok_def delete_user_stmt_def distinct_map_filter)

section \<open>The registration transaction\<close>

lemma insert_user_result:
  "insert_user_stmt u db = (Inr r, db') \<Longrightarrow> r = inserted_user u \<and>
     db' = db\<lparr> users := users db @ [r] \<rparr> \<and> ur_id r \<notin> ur_id ` set (users db) \<and>
     \<not> email_taken db (ur_id r) (ur_email r)"
  by (auto simp: insert_user_stmt_def Let_def split: if_splits)

lemma insert_job_result:
  "insert_job j m db = (Inr x, db') \<Longrightarrow> db' = db\<lparr> jobs := jobs db @ [inserted_job j m (pg_now db)] \<rparr> \<and>
     nj_id j \<notin> jr_id ` set (jobs db) \<and> job_checks (inserted_job j m (pg_now db))"
  by (auto simp: insert_job_def Let_def split: if_splits)

lemma frame_exec:
  assumes "\<And>d. P d (snd (st d))" and "\<And>d. P d d"
  shows "\<exists>fs. P (db\<lparr> faults := fs \<rparr>) (snd (exec st db))"
  by (rule exec_cases [of st db]) (use assms in \<open>auto\<close>)

definition same_but_tables :: "pg \<Rightarrow> pg \<Rightarrow> bool" where
  "same_but_tables db db' \<longleftrightarrow> pg_now db' = pg_now db \<and> row_locks db' = row_locks db"

lemma frame_inserts:
  "same_but_tables db (snd (exec (insert_user_stmt u) db))"
  "same_but_tables db (snd (exec (insert_job j m) db))"
proof -
  have "\<exists>fs. same_but_tables (db\<lparr> faults := fs \<rparr>) (snd (exec (insert_user_stmt u) db))"
    by (rule frame_exec) (simp_all add: same_but_tables_def insert_user_stmt_def Let_def)
  then show "same_but_tables db (snd (exec (insert_user_stmt u) db))"
    by (simp add: same_but_tables_def)
  have "\<exists>fs. same_but_tables (db\<lparr> faults := fs \<rparr>) (snd (exec (insert_job j m) db))"
    by (rule frame_exec) (simp_all add: same_but_tables_def insert_job_def Let_def)
  then show "same_but_tables db (snd (exec (insert_job j m) db))"
    by (simp add: same_but_tables_def)
qed

lemma rolled_back_eq:
  "same_but_tables db0 db \<Longrightarrow> rolled_back db0 db = db0\<lparr> faults := faults db \<rparr>"
  by (rule pg.equality) (simp_all add: rolled_back_def same_but_tables_def)

text \<open>The two possible effects of the transaction: none, or both rows.\<close>

text \<open>The configuration admits limits that no job can be stored with.\<close>

theorem oversized_attempts_fail:
  "2147483647 < uint (uj_max_attempts job) \<Longrightarrow>
     pg_create_with_job U fresh trace u job db = (Inl RepositoryUnavailable, db)"
  by (simp add: pg_create_with_job_def validate_max_attempts_def)

lemma pg_create_cases:
  assumes "pg_create_with_job U fresh trace u job db = (r, db')"
  obtains (rolled_back) fs e where "db' = db\<lparr> faults := fs \<rparr>" and "r = Inl e"
    | (committed) fs m where "db' = db\<lparr> faults := fs, users := users db @ [inserted_user u],
          jobs := jobs db @ [inserted_job (with_trace_context trace (new_job_new fresh (uj_job_type job)
            (uj_payload job) (uj_max_attempts job))) m (pg_now db)] \<rparr>"
        and "validate_max_attempts (uj_max_attempts job) = Some m"
        and "ur_id (inserted_user u) \<notin> ur_id ` set (users db)"
        and "\<not> email_taken db (ur_id (inserted_user u)) (ur_email (inserted_user u))"
        and "r = Inl RepositoryUnavailable \<or> r = user_into_domain U (inserted_user u)"
        and "fresh \<notin> jr_id ` set (jobs db)"
        and "job_checks (inserted_job (with_trace_context trace (new_job_new fresh (uj_job_type job)
            (uj_payload job) (uj_max_attempts job))) m (pg_now db))"
proof (cases "validate_max_attempts (uj_max_attempts job)")
  case None
  with assms show thesis
    by (intro rolled_back [where fs = "faults db" and e = RepositoryUnavailable]) (simp_all add: pg_create_with_job_def)
next
  case (Some m)
  let ?j = "with_trace_context trace (new_job_new fresh (uj_job_type job) (uj_payload job) (uj_max_attempts job))"
  obtain b db0 where b: "exec begin_stmt db = (b, db0)" by fastforce
  obtain c db1 where c: "exec (insert_user_stmt u) db0 = (c, db1)" by fastforce
  obtain d db2 where d: "exec (insert_job ?j m) db1 = (d, db2)" by fastforce
  obtain e db3 where e: "exec (commit_stmt db2) (rolled_back db0 db2) = (e, db3)" by fastforce
  note run = assms [unfolded pg_create_with_job_def Some option.case Let_def b prod.case]
  have db0: "\<exists>fs. db0 = db\<lparr> faults := fs \<rparr>"
    by (rule exec_cases [of begin_stmt db]) (use b in \<open>auto simp: begin_stmt_def\<close>)
  have frame: "same_but_tables db0 db1" "same_but_tables db0 db2"
    using frame_inserts(1) [of db0 u] frame_inserts(2) [of db1 ?j m] c d
    by (simp_all add: same_but_tables_def)
  have undone: "\<exists>fs. rolled_back db0 x = db\<lparr> faults := fs \<rparr>" if "x = db1 \<or> x = db2" for x
    using that db0 frame rolled_back_eq by auto
  show thesis
  proof (cases b)
    case (Inl x)
    with run db0 show thesis by (auto intro: rolled_back)
  next
    case (Inr x)
    note run = run [unfolded Inr sum.case c prod.case]
    show thesis
    proof (cases c)
      case (Inl x)
      with run undone [of db1] show thesis by (auto intro: rolled_back)
    next
      case (Inr created)
      note run = run [unfolded Inr sum.case d prod.case]
      from exec_Inr [OF c [unfolded Inr]] obtain fs where
        "insert_user_stmt u (db0\<lparr> faults := fs \<rparr>) = (Inr created, db1)" ..
      from insert_user_result [OF this] have ins: "created = inserted_user u"
        "db1 = db0\<lparr> faults := fs, users := users db0 @ [created] \<rparr>"
        "ur_id created \<notin> ur_id ` set (users db0)" "\<not> email_taken db0 (ur_id created) (ur_email created)"
        by (auto simp: email_taken_def)
      show thesis
      proof (cases d)
        case (Inl x)
        with run undone [of db2] show thesis by (auto intro: rolled_back)
      next
        case (Inr x)
        note run = run [unfolded Inr sum.case e prod.case]
        from exec_Inr [OF d [unfolded Inr]] obtain gs where
          "insert_job ?j m (db1\<lparr> faults := gs \<rparr>) = (Inr x, db2)" ..
        from insert_job_result [OF this] have job:
          "db2 = db1\<lparr> faults := gs, jobs := jobs db1 @ [inserted_job ?j m (pg_now db1)] \<rparr>" by simp
        have fin: "\<exists>hs. snd (commit_stmt db2 ((rolled_back db0 db2)\<lparr> faults := hs0 \<rparr>)) =
            db\<lparr> faults := hs, users := users db @ [inserted_user u],
                jobs := jobs db @ [inserted_job ?j m (pg_now db)] \<rparr>" for hs0
          using db0 ins job by (auto simp: commit_stmt_def rolled_back_def)
        have free: "ur_id (inserted_user u) \<notin> ur_id ` set (users db)"
          "\<not> email_taken db (ur_id (inserted_user u)) (ur_email (inserted_user u))"
          using ins db0 by (auto simp: email_taken_def)
        have job_ok: "fresh \<notin> jr_id ` set (jobs db)" "job_checks (inserted_job ?j m (pg_now db))"
          using insert_job_result [OF \<open>insert_job ?j m (db1\<lparr> faults := gs \<rparr>) = (Inr x, db2)\<close>] ins db0
          by (auto simp: with_trace_context_def new_job_new_def)
        show thesis
        proof (cases rule: exec_cases [of "commit_stmt db2" "rolled_back db0 db2"])
          case (ran hs)
          with e have "db3 = snd (commit_stmt db2 ((rolled_back db0 db2)\<lparr> faults := hs \<rparr>))" "is_ok e"
            by (auto simp: commit_stmt_def)
          moreover from this run ins(1) have "db' = db3" "r = user_into_domain U (inserted_user u)"
            by (auto simp: is_ok_iff)
          moreover obtain ks where "snd (commit_stmt db2 ((rolled_back db0 db2)\<lparr> faults := hs \<rparr>)) =
              db\<lparr> faults := ks, users := users db @ [inserted_user u],
                  jobs := jobs db @ [inserted_job ?j m (pg_now db)] \<rparr>" using fin by blast
          ultimately show thesis
            using committed [OF _ Some free _ job_ok, of ks] by simp
        next
          case (lost hs)
          with e run undone [of db2] show thesis by (auto intro: rolled_back)
        next
          case (unacked hs)
          with e have "db3 = snd (commit_stmt db2 ((rolled_back db0 db2)\<lparr> faults := hs \<rparr>))"
            "e = Inl OtherSqlxError" by (simp_all add: commit_stmt_def)
          moreover from this run have "db' = db3" "r = Inl RepositoryUnavailable"
            by (simp_all add: repository_error_from_sqlx_def)
          moreover obtain ks where "snd (commit_stmt db2 ((rolled_back db0 db2)\<lparr> faults := hs \<rparr>)) =
              db\<lparr> faults := ks, users := users db @ [inserted_user u],
                  jobs := jobs db @ [inserted_job ?j m (pg_now db)] \<rparr>" using fin by blast
          ultimately show thesis
            using committed [OF _ Some free _ job_ok, of ks] by simp
        qed
      qed
    qed
  qed
qed

section \<open>The repository satisfies the contract of the port\<close>

lemma answered_user_call:
  assumes "op_bind (op_map_err repository_error_from_sqlx (exec st)) k db = (r, db')"
    and "r \<noteq> Inl RepositoryUnavailable"
  obtains fs v db1 where "st (db\<lparr> faults := fs \<rparr>) = (v, db1)"
    and "case v of Inl e \<Rightarrow> r = Inl (repository_error_from_sqlx e) \<and> db' = db1 | Inr x \<Rightarrow> k x db1 = (r, db')"
proof (cases rule: exec_cases [of st db])
  case (ran fs)
  obtain v db1 where "st (db\<lparr> faults := fs \<rparr>) = (v, db1)" by fastforce
  with ran assms(1) show thesis
    by (intro that [of fs v db1]) (cases v; simp add: op_bind_def op_map_err_def)+
qed (use assms in \<open>auto simp: op_bind_def op_map_err_def repository_error_from_sqlx_def\<close>)

lemma keeps_select [keeps]: "op_keeps P (select_user i)" "op_keeps P (list_stmt l off)"
  by (simp_all add: op_keeps_def select_user_def list_stmt_def)

lemma keeps_users_ok:
  "op_keeps (pg_users_ok U) (pg_find_by_id U i)"
  "op_keeps (pg_users_ok U) (pg_list U l off)"
  "op_keeps (pg_users_ok U) (pg_delete i)"
  "valid_email U em \<Longrightarrow> valid_display_name n \<Longrightarrow> op_keeps (pg_users_ok U) (pg_update U now i em n)"
proof -
  have del: "op_keeps (pg_users_ok U) (delete_user_stmt j)" for j
    by (intro op_keepsI delete_user_ok)
  show "op_keeps (pg_users_ok U) (pg_find_by_id U i)" "op_keeps (pg_users_ok U) (pg_list U l off)"
    "op_keeps (pg_users_ok U) (pg_delete i)"
    unfolding pg_find_by_id_def pg_list_def pg_delete_def by (intro keeps del; simp)+
  assume v: "valid_email U em" "valid_display_name n"
  have "op_keeps (pg_users_ok U) (update_user_stmt j (email_str em) (name_str n) now)" for j
    by (intro op_keepsI update_user_ok v)
  then show "op_keeps (pg_users_ok U) (pg_update U now i em n)"
    unfolding pg_update_def by (intro keeps) simp_all
qed

lemma find_keeps_stored: "stored_users (snd (pg_find_by_id U i db)) = stored_users db"
proof (cases rule: exec_cases [of "select_user (as_uuid i)" db])
  case (ran fs)
  then show ?thesis
    by (simp add: pg_find_by_id_def op_bind_def op_map_err_def select_user_def lift_result_def)
next
  case (lost fs)
  then show ?thesis by (simp add: pg_find_by_id_def op_bind_def op_map_err_def)
next
  case (unacked fs)
  then show ?thesis by (simp add: pg_find_by_id_def op_bind_def op_map_err_def select_user_def)
qed

lemma find_result:
  assumes "pg_users_ok U db" and "pg_find_by_id U i db = (r, db')"
  shows "r = Inl RepositoryUnavailable \<or> r = Inr (stored_users db i)"
proof (cases "r = Inl RepositoryUnavailable")
  case False
  obtain fs v db1 where st: "select_user (as_uuid i) (db\<lparr> faults := fs \<rparr>) = (v, db1)"
    and k: "case v of Inl e \<Rightarrow> r = Inl (repository_error_from_sqlx e) \<and> db' = db1
              | Inr x \<Rightarrow> lift_result (transpose_row U x) db1 = (r, db')"
    by (rule answered_user_call [OF assms(2) [unfolded pg_find_by_id_def] False])
  from st have v: "v = Inr (user_at db (as_uuid i))" by (auto simp: select_user_def user_at_def)
  with k have r: "r = transpose_row U (user_at db (as_uuid i))" by (simp add: lift_result_def)
  show ?thesis
  proof (cases "user_at db (as_uuid i)")
    case None
    with r show ?thesis by (simp add: transpose_row_def stored_users_def)
  next
    case (Some x)
    with user_at_Some user_row_ok_in [OF assms(1)] have "user_row_ok U x" by blast
    with r Some show ?thesis by (simp add: transpose_row_def stored_users_def user_into_domain_ok)
  qed
qed simp

lemma find_available:
  assumes "pg_users_ok U db" and "faults db = []"
  shows "fst (pg_find_by_id U i db) = Inr (stored_users db i)"
proof -
  have "fst (pg_find_by_id U i db) \<noteq> Inl RepositoryUnavailable"
  proof (cases "user_at db (as_uuid i)")
    case (Some x)
    with user_at_Some [OF Some] assms(1) have "user_into_domain U x = Inr (user_of_row x)"
      using user_into_domain_ok by (simp add: pg_users_ok_def)
    with Some show ?thesis
      by (simp add: pg_find_by_id_def op_bind_def op_map_err_def lift_result_def exec_no_faults assms(2)
          select_user_def user_at_def transpose_row_def)
  qed (simp add: pg_find_by_id_def op_bind_def op_map_err_def lift_result_def exec_no_faults assms(2)
      select_user_def user_at_def transpose_row_def)
  with find_result [OF assms(1) prod.collapse [symmetric], of i] show ?thesis by blast
qed

lemma stored_users_update:
  assumes "user_at db (as_uuid i) = Some r" and "ur_id r' = as_uuid i"
  shows "stored_users (db\<lparr> users := map (\<lambda>x. if ur_id x = as_uuid i then r' else x) (users db) \<rparr>) =
    (stored_users db)(i \<mapsto> user_of_row r')"
proof (rule ext)
  fix k
  show "stored_users (db\<lparr> users := map (\<lambda>x. if ur_id x = as_uuid i then r' else x) (users db) \<rparr>) k =
      ((stored_users db)(i \<mapsto> user_of_row r')) k"
    using assms by (cases k; cases i) (auto simp: stored_users_def user_at_map)
qed

lemma update_result:
  assumes "pg_users_ok U db" and v: "valid_email U em" "valid_display_name n"
    and "pg_update U now i em n db = (r, db')" and "r \<noteq> Inl RepositoryUnavailable"
  shows "r = Inl RepositoryNotFound \<and> stored_users db i = None \<and> stored_users db' = stored_users db \<or>
     r = Inl DuplicateEmail \<and> email_taken db (as_uuid i) (email_str em) \<and>
       stored_users db' = stored_users db \<or>
     (\<exists>u. r = Inr u \<and> u_id u = i \<and> u_email u = em \<and> u_display_name u = n \<and>
       stored_users db i \<noteq> None \<and> stored_users db' = (stored_users db)(i \<mapsto> u))"
proof -
  let ?st = "update_user_stmt (as_uuid i) (email_str em) (name_str n) now"
  obtain fs v db1 where st: "?st (db\<lparr> faults := fs \<rparr>) = (v, db1)"
    and k: "case v of Inl e \<Rightarrow> r = Inl (repository_error_from_sqlx e) \<and> db' = db1
              | Inr x \<Rightarrow> lift_result (and_then (ok_or RepositoryNotFound x) (user_into_domain U)) db1 = (r, db')"
    by (rule answered_user_call [OF assms(4) [unfolded pg_update_def] assms(5)])
  have ok: "pg_text_ok (email_str em) \<and> pg_text_ok (name_str n)"
    using st k assms(5) by (auto simp: update_user_stmt_eq repository_error_from_sqlx_def split: if_splits)
  show ?thesis
  proof (cases "user_at db (as_uuid i)")
    case None
    with st ok have "v = Inr None" "db1 = db\<lparr> faults := fs \<rparr>" by (auto simp: update_user_stmt_eq)
    with k None show ?thesis by (auto simp: lift_result_def stored_users_def)
  next
    case (Some x)
    show ?thesis
    proof (cases "email_taken db (as_uuid i) (email_str em)")
      case True
      then have "email_taken (db\<lparr> faults := fs \<rparr>) (as_uuid i) (email_str em)" by (simp add: email_taken_def)
      with st ok Some have "v = Inl email_violation" "db1 = db\<lparr> faults := fs \<rparr>"
        by (auto simp: update_user_stmt_eq)
      with k True show ?thesis by (auto simp: email_violation_def repository_error_from_sqlx_def)
    next
      case False
      let ?x = "x\<lparr> ur_email := email_str em, ur_display_name := name_str n, ur_updated_at := pg_timestamp now \<rparr>"
      from False have "\<not> email_taken (db\<lparr> faults := fs \<rparr>) (as_uuid i) (email_str em)"
        by (simp add: email_taken_def)
      with st ok Some have v': "v = Inr (Some ?x)"
        and db1: "db1 = db\<lparr> faults := fs, users := map (\<lambda>y. if ur_id y = as_uuid i then ?x else y) (users db) \<rparr>"
        by (auto simp: update_user_stmt_eq Let_def)
      have id: "ur_id ?x = as_uuid i" using user_at_Some [OF Some] by simp
      have "user_row_ok U ?x"
        using assms(1) v email_parse_reparse [of U em] display_name_reparse [of n]
        by (simp add: user_row_ok_def pg_users_ok_def)
      from user_into_domain_ok [OF this] k v' have r: "r = Inr (user_of_row ?x)" "db' = db1"
        by (auto simp: lift_result_def)
      have "stored_users db' = (stored_users db)(i \<mapsto> user_of_row ?x)"
        using stored_users_update [of "db\<lparr> faults := fs \<rparr>" i x ?x] Some id by (simp add: r db1)
      moreover have "u_id (user_of_row ?x) = i \<and> u_email (user_of_row ?x) = em \<and> u_display_name (user_of_row ?x) = n"
        using id by (simp add: user_of_row_def user_restore_def)
      moreover have "stored_users db i \<noteq> None" using Some by (simp add: stored_users_def)
      ultimately show ?thesis using r(1) by blast
    qed
  qed
qed

lemma delete_result:
  assumes "pg_users_ok U db" and "pg_delete i db = (r, db')"
  shows "r = Inl RepositoryUnavailable \<or>
     r = Inr (stored_users db i \<noteq> None) \<and> stored_users db' = (stored_users db)(i := None)"
proof (cases "r = Inl RepositoryUnavailable")
  case False
  obtain fs v db1 where st: "delete_user_stmt (as_uuid i) (db\<lparr> faults := fs \<rparr>) = (v, db1)"
    and k: "case v of Inl e \<Rightarrow> r = Inl (repository_error_from_sqlx e) \<and> db' = db1
              | Inr x \<Rightarrow> lift_result (Inr (x = 1)) db1 = (r, db')"
    by (rule answered_user_call [OF assms(2) [unfolded pg_delete_def] False])
  have dist: "distinct (map ur_id (users db))" using assms(1) by (simp add: pg_users_ok_def)
  have "length (filter (\<lambda>r. ur_id r = as_uuid i) (users db)) = (if user_at db (as_uuid i) = None then 0 else 1)"
  proof (cases "user_at db (as_uuid i)")
    case None
    then show ?thesis by (auto simp: user_at_None filter_empty_conv image_iff)
  next
    case (Some x)
    have "distinct (map ur_id xs) \<Longrightarrow> x \<in> set xs \<Longrightarrow> filter (\<lambda>r. ur_id r = ur_id x) xs = [x]" for xs
      by (induction xs) (auto simp: filter_empty_conv image_iff)
    from this [OF dist] user_at_Some [OF Some] Some show ?thesis by simp
  qed
  note len = this
  from st k len have "r = Inr (user_at db (as_uuid i) \<noteq> None)"
    and db': "db' = db\<lparr> faults := fs, users := filter (\<lambda>r. ur_id r \<noteq> as_uuid i) (users db) \<rparr>"
    by (auto simp: delete_user_stmt_def lift_result_def split: if_splits)
  moreover have "stored_users db' = (stored_users db)(i := None)"
  proof (rule ext)
    fix k show "stored_users db' k = ((stored_users db)(i := None)) k"
      using user_at_filter [where db = "db\<lparr> faults := fs \<rparr>" and i = "as_uuid i"]
      by (cases k; cases i) (auto simp: stored_users_def db')
  qed
  ultimately show ?thesis by (simp add: stored_users_def)
qed simp

lemma create_result:
  assumes "pg_users_ok U db" and "valid_user U u" and "pg_create_with_job U fresh trace u job db = (r, db')"
  shows "pg_users_ok U db'"
    and "r = Inl e \<Longrightarrow> e \<noteq> RepositoryUnavailable \<Longrightarrow> stored_users db' = stored_users db"
    and "r = Inr v \<Longrightarrow> v = user_of_row (inserted_user u) \<and> stored_users db (u_id u) = None \<and>
           stored_users db' = (stored_users db)(u_id u \<mapsto> v)"
proof -
  have row: "user_row_ok U (inserted_user u)"
    using valid_user_row assms(1,2) by (simp add: pg_users_ok_def)
  show "pg_users_ok U db'"
    using assms(3)
  proof (cases rule: pg_create_cases)
    case (committed fs m)
    from committed(4) committed(3) have "ur_email (inserted_user u) \<notin> ur_email ` set (users db)"
      by (auto simp: email_taken_def image_iff) metis
    with committed(1,3) row assms(1) show ?thesis by (simp add: pg_users_ok_def)
  qed (use assms in simp)
  show "stored_users db' = stored_users db" if "r = Inl e" "e \<noteq> RepositoryUnavailable"
    by (cases rule: pg_create_cases [OF assms(3)])
      (use that user_into_domain_ok [OF row] in auto)
  assume r: "r = Inr v"
  show "v = user_of_row (inserted_user u) \<and> stored_users db (u_id u) = None \<and>
           stored_users db' = (stored_users db)(u_id u \<mapsto> v)"
    using assms(3)
  proof (cases rule: pg_create_cases)
    case (committed fs m)
    have v: "v = user_of_row (inserted_user u)"
      using committed(5) r user_into_domain_ok [OF row] by simp
    have none: "user_at db (as_uuid (u_id u)) = None"
      using committed(3) by (simp add: user_at_None inserted_user_def)
    have "stored_users db' k = ((stored_users db)(u_id u \<mapsto> v)) k" for k
    proof -
      have "user_at db' (as_uuid k) = (case user_at db (as_uuid k) of Some x \<Rightarrow> Some x
          | None \<Rightarrow> if ur_id (inserted_user u) = as_uuid k then Some (inserted_user u) else None)"
        using user_at_append [of db "inserted_user u" "as_uuid k"] by (simp add: committed(1) user_at_def)
      then show ?thesis
        using none v by (cases k; cases "u_id u") (auto simp: stored_users_def inserted_user_def split: option.splits)
    qed
    with v none show ?thesis by (auto simp: stored_users_def)
  qed (use r in simp)
qed

interpretation pgr: user_repository_contract "pg_user_repository U now fresh trace" "pg_users_ok U"
    stored_users U for U now fresh trace
proof (unfold_locales, goal_cases)
  case (1 d i)
  then show ?case
    using op_keepsD [OF keeps_users_ok(1)] find_keeps_stored by (simp add: pg_user_repository_def)
next
  case (2 d i found d')
  then show ?case using find_result [of U d i] by (simp add: pg_user_repository_def)
next
  case (3 d i e d')
  then show ?case using find_result [of U d i] by (simp add: pg_user_repository_def)
next
  case (4 d i u)
  then show ?case
    using user_at_Some [of d "as_uuid i"]
    by (cases i) (auto simp: stored_users_def user_of_row_def user_restore_def)
next
  case (5 d i u)
  then show ?case
    using user_at_Some [of d "as_uuid i"] user_row_ok_in user_row_valid by (auto simp: stored_users_def)
next
  case (6 d em n i)
  then show ?case
    using op_keepsD [OF keeps_users_ok(4) [OF 6(2,3)]] by (simp add: pg_user_repository_def)
next
  case (7 d em n i u d')
  then show ?case
    using update_result [OF 7(1-3), of now i "Inr u" d'] by (auto simp: pg_user_repository_def)
next
  case (8 d em n i d')
  then show ?case
    using update_result [OF 8(1-3), of now i "Inl RepositoryNotFound" d']
    by (auto simp: pg_user_repository_def)
next
  case (9 d em n i d')
  then show ?case
    using update_result [OF 9(1-3), of now i "Inl DuplicateEmail" d']
    by (auto simp: pg_user_repository_def)
next
  case (10 d i)
  then show ?case using op_keepsD [OF keeps_users_ok(3)] by (simp add: pg_user_repository_def)
next
  case (11 d i b d')
  then show ?case using delete_result [OF 11(1), of i "Inr b" d'] by (simp add: pg_user_repository_def)
next
  case (12 d i e d')
  then show ?case using delete_result [OF 12(1), of i "Inl e" d'] by (simp add: pg_user_repository_def)
next
  case (13 d u j)
  then show ?case
    using create_result(1) [OF 13, of fresh trace j "fst (pg_create_with_job U fresh trace u j d)"
      "snd (pg_create_with_job U fresh trace u j d)"]
    by (simp add: pg_user_repository_def)
next
  case (14 d u j v d')
  then show ?case
    using create_result(3) [OF 14(1,2), of fresh trace j "Inr v" d' v]
    by (simp add: pg_user_repository_def user_of_row_def user_restore_def inserted_user_def)
next
  case (15 d u j d')
  then show ?case
    using create_result(2) [OF 15(1,2), of fresh trace j "Inl DuplicateEmail" d' DuplicateEmail]
    by (simp add: pg_user_repository_def)
qed

end
