(* ===== verification/User_Cache.thy ===== *)
theory User_Cache
  imports User_Repository_Pg
begin

text \<open>
  The two adapters of the \<open>UserCache\<close> port: \<open>NoOpUserCache\<close>
  (\<open>src/infrastructure/cache/noop.rs\<close>) and \<open>RedisUserCache\<close>
  (\<open>src/infrastructure/cache/redis/user_cache.rs\<close>), both shown to satisfy the contract of
  the port, and the use cases over PostgreSQL and Redis together.

  The JSON text of a \<open>CachedUser\<close> is made by \<open>serde_json\<close>: a record of two functions.
  The Redis server holds a map of strings; before each command it may drop entries (time to
  live, eviction, restart), and the command may time out or fail, with or without having
  taken effect.  A script lists these events.
\<close>

section \<open>The adapter without a cache\<close>

definition noop_get :: "user_id \<Rightarrow> (unit, cache_error, user option) op" where
  "noop_get i = lift_result (Inr None)"

definition noop_set :: "user \<Rightarrow> u64 \<Rightarrow> (unit, cache_error, unit) op" where
  "noop_set u ttl_seconds = lift_result (Inr ())"

definition noop_delete :: "user_id \<Rightarrow> (unit, cache_error, unit) op" where
  "noop_delete i = lift_result (Inr ())"

definition noop_user_cache :: "unit user_cache" where
  "noop_user_cache = \<lparr> c_get = noop_get, c_set = noop_set, c_delete = noop_delete \<rparr>"

interpretation noop: user_cache_contract noop_user_cache "\<lambda>_. True" "\<lambda>_ _. None" U for U
  by unfold_locales
    (simp_all add: noop_user_cache_def noop_get_def noop_set_def noop_delete_def lift_result_def)

section \<open>The Redis adapter\<close>

record cached_user =
  cu_id :: uuid
  cu_email :: rstring
  cu_display_name :: rstring
  cu_created_at :: timestamp
  cu_updated_at :: timestamp

record codec =
  to_json :: "cached_user \<Rightarrow> rstring"
  from_json :: "rstring \<Rightarrow> rstring + cached_user"
  uuid_text :: "uuid \<Rightarrow> rstring"

definition cached_user_from :: "user \<Rightarrow> cached_user" where
  "cached_user_from user = \<lparr> cu_id = as_uuid (u_id user), cu_email = email_str (u_email user),
     cu_display_name = name_str (u_display_name user),
     cu_created_at = u_created_at user, cu_updated_at = u_updated_at user \<rparr>"

definition cached_user_try_into :: "unicode \<Rightarrow> cached_user \<Rightarrow> cache_error + user" where
  "cached_user_try_into U value =
     and_then (map_err (\<lambda>e. CacheError (user_error_message e)) (email_parse U (cu_email value))) (\<lambda>email.
     and_then (map_err (\<lambda>e. CacheError (user_error_message e)) (display_name_parse (cu_display_name value))) (\<lambda>name.
     Inr (user_restore (UserId (cu_id value)) email name (cu_created_at value) (cu_updated_at value))))"

definition cache_key :: "codec \<Rightarrow> user_id \<Rightarrow> rstring" where
  "cache_key K i = lit ''users:'' @ user_id_display (uuid_text K) i"

text \<open>
  One event per command: the keys that vanish before it runs, and how it ends.  A command that
  times out or fails may have run.
\<close>

datatype redis_outcome = Answered | TimedOut (took_effect: bool) | Failed (took_effect: bool) (redis_message: rstring)

record redis =
  entries :: "rstring \<Rightarrow> rstring option"
  events :: "(rstring list \<times> redis_outcome) list"

definition redis_command :: "rstring \<Rightarrow> ((rstring \<Rightarrow> rstring option) \<Rightarrow> (rstring + 'a) \<times> (rstring \<Rightarrow> rstring option))
    \<Rightarrow> (redis, cache_error, 'a) op" where
  "redis_command timeout_message cmd s =
     (let (gone, outcome) = (case events s of [] \<Rightarrow> ([], Answered) | e # _ \<Rightarrow> e);
          before = (\<lambda>k. if k \<in> set gone then None else entries s k);
          (reply, after) = cmd before;
          s' = s\<lparr> events := tl (events s) \<rparr> in
      case outcome of
        Answered \<Rightarrow> (map_err CacheError reply, s'\<lparr> entries := after \<rparr>)
      | TimedOut b \<Rightarrow> (Inl (CacheError timeout_message), s'\<lparr> entries := if b then after else before \<rparr>)
      | Failed b m \<Rightarrow> (Inl (CacheError m), s'\<lparr> entries := if b then after else before \<rparr>))"

definition redis_get_cmd :: "rstring \<Rightarrow> (rstring \<Rightarrow> rstring option) \<Rightarrow> (rstring + rstring option) \<times> (rstring \<Rightarrow> rstring option)" where
  "redis_get_cmd k m = (Inr (m k), m)"

text \<open>\<open>SETEX\<close> refuses a time to live of zero.\<close>

definition redis_set_ex_cmd :: "rstring \<Rightarrow> rstring \<Rightarrow> u64 \<Rightarrow> (rstring \<Rightarrow> rstring option) \<Rightarrow> (rstring + unit) \<times> (rstring \<Rightarrow> rstring option)" where
  "redis_set_ex_cmd k v ttl_seconds m =
     (if ttl_seconds = 0 then (Inl (lit ''ERR invalid expire time in setex command''), m)
      else (Inr (), m(k \<mapsto> v)))"

definition redis_del_cmd :: "rstring \<Rightarrow> (rstring \<Rightarrow> rstring option) \<Rightarrow> (rstring + unit) \<times> (rstring \<Rightarrow> rstring option)" where
  "redis_del_cmd k m = (Inr (), m(k := None))"

definition decode_cached :: "codec \<Rightarrow> unicode \<Rightarrow> rstring \<Rightarrow> cache_error + user" where
  "decode_cached K U json = and_then (map_err CacheError (from_json K json)) (cached_user_try_into U)"

definition redis_get :: "codec \<Rightarrow> unicode \<Rightarrow> user_id \<Rightarrow> (redis, cache_error, user option) op" where
  "redis_get K U i =
     op_bind (redis_command (lit ''Redis user cache get timed out'') (redis_get_cmd (cache_key K i)))
       (\<lambda>value. lift_result (case value of
           None \<Rightarrow> Inr None | Some json \<Rightarrow> map_ok Some (decode_cached K U json)))"

definition redis_set :: "codec \<Rightarrow> user \<Rightarrow> u64 \<Rightarrow> (redis, cache_error, unit) op" where
  "redis_set K user ttl_seconds =
     redis_command (lit ''Redis user cache set timed out'')
       (redis_set_ex_cmd (cache_key K (u_id user)) (to_json K (cached_user_from user)) ttl_seconds)"

definition redis_delete :: "codec \<Rightarrow> user_id \<Rightarrow> (redis, cache_error, unit) op" where
  "redis_delete K i =
     redis_command (lit ''Redis user cache delete timed out'') (redis_del_cmd (cache_key K i))"

definition redis_user_cache :: "codec \<Rightarrow> unicode \<Rightarrow> redis user_cache" where
  "redis_user_cache K U = \<lparr> c_get = redis_get K U, c_set = redis_set K, c_delete = redis_delete K \<rparr>"

section \<open>Encoding and decoding\<close>

text \<open>
  What the adapter relies on: \<open>serde_json\<close> reads back what it wrote and distinct UUIDs print
  differently.
\<close>

definition codec_ok :: "codec \<Rightarrow> bool" where
  "codec_ok K \<longleftrightarrow> (\<forall>v. from_json K (to_json K v) = Inr v) \<and> inj (uuid_text K)"

lemma cached_user_back:
  assumes "lower_stable U" and "valid_user U u"
  shows "cached_user_try_into U (cached_user_from u) = Inr u"
proof -
  have e: "email_parse U (email_str (u_email u)) = Inr (u_email u)"
    using assms email_parse_reparse by (auto simp: valid_user_def)
  have n: "display_name_parse (name_str (u_display_name u)) = Inr (u_display_name u)"
    using assms display_name_reparse by (auto simp: valid_user_def)
  show ?thesis
    by (cases "u_id u") (simp add: cached_user_try_into_def cached_user_from_def e n user_restore_def)
qed

lemma decode_encode:
  assumes "codec_ok K" and "lower_stable U" and "valid_user U u"
  shows "decode_cached K U (to_json K (cached_user_from u)) = Inr u"
  using assms by (simp add: decode_cached_def codec_ok_def cached_user_back)

lemma cache_key_inject: "codec_ok K \<Longrightarrow> cache_key K i = cache_key K j \<longleftrightarrow> i = j"
  by (cases i; cases j) (auto simp: cache_key_def codec_ok_def user_id_display_def dest: injD)

section \<open>The Redis adapter satisfies the contract\<close>

definition cached_users :: "codec \<Rightarrow> unicode \<Rightarrow> redis \<Rightarrow> user_id \<Rightarrow> user option" where
  "cached_users K U s i = (case entries s (cache_key K i) of
     None \<Rightarrow> None
   | Some json \<Rightarrow> (case decode_cached K U json of Inl e \<Rightarrow> None | Inr u \<Rightarrow> Some u))"

definition redis_cinv :: "codec \<Rightarrow> unicode \<Rightarrow> redis \<Rightarrow> bool" where
  "redis_cinv K U s \<longleftrightarrow> codec_ok K \<and> lower_stable U"

text \<open>A command ends in one of two states: without its effect, or with it.\<close>

lemma redis_command_cases:
  obtains before where "\<And>k. before k = entries s k \<or> before k = None"
    and "entries (snd (redis_command m cmd s)) = before \<or> entries (snd (redis_command m cmd s)) = snd (cmd before)"
    and "is_ok (fst (redis_command m cmd s)) \<Longrightarrow>
           fst (redis_command m cmd s) = map_err CacheError (fst (cmd before)) \<and>
           entries (snd (redis_command m cmd s)) = snd (cmd before)"
proof -
  obtain gone outcome where ev: "(case events s of [] \<Rightarrow> ([], Answered) | e # _ \<Rightarrow> e) = (gone, outcome)"
    by fastforce
  define before where "before = (\<lambda>k. if k \<in> set gone then None else entries s k)"
  have run: "redis_command m cmd s = (case outcome of
        Answered \<Rightarrow> (map_err CacheError (fst (cmd before)), s\<lparr> events := tl (events s), entries := snd (cmd before) \<rparr>)
      | TimedOut b \<Rightarrow> (Inl (CacheError m), s\<lparr> events := tl (events s), entries := if b then snd (cmd before) else before \<rparr>)
      | Failed b e \<Rightarrow> (Inl (CacheError e), s\<lparr> events := tl (events s), entries := if b then snd (cmd before) else before \<rparr>))"
    by (simp add: redis_command_def ev Let_def before_def [symmetric] split: prod.split redis_outcome.split)
  show thesis
  proof (rule that [of before])
    show "before k = entries s k \<or> before k = None" for k by (simp add: before_def)
    show "entries (snd (redis_command m cmd s)) = before \<or> entries (snd (redis_command m cmd s)) = snd (cmd before)"
      by (cases outcome) (auto simp: run)
    show "fst (redis_command m cmd s) = map_err CacheError (fst (cmd before)) \<and>
        entries (snd (redis_command m cmd s)) = snd (cmd before)"
      if "is_ok (fst (redis_command m cmd s))"
      using that by (cases outcome) (auto simp: run)
  qed
qed

lemma redis_command_Inr:
  assumes "redis_command m cmd s = (Inr x, s')"
  obtains before where "\<And>k. before k = entries s k \<or> before k = None"
    and "fst (cmd before) = Inr x" and "entries s' = snd (cmd before)"
proof (rule redis_command_cases [of s m cmd])
  fix before
  assume "\<And>k. before k = entries s k \<or> before k = None"
    and "is_ok (fst (redis_command m cmd s)) \<Longrightarrow>
           fst (redis_command m cmd s) = map_err CacheError (fst (cmd before)) \<and>
           entries (snd (redis_command m cmd s)) = snd (cmd before)"
  with assms show thesis by (intro that [of before]) (auto simp: result_simps dest: sym)
qed

lemma redis_command_entries:
  assumes "\<And>before. (\<And>k. before k = entries s k \<or> before k = None) \<Longrightarrow> P before \<and> P (snd (cmd before))"
  shows "P (entries (snd (redis_command m cmd s)))"
  by (rule redis_command_cases [of s m cmd]) (use assms in metis)

lemma cached_users_dropped:
  "(\<And>k. entries s' k = entries s k \<or> entries s' k = None) \<Longrightarrow>
   cached_users K U s' i = cached_users K U s i \<or> cached_users K U s' i = None"
  by (metis cached_users_def option.simps(4))

lemma redis_get_state:
  "snd (redis_get K U i s) =
     snd (redis_command (lit ''Redis user cache get timed out'') (redis_get_cmd (cache_key K i)) s)"
  unfolding redis_get_def op_bind_def lift_result_def by (simp split: prod.split sum.split)

lemma cached_users_frame_get:
  "cached_users K U (snd (redis_get K U i s)) k = cached_users K U s k \<or>
   cached_users K U (snd (redis_get K U i s)) k = None"
proof (rule cached_users_dropped)
  fix j
  show "entries (snd (redis_get K U i s)) j = entries s j \<or> entries (snd (redis_get K U i s)) j = None"
    unfolding redis_get_state by (rule redis_command_entries) (simp add: redis_get_cmd_def)
qed

lemma redis_get_hit:
  assumes "redis_get K U i s = (Inr (Some u), s')"
  shows "cached_users K U s i = Some u"
proof -
  from assms [unfolded redis_get_def op_bind_Inr] obtain v s1 where
    run: "redis_command (lit ''Redis user cache get timed out'') (redis_get_cmd (cache_key K i)) s = (Inr v, s1)"
    and "(case v of None \<Rightarrow> Inr None | Some json \<Rightarrow> map_ok Some (decode_cached K U json)) = Inr (Some u)"
    unfolding lift_result_eq by blast
  then obtain json where v: "v = Some json" and dec: "decode_cached K U json = Inr u"
    by (cases v) (auto simp: result_simps)
  note run = run [unfolded v]
  from run obtain before where "before (cache_key K i) = entries s (cache_key K i) \<or> before (cache_key K i) = None"
    and "fst (redis_get_cmd (cache_key K i) before) = Inr (Some json)"
    by (rule redis_command_Inr) blast
  then have "entries s (cache_key K i) = Some json" by (auto simp: redis_get_cmd_def)
  with dec show ?thesis by (simp add: cached_users_def)
qed

lemma cached_users_frame_set:
  assumes "codec_ok K" and "lower_stable U" and "valid_user U u"
  shows "cached_users K U (snd (redis_set K u ttl s)) k = cached_users K U s k \<or>
    cached_users K U (snd (redis_set K u ttl s)) k = None \<or>
    k = u_id u \<and> cached_users K U (snd (redis_set K u ttl s)) k = Some u"
proof -
  let ?s' = "snd (redis_set K u ttl s)"
  have new: "entries ?s' j = entries s j \<or> entries ?s' j = None \<or>
      j = cache_key K (u_id u) \<and> entries ?s' j = Some (to_json K (cached_user_from u))" for j
    unfolding redis_set_def by (rule redis_command_entries) (auto simp: redis_set_ex_cmd_def)
  from new [of "cache_key K k"] decode_encode [OF assms] cache_key_inject [OF assms(1), of k "u_id u"]
  show ?thesis by (auto simp: cached_users_def)
qed

lemma redis_set_stores:
  assumes "codec_ok K" and "lower_stable U" and "valid_user U u"
    and "redis_set K u ttl s = (Inr x, s')"
  shows "cached_users K U s' (u_id u) = Some u"
proof -
  obtain before where "fst (redis_set_ex_cmd (cache_key K (u_id u)) (to_json K (cached_user_from u)) ttl before) = Inr x"
    and "entries s' = snd (redis_set_ex_cmd (cache_key K (u_id u)) (to_json K (cached_user_from u)) ttl before)"
    using assms(4) unfolding redis_set_def by (rule redis_command_Inr) blast
  then have "entries s' (cache_key K (u_id u)) = Some (to_json K (cached_user_from u))"
    by (auto simp: redis_set_ex_cmd_def split: if_splits)
  with decode_encode [OF assms(1-3)] show ?thesis by (simp add: cached_users_def)
qed

lemma redis_delete_evicts:
  assumes "redis_delete K i s = (Inr x, s')"
  shows "cached_users K U s' i = None"
proof -
  obtain before where "entries s' = snd (redis_del_cmd (cache_key K i) before)"
    using assms unfolding redis_delete_def by (rule redis_command_Inr) blast
  then show ?thesis by (simp add: redis_del_cmd_def cached_users_def)
qed

lemma cached_users_frame_delete:
  "cached_users K U (snd (redis_delete K i s)) k = cached_users K U s k \<or>
   cached_users K U (snd (redis_delete K i s)) k = None"
proof (rule cached_users_dropped)
  fix j
  show "entries (snd (redis_delete K i s)) j = entries s j \<or> entries (snd (redis_delete K i s)) j = None"
    unfolding redis_delete_def by (rule redis_command_entries) (simp add: redis_del_cmd_def)
qed

interpretation rediscache: user_cache_contract "redis_user_cache K U" "redis_cinv K U" "cached_users K U" U for K U
proof (unfold_locales, goal_cases)
  case (5 c u ttl x c')
  then show ?case using redis_set_stores [of K U u ttl c x c'] by (simp add: redis_user_cache_def redis_cinv_def)
next
  case (6 c u ttl k)
  then show ?case using cached_users_frame_set [of K U u ttl c k] by (simp add: redis_user_cache_def redis_cinv_def)
qed (simp_all add: redis_user_cache_def redis_cinv_def redis_get_hit cached_users_frame_get
      redis_delete_evicts cached_users_frame_delete)

end
