(* ===== verification/User_Service.thy ===== *)
theory User_Service
  imports User_Cache Job_Queue_Spec
begin

text \<open>
  The user feature as the composition root assembles it: the use cases of
  \<open>src/application/user\<close> over the PostgreSQL repository and the Redis cache.  What a client
  reads back after a write, the listing of users by pages, and the outcome of a registration.
\<close>

interpretation svc: user_service "pg_user_repository U now fresh trace" "pg_users_ok U" stored_users U
    "redis_user_cache K U" "redis_cinv K U" "cached_users K U" for U now fresh trace K
  by unfold_locales

text \<open>What the lookups of a client rest on: a well-formed table and a cache that agrees with it.\<close>

definition service_ok :: "unicode \<Rightarrow> codec \<Rightarrow> pg \<times> redis \<Rightarrow> bool" where
  "service_ok U K s \<longleftrightarrow> pg_users_ok U (fst s) \<and> redis_cinv K U (snd s) \<and>
     coherent (stored_users (fst s)) (cached_users K U (snd s))"

section \<open>A concrete service\<close>

text \<open>A codec that writes the fields one after another, each with its length.\<close>

fun put_string :: "rstring \<Rightarrow> rstring" where
  "put_string s = length s # s"

definition sample_to_json :: "cached_user \<Rightarrow> rstring" where
  "sample_to_json v = unat (cu_id v) # nat (cu_created_at v) # nat (- cu_created_at v) #
     nat (cu_updated_at v) # nat (- cu_updated_at v) # put_string (cu_email v) @ cu_display_name v"

definition sample_from_json :: "rstring \<Rightarrow> rstring + cached_user" where
  "sample_from_json s = (case s of
     i # c # c' # u # u' # n # rest \<Rightarrow>
       Inr \<lparr> cu_id = of_nat i, cu_email = take n rest, cu_display_name = drop n rest,
             cu_created_at = int c - int c', cu_updated_at = int u - int u' \<rparr>
   | _ \<Rightarrow> Inl (lit ''EOF while parsing''))"

definition sample_codec :: codec where
  "sample_codec = \<lparr> to_json = sample_to_json, from_json = sample_from_json, uuid_text = (\<lambda>i. [unat i]) \<rparr>"

lemma sample_codec_ok: "codec_ok sample_codec"
  by (auto simp: codec_ok_def sample_codec_def sample_to_json_def sample_from_json_def inj_def
        word_unat_eq_iff)

definition sample_row :: "uuid \<Rightarrow> rstring \<Rightarrow> timestamp \<Rightarrow> user_row" where
  "sample_row i e t = \<lparr> ur_id = i, ur_email = e, ur_display_name = lit ''Ada'', ur_created_at = t, ur_updated_at = t \<rparr>"

definition sample_users :: pg where
  "sample_users = sample_db\<lparr> users := [sample_row 1 (lit ''a@x.org'') 1000, sample_row 2 (lit ''b@x.org'') 3000,
     sample_row 3 (lit ''c@x.org'') 2000] \<rparr>"

definition sample_redis :: redis where
  "sample_redis = \<lparr> entries = (\<lambda>_. None), events = [] \<rparr>"

lemma sample_users_ok: "pg_users_ok sample_unicode sample_users"
  by (simp add: pg_users_ok_def sample_users_def sample_row_def sample_unicode_stable user_row_ok_def
        email_parse_def display_name_parse_def string_eval)

lemma sample_service_ok: "service_ok sample_unicode sample_codec (sample_users, sample_redis)"
  by (simp add: service_ok_def sample_users_ok redis_cinv_def sample_codec_ok sample_unicode_stable coherent_def cached_users_def sample_redis_def)

lemmas service_eval = sample_users_def sample_db_def sample_row_def sample_redis_def sample_codec_def
  get_user_def list_users_def update_user_def delete_user_def create_user_def pg_user_repository_def
  redis_user_cache_def pg_find_by_id_def pg_list_def pg_update_def pg_delete_def redis_get_def
  redis_set_def redis_delete_def redis_command_def redis_get_cmd_def redis_set_ex_cmd_def
  redis_del_cmd_def exec_def op_bind_def op_map_err_def op_try_def on_db_def on_cache_def
  lift_result_def select_user_def list_stmt_def update_user_stmt_def delete_user_stmt_def
  transpose_row_def user_into_domain_def user_restore_def email_parse_def display_name_parse_def
  email_taken_def pg_text_ok_def pg_timestamp_def user_order_def Let_def

section \<open>Reads and writes through the cache\<close>

lemma service_get:
  assumes "service_ok U K s"
    and "get_user (pg_user_repository U now fresh trace) (redis_user_cache K U) ttl i s = (r, s')"
  shows "service_ok U K s' \<and> stored_users (fst s') = stored_users (fst s) \<and>
     (r = Inl DependencyUnavailable \<or>
      r = (case stored_users (fst s) i of None \<Rightarrow> Inl NotFound | Some u \<Rightarrow> Inr u))"
proof -
  from assms have "pg_users_ok U (fst s)" "redis_cinv K U (snd s)"
    "coherent (stored_users (fst s)) (cached_users K U (snd s))"
    "get_user (pg_user_repository U now fresh trace) (redis_user_cache K U) ttl i (fst s, snd s) =
       (r, fst s', snd s')"
    by (simp_all add: service_ok_def)
  from svc.get_user_sound [OF this] show ?thesis unfolding service_ok_def by blast
qed

text \<open>
  C12. A read returns what the database holds.  While cache and table agree, \<open>GET /users/{id}\<close>
  answers exactly the stored user, or \<open>NotFound\<close> when there is none, or that a dependency is
  unavailable, whatever Redis and the connection do; it changes no user and the agreement
  lasts.
\<close>

theorem get_user_reads_database:
  assumes "service_ok U K s"
    and "get_user (pg_user_repository U now fresh trace) (redis_user_cache K U) ttl i s = (r, s')"
  shows "service_ok U K s' \<and> stored_users (fst s') = stored_users (fst s) \<and>
     (r = Inl DependencyUnavailable \<or>
      r = (case stored_users (fst s) i of None \<Rightarrow> Inl NotFound | Some u \<Rightarrow> Inr u))"
  using service_get [OF assms] .

theorem get_user_reads_database_witness:
  "\<exists>s'. get_user (pg_user_repository sample_unicode 0 9 JNull) (redis_user_cache sample_codec sample_unicode) 60
       (UserId 2) (sample_users, sample_redis) =
       (Inr (user_of_row (sample_row 2 (lit ''b@x.org'') 3000)), s') \<and>
     service_ok sample_unicode sample_codec s'"
proof -
  let ?run = "get_user (pg_user_repository sample_unicode 0 9 JNull) (redis_user_cache sample_codec sample_unicode) 60
       (UserId 2) (sample_users, sample_redis)"
  have r: "?run = (Inr (user_of_row (sample_row 2 (lit ''b@x.org'') 3000)), snd ?run)"
    by (simp add: service_eval string_eval user_of_row_def)
  from get_user_reads_database [OF sample_service_ok r] r show ?thesis by blast
qed

text \<open>
  C14. A write is read back.  After a successful update, if the cache took the new value or at
  least dropped the old one, the service is again in agreement and a following read returns
  exactly the updated user, whose address and name are the parsed input (or reports an
  unavailable dependency, never an old value).
\<close>

theorem updates_are_read_back:
  assumes "service_ok U K (d, c)"
    and "update_user U (pg_user_repository U now fresh trace) (redis_user_cache K U) ttl i input (d, c) = (Inr u, s')"
    and "is_ok (fst (redis_set K u ttl c)) \<or> is_ok (fst (redis_delete K i (snd (redis_set K u ttl c))))"
    and "get_user (pg_user_repository U now' fresh' trace') (redis_user_cache K U) ttl' i s' = (r, s'')"
  shows "email_parse U (ui_email input) = Inr (u_email u) \<and>
     display_name_parse (ui_display_name input) = Inr (u_display_name u) \<and>
     stored_users (fst s') = (stored_users d)(i \<mapsto> u) \<and>
     (r = Inr u \<or> r = Inl DependencyUnavailable)"
proof -
  have c: "c_set (redis_user_cache K U) = redis_set K" "c_delete (redis_user_cache K U) = redis_delete K"
    by (simp_all add: redis_user_cache_def)
  from svc.update_user_sound [where d' = "fst s'" and c' = "snd s'"] assms(1-3) have ok: "service_ok U K s'" "stored_users (fst s') = (stored_users d)(i \<mapsto> u)"
    "email_parse U (ui_email input) = Inr (u_email u)"
    "display_name_parse (ui_display_name input) = Inr (u_display_name u)"
    by (force simp: service_ok_def c)+
  with service_get [OF ok(1) assms(4)] show ?thesis by auto
qed

definition sample_input :: user_input where
  "sample_input = \<lparr> ui_email = lit ''New@X.org '', ui_display_name = lit '' Grace'' \<rparr>"

definition sample_updated :: user where
  "sample_updated = \<lparr> u_id = UserId 2, u_email = Email (lit ''new@x.org''), u_display_name = DisplayName (lit ''Grace''),
     u_created_at = 3000, u_updated_at = 5000 \<rparr>"

theorem updates_are_read_back_witness:
  "fst (get_user (pg_user_repository sample_unicode 0 0 JNull) (redis_user_cache sample_codec sample_unicode) 60
       (UserId 2)
       (snd (update_user sample_unicode (pg_user_repository sample_unicode 5000 9 JNull)
         (redis_user_cache sample_codec sample_unicode) 60 (UserId 2) sample_input (sample_users, sample_redis))))
     \<in> {Inr sample_updated, Inl DependencyUnavailable}"
proof -
  let ?run = "update_user sample_unicode (pg_user_repository sample_unicode 5000 9 JNull)
       (redis_user_cache sample_codec sample_unicode) 60 (UserId 2) sample_input (sample_users, sample_redis)"
  let ?get = "get_user (pg_user_repository sample_unicode 0 0 JNull) (redis_user_cache sample_codec sample_unicode) 60
       (UserId 2) (snd ?run)"
  have r: "?run = (Inr sample_updated, snd ?run)"
    by (simp add: service_eval string_eval sample_input_def sample_updated_def)
  have k: "is_ok (fst (redis_set sample_codec sample_updated 60 sample_redis))"
    by (simp add: service_eval)
  then have k: "is_ok (fst (redis_set sample_codec sample_updated 60 sample_redis)) \<or>
      is_ok (fst (redis_delete sample_codec (UserId 2) (snd (redis_set sample_codec sample_updated 60 sample_redis))))"
    ..
  from updates_are_read_back [OF sample_service_ok r k, of 0 0 JNull 60 "fst ?get" "snd ?get"]
  show ?thesis by auto
qed

text \<open>
  A deleted user is gone.  Deleting succeeds only for a stored user and removes exactly that
  one; once the cache entry is dropped too, a following read finds nobody.
\<close>

theorem deleted_users_are_gone:
  assumes "service_ok U K (d, c)"
    and "delete_user (pg_user_repository U now fresh trace) (redis_user_cache K U) i (d, c) = (Inr x, s')"
    and "is_ok (fst (redis_delete K i c))"
    and "get_user (pg_user_repository U now' fresh' trace') (redis_user_cache K U) ttl' i s' = (r, s'')"
  shows "stored_users d i \<noteq> None \<and> stored_users (fst s') = (stored_users d)(i := None) \<and>
     (r = Inl NotFound \<or> r = Inl DependencyUnavailable)"
proof -
  have c: "c_delete (redis_user_cache K U) = redis_delete K" by (simp add: redis_user_cache_def)
  from svc.delete_user_sound [where d' = "fst s'" and c' = "snd s'"] assms(1-3)
  have ok: "service_ok U K s'" "stored_users d i \<noteq> None" "stored_users (fst s') = (stored_users d)(i := None)"
    by (force simp: service_ok_def c)+
  with service_get [OF ok(1) assms(4)] show ?thesis by auto
qed

theorem deleted_users_are_gone_witness:
  "fst (get_user (pg_user_repository sample_unicode 0 0 JNull) (redis_user_cache sample_codec sample_unicode) 60
       (UserId 2)
       (snd (delete_user (pg_user_repository sample_unicode 0 9 JNull)
         (redis_user_cache sample_codec sample_unicode) (UserId 2) (sample_users, sample_redis))))
     \<in> {Inl NotFound, Inl DependencyUnavailable}"
proof -
  let ?run = "delete_user (pg_user_repository sample_unicode 0 9 JNull)
       (redis_user_cache sample_codec sample_unicode) (UserId 2) (sample_users, sample_redis)"
  let ?get = "get_user (pg_user_repository sample_unicode 0 0 JNull) (redis_user_cache sample_codec sample_unicode) 60
       (UserId 2) (snd ?run)"
  have r: "?run = (Inr (), snd ?run)" by (simp add: service_eval)
  have k: "is_ok (fst (redis_delete sample_codec (UserId 2) sample_redis))" by (simp add: service_eval)
  from deleted_users_are_gone [OF sample_service_ok r k, of 0 0 JNull 60 "fst ?get" "snd ?get"]
  show ?thesis by auto
qed

section \<open>Listing\<close>

definition listing :: "pg \<Rightarrow> user list" where
  "listing db = map user_of_row (user_order (users db))"

definition page_of :: "nat \<Rightarrow> nat \<Rightarrow> 'a list \<Rightarrow> 'a list" where
  "page_of n p xs = take n (drop ((p - 1) * n) xs)"

lemma set_user_order [simp]: "set (user_order rs) = set rs"
  by (simp add: user_order_def)

lemma user_order_sorted:
  "sorted_wrt (\<lambda>r s. (ur_created_at s, uint (ur_id s)) \<le> (ur_created_at r, uint (ur_id r))) (user_order rs)"
proof -
  have "sorted_wrt (\<lambda>r s. f r \<le> f s) (sort_key f rs)" for f :: "user_row \<Rightarrow> timestamp \<times> int"
    using sorted_sort_key [of f rs] by (simp only: sorted_map)
  then show ?thesis unfolding user_order_def sorted_wrt_rev .
qed

lemma pg_list_answer:
  assumes "pg_users_ok U db" and "pg_list U lim off db = (Inr us, db')"
  shows "us = take (unat lim) (drop (i64_offset off) (listing db))"
proof -
  have "Inr us \<noteq> (Inl RepositoryUnavailable :: repository_error + user list)" by simp
  from answered_user_call [OF assms(2) [unfolded pg_list_def] this] obtain fs v db1 where
    st: "list_stmt (unat lim) (i64_offset off) (db\<lparr> faults := fs \<rparr>) = (v, db1)"
    and k: "case v of Inl e \<Rightarrow> Inr us = Inl (repository_error_from_sqlx e) \<and> db' = db1
      | Inr rows \<Rightarrow> lift_result (collect_results (user_into_domain U) rows) db1 = (Inr us, db')"
    by blast
  from st have v: "v = Inr (take (unat lim) (drop (i64_offset off) (user_order (users db))))"
    by (simp add: list_stmt_def)
  have "\<forall>r \<in> set (take (unat lim) (drop (i64_offset off) (user_order (users db)))). user_into_domain U r = Inr (user_of_row r)"
    using user_row_ok_in [OF assms(1)] user_into_domain_ok
    by (metis in_set_dropD in_set_takeD set_user_order)
  from collect_results_all_ok [OF this] k v show ?thesis
    by (simp add: lift_result_def listing_def take_map drop_map)
qed

lemma i64_offset_exact: "unat off \<le> 429496729400 \<Longrightarrow> i64_offset off = unat off"
  by (simp add: i64_offset_def)

lemma pages_tile: "concat (map (\<lambda>p. page_of n (Suc p) xs) [0..<k]) = take (k * n) xs"
proof (induction k)
  case (Suc k)
  have "Suc k * n = k * n + n" by simp
  with Suc show ?case by (simp only: take_add) (simp add: page_of_def)
qed simp

text \<open>
  C33. Listing is exact paging of one fixed order.  A successful \<open>GET /users\<close> returns precisely
  page \<open>p\<close> of the users sorted by creation time and identifier, newest first, at most 100 of
  them; the first \<open>k\<close> pages together are the first \<open>k * n\<close> users, so no user is skipped or
  repeated.
\<close>

theorem list_users_pages:
  assumes "pg_users_ok U d"
    and "list_users (pg_user_repository U now fresh trace) input (d, c) = (Inr us, s')"
  shows "us = page_of (unat (li_per_page (normalized input))) (unat (li_page (normalized input))) (listing d) \<and>
     length us \<le> 100 \<and>
     sorted_wrt (\<lambda>u v. (u_created_at v, uint (as_uuid (u_id v))) \<le> (u_created_at u, uint (as_uuid (u_id u)))) us \<and>
     concat (map (\<lambda>p. page_of n (Suc p) (listing d)) [0..<k]) = take (k * n) (listing d)"
proof -
  from assms(2) obtain d' where
    "pg_list U (li_per_page (normalized input)) (offset (normalized input)) d = (Inr us, d')"
    by (auto simp: list_users_def Let_def op_simps pg_user_repository_def)
  from pg_list_answer [OF assms(1) this]
  have us: "us = page_of (unat (li_per_page (normalized input))) (unat (li_page (normalized input))) (listing d)"
    by (simp add: i64_offset_exact [OF offset_bound] page_of_def offset_unat normalized_twice)
  have "sorted_wrt (\<lambda>u v. (u_created_at v, uint (as_uuid (u_id v))) \<le> (u_created_at u, uint (as_uuid (u_id u)))) (listing d)"
    using user_order_sorted [of "users d"]
    by (simp add: listing_def sorted_wrt_map user_of_row_def user_restore_def)
  then have "sorted_wrt (\<lambda>u v. (u_created_at v, uint (as_uuid (u_id v))) \<le> (u_created_at u, uint (as_uuid (u_id u)))) us"
    by (simp add: us page_of_def sorted_wrt_take sorted_wrt_drop)
  moreover have "length us \<le> 100"
    using normalized_bounds [of input] by (simp add: us page_of_def min_le_iff_disj)
  ultimately show ?thesis using us pages_tile [of n "listing d" k] by blast
qed

definition sample_listing :: "user list" where
  "sample_listing = map user_of_row [sample_row 2 (lit ''b@x.org'') 3000, sample_row 3 (lit ''c@x.org'') 2000]"

theorem list_users_pages_witness:
  "sample_listing = page_of 2 1 (listing sample_users) \<and> length sample_listing \<le> 100"
proof -
  let ?in = "\<lparr> li_page = 0, li_per_page = 2 \<rparr>"
  let ?run = "list_users (pg_user_repository sample_unicode 0 9 JNull) ?in (sample_users, sample_redis)"
  have r: "?run = (Inr sample_listing, snd ?run)"
    by (simp add: service_eval string_eval normalized_def u32_clamp_def i64_offset_def offset_def
          sample_listing_def user_of_row_def)
  from list_users_pages [OF sample_users_ok r] show ?thesis
    by (simp add: normalized_def u32_clamp_def)
qed

section \<open>Registration\<close>

lemma pg_create_effect:
  assumes "pg_users_ok U db" and "pg_jobs_ok db" and "valid_user U u"
    and "pg_create_with_job U fresh trace u job db = (r, db')"
  shows "pg_users_ok U db' \<and> pg_jobs_ok db' \<and>
     (users db' = users db \<and> jobs db' = jobs db \<and> \<not> is_ok r \<or>
      users db' = users db @ [inserted_user u] \<and>
      (\<exists>j. jobs db' = jobs db @ [j] \<and> jr_id j = fresh \<and> jr_status j = Pending \<and>
         jr_job_type j = uj_job_type job \<and> jr_payload j = uj_payload job \<and>
         jr_max_attempts j = uint (uj_max_attempts job) \<and> jr_available_at j = pg_now db) \<and>
      (r = Inl RepositoryUnavailable \<or> r = Inr (user_of_row (inserted_user u))))"
  using assms(4)
proof (cases rule: pg_create_cases)
  case (rolled_back fs e)
  with assms(1,2) show ?thesis by (simp add: pg_jobs_ok_def)
next
  case (committed fs m)
  have m: "m = uint (uj_max_attempts job)"
    using committed(2) by (auto simp: validate_max_attempts_def split: if_splits)
  have row: "user_into_domain U (inserted_user u) = Inr (user_of_row (inserted_user u))"
    using valid_user_row assms(1,3) user_into_domain_ok by (simp add: pg_users_ok_def)
  have "job_row_ok (inserted_job (with_trace_context trace (new_job_new fresh (uj_job_type job)
            (uj_payload job) (uj_max_attempts job))) m (pg_now db))"
    using committed(2,7)
    by (auto simp: job_row_ok_def inserted_job_def validate_max_attempts_def job_checks_def split: if_splits)
  with committed(1,6) assms(2) have "pg_jobs_ok db'"
    by (auto simp: pg_jobs_ok_def jobs_ok_def inserted_job_def with_trace_context_def new_job_new_def)
  with create_result(1) [OF assms(1,3,4)] committed row m show ?thesis
    by (auto simp: inserted_job_def with_trace_context_def new_job_new_def)
qed

text \<open>
  C4. A registration is all or nothing.  Whatever happens to the connection, the transaction
  either leaves users and jobs as they were or adds exactly the new user and exactly one pending
  job with the requested type, payload and attempts; the caller is told \<open>Ok\<close> only in the second
  case.  Both tables stay well formed.
\<close>

theorem registration_is_atomic:
  assumes "pg_users_ok U db" and "pg_jobs_ok db" and "valid_user U u"
    and "pg_create_with_job U fresh trace u job db = (r, db')"
  shows "pg_users_ok U db' \<and> pg_jobs_ok db' \<and>
     (users db' = users db \<and> jobs db' = jobs db \<and> \<not> is_ok r \<or>
      users db' = users db @ [inserted_user u] \<and>
      (\<exists>j. jobs db' = jobs db @ [j] \<and> jr_id j = fresh \<and> jr_status j = Pending \<and>
         jr_job_type j = uj_job_type job \<and> jr_payload j = uj_payload job \<and>
         jr_max_attempts j = uint (uj_max_attempts job) \<and> jr_available_at j = pg_now db) \<and>
      (r = Inl RepositoryUnavailable \<or> r = Inr (user_of_row (inserted_user u))))"
  using pg_create_effect [OF assms] .

definition sample_new_user :: user where
  "sample_new_user = user_new 7 5000 (Email (lit ''new@x.org'')) (DisplayName (lit ''Grace''))"

definition sample_creation_job :: user_creation_job where
  "sample_creation_job = \<lparr> uj_job_type = USER_CREATED_JOB, uj_payload = JNull, uj_max_attempts = 5 \<rparr>"

lemma sample_users_jobs_ok: "pg_jobs_ok sample_users"
  using sample_db_ok by (simp add: sample_users_def pg_jobs_ok_def)

lemma sample_new_user_valid: "valid_user sample_unicode sample_new_user"
proof -
  have "email_parse sample_unicode (lit ''new@x.org'') = Inr (Email (lit ''new@x.org''))"
    "display_name_parse (lit ''Grace'') = Inr (DisplayName (lit ''Grace''))"
    by (simp_all add: email_parse_def display_name_parse_def string_eval)
  then show ?thesis unfolding sample_new_user_def by (rule valid_user_new)
qed

theorem registration_is_atomic_witness:
  "users (snd (pg_create_with_job sample_unicode 9 JNull sample_new_user sample_creation_job sample_users)) =
     users sample_users @ [inserted_user sample_new_user] \<and>
   length (jobs (snd (pg_create_with_job sample_unicode 9 JNull sample_new_user sample_creation_job sample_users))) = 5"
proof -
  let ?run = "pg_create_with_job sample_unicode 9 JNull sample_new_user sample_creation_job sample_users"
  have jobs: "length (jobs sample_users) = 4" by (simp add: sample_users_def sample_db_def)
  have r: "is_ok (fst ?run)"
    by (simp add: pg_create_with_job_def sample_creation_job_def validate_max_attempts_def service_eval
          begin_stmt_def insert_user_stmt_def inserted_user_def sample_new_user_def user_new_def
          insert_job_def inserted_job_def new_job_new_def with_trace_context_def job_checks_def btrim_def
          USER_CREATED_JOB_def commit_stmt_def rolled_back_def string_eval sample_job_def)
  have run: "?run = (fst ?run, snd ?run)" by simp
  from registration_is_atomic [OF sample_users_ok sample_users_jobs_ok sample_new_user_valid run] r
  have "users (snd ?run) = users sample_users @ [inserted_user sample_new_user] \<and>
    (\<exists>j. jobs (snd ?run) = jobs sample_users @ [j])" by blast
  with jobs show ?thesis by auto
qed

text \<open>The conditions under which nothing but the input decides a registration.\<close>

definition ready_to_register :: "unicode \<Rightarrow> (uuid \<Rightarrow> rstring) \<Rightarrow> u32 \<Rightarrow> json \<Rightarrow> uuid \<Rightarrow> uuid \<Rightarrow> pg \<Rightarrow> bool" where
  "ready_to_register U disp attempts trace fresh_user fresh_job db \<longleftrightarrow>
     pg_users_ok U db \<and> faults db = [] \<and> validate_max_attempts attempts \<noteq> None \<and>
     UserId fresh_user \<notin> dom (stored_users db) \<and> fresh_job \<notin> jr_id ` set (jobs db) \<and>
     pg_text_ok (disp fresh_user) \<and> jsonb_ok trace"

definition email_in_use :: "pg \<Rightarrow> email \<Rightarrow> bool" where
  "email_in_use db em \<longleftrightarrow> email_str em \<in> ur_email ` set (users db)"

lemma fresh_row: "UserId i \<notin> dom (stored_users db) \<longleftrightarrow> i \<notin> ur_id ` set (users db)"
  by (auto simp: stored_users_def domIff user_at_None [symmetric])

lemma user_created_checks:
  "validate_max_attempts a = Some m \<Longrightarrow>
     job_checks (inserted_job (with_trace_context t (new_job_new i USER_CREATED_JOB p a)) m now)"
  by (auto simp: job_checks_def inserted_job_def with_trace_context_def new_job_new_def btrim_def
        USER_CREATED_JOB_def validate_max_attempts_def word_less_iff_unsigned uint_0_iff split: if_splits)
    (metis less_le uint_0_iff unsigned_greater_eq)

lemma create_with_job_outcome:
  assumes "ready_to_register U disp attempts trace fresh_user fresh_job db"
    and "valid_user U u" and "u_id u = UserId fresh_user"
    and job: "uj_job_type job = USER_CREATED_JOB" "uj_max_attempts job = attempts" "jsonb_ok (uj_payload job)"
  shows "fst (pg_create_with_job U fresh_job trace u job db) =
     (if \<not> (pg_text_ok (email_str (u_email u)) \<and> pg_text_ok (name_str (u_display_name u)))
      then Inl RepositoryUnavailable
      else if email_in_use db (u_email u) then Inl DuplicateEmail
      else Inr (user_of_row (inserted_user u)))"
proof -
  obtain m where m: "validate_max_attempts attempts = Some m"
    using assms(1) by (auto simp: ready_to_register_def)
  have f: "faults db = []" using assms(1) by (simp add: ready_to_register_def)
  have free: "as_uuid (u_id u) \<notin> ur_id ` set (users db)"
    using assms(1,3) fresh_row by (simp add: ready_to_register_def)
  then have taken: "email_taken db (as_uuid (u_id u)) (email_str (u_email u)) \<longleftrightarrow> email_in_use db (u_email u)"
    unfolding email_taken_def email_in_use_def image_iff by metis
  have row: "user_into_domain U (inserted_user u) = Inr (user_of_row (inserted_user u))"
    using valid_user_row assms(1,2) user_into_domain_ok by (simp add: ready_to_register_def pg_users_ok_def)
  have ok: "jsonb_ok trace" "fresh_job \<notin> jr_id ` set (jobs db)" "pg_text_ok USER_CREATED_JOB"
    using assms(1) by (simp_all add: ready_to_register_def pg_text_ok_def USER_CREATED_JOB_def)
  show ?thesis
    using user_created_checks [OF m, of trace fresh_job "uj_payload job" "pg_now db"] ok free job f
    by (simp add: pg_create_with_job_def m begin_stmt_def exec_no_faults insert_user_stmt_def Let_def
          taken row insert_job_def inserted_user_def commit_stmt_def rolled_back_def
          repository_error_from_sqlx_def email_violation_def)
      (simp add: with_trace_context_def new_job_new_def inserted_user_def row [unfolded inserted_user_def])
qed

lemma create_user_outcome:
  assumes "ready_to_register U disp attempts trace fresh_user fresh_job db"
  shows "fst (create_user U (pg_user_repository U now' fresh_job trace) C ttl attempts disp fresh_user now input (db, c)) =
     (case email_parse U (ui_email input) of Inl e \<Rightarrow> Inl (InvalidInput e)
      | Inr em \<Rightarrow> (case display_name_parse (ui_display_name input) of Inl e \<Rightarrow> Inl (InvalidInput e)
      | Inr n \<Rightarrow>
          if 0 \<in> set (email_str em) \<or> 0 \<in> set (name_str n) then Inl DependencyUnavailable
          else if email_in_use db em then Inl EmailAlreadyExists
          else Inr (user_of_row (inserted_user (user_new fresh_user now em n)))))"
proof (cases "email_parse U (ui_email input)")
  case (Inl e)
  then show ?thesis by (simp add: create_user_def op_bind_def lift_result_def)
next
  case (Inr em)
  note em = this
  show ?thesis
  proof (cases "display_name_parse (ui_display_name input)")
    case (Inl e)
    with em show ?thesis by (simp add: create_user_def op_bind_def lift_result_def)
  next
    case (Inr n)
    let ?u = "user_new fresh_user now em n"
    let ?job = "\<lparr> uj_job_type = USER_CREATED_JOB,
        uj_payload = JObject [(lit ''user_id'', JString (user_id_display disp (u_id ?u)))],
        uj_max_attempts = attempts \<rparr>"
    have u: "valid_user U ?u" "u_id ?u = UserId fresh_user"
      using valid_user_new [OF em Inr] by (simp_all add: user_new_def)
    have job: "jsonb_ok (uj_payload ?job)"
      using assms by (simp add: ready_to_register_def pg_text_ok_def user_id_display_def user_new_def)
    from create_with_job_outcome [OF assms u _ _ job]
    have out: "fst (pg_create_with_job U fresh_job trace ?u ?job db) =
     (if \<not> (pg_text_ok (email_str em) \<and> pg_text_ok (name_str n)) then Inl RepositoryUnavailable
      else if email_in_use db em then Inl DuplicateEmail
      else Inr (user_of_row (inserted_user ?u)))" by (simp add: user_new_def)
    obtain res db' where run: "pg_create_with_job U fresh_job trace ?u ?job db = (res, db')" by fastforce
    with out show ?thesis
      by (auto simp: create_user_def em Inr op_bind_def lift_result_def op_map_err_def on_db_def on_cache_def
            op_try_def pg_user_repository_def application_error_from_def pg_text_ok_def Let_def
          split: prod.split)
  qed
qed

text \<open>
  Every answer of a registration is explained.  With the database reachable, \<open>POST /users\<close>
  returns the parse error of the address, else that of the name, else \<open>EmailAlreadyExists\<close>
  exactly when another row has the normalized address, else the created user; only a text with
  U+0000, which the parsers accept and PostgreSQL does not, is answered as an unavailable
  dependency.
\<close>

theorem registration_answers:
  assumes "ready_to_register U disp attempts trace fresh_user fresh_job db"
  shows "fst (create_user U (pg_user_repository U now' fresh_job trace) C ttl attempts disp fresh_user now input (db, c)) =
     (case email_parse U (ui_email input) of Inl e \<Rightarrow> Inl (InvalidInput e)
      | Inr em \<Rightarrow> (case display_name_parse (ui_display_name input) of Inl e \<Rightarrow> Inl (InvalidInput e)
      | Inr n \<Rightarrow>
          if 0 \<in> set (email_str em) \<or> 0 \<in> set (name_str n) then Inl DependencyUnavailable
          else if email_in_use db em then Inl EmailAlreadyExists
          else Inr (user_of_row (inserted_user (user_new fresh_user now em n)))))"
  using create_user_outcome [OF assms] .

definition sample_disp :: "uuid \<Rightarrow> rstring" where
  "sample_disp i = [65 + unat i]"

theorem registration_answers_witness:
  "fst (create_user sample_unicode (pg_user_repository sample_unicode 0 9 JNull) noop_user_cache 60 5 sample_disp 7 5000
       \<lparr> ui_email = lit ''B@x.org'', ui_display_name = lit ''Bob'' \<rparr> (sample_users, ())) = Inl EmailAlreadyExists \<and>
   fst (create_user sample_unicode (pg_user_repository sample_unicode 0 9 JNull) noop_user_cache 60 5 sample_disp 7 5000
       \<lparr> ui_email = lit ''d@x.org'', ui_display_name = [65, 0, 66] \<rparr> (sample_users, ())) = Inl DependencyUnavailable"
proof -
  have ready: "ready_to_register sample_unicode sample_disp 5 JNull 7 9 sample_users"
    using sample_users_ok fresh_row [of 7 sample_users]
    by (simp add: ready_to_register_def validate_max_attempts_def sample_disp_def pg_text_ok_def
          sample_users_def sample_db_def sample_job_def sample_row_def)
  show ?thesis
    unfolding registration_answers [OF ready]
    by (simp add: email_parse_def display_name_parse_def string_eval email_in_use_def sample_users_def
          sample_row_def)
qed

end
