(* ===== verification/App_Config.thy ===== *)
theory App_Config
  imports Prelude
begin

text \<open>
  Configuration from the environment, \<open>src/config/mod.rs\<close>: the reading helpers, the three
  configuration structs with their \<open>from_env\<close>, and \<open>OidcConfig::validate\<close>.  The
  environment is a function from names to what \<open>env::var\<close> returns.  The parsers of socket
  addresses and of CIDR blocks (\<open>ipnet\<close>) are a parameter.
\<close>

section \<open>Reading variables\<close>

datatype var_error = NotPresent | NotUnicode

type_synonym env = "rstring \<Rightarrow> var_error + rstring"

text \<open>The errors, each with the variable its message names.\<close>

datatype config_error =
    MissingVariable rstring
  | EmptyVariable rstring
  | UnreadableVariable rstring
  | InvalidValue rstring
  | NotPositive rstring
  | InvalidCidr rstring rstring
  | InvalidServerAddress
  | RetryMaxBelowBase
  | NoAllowedAlgorithm
  | JwksMaxAgeBelowInterval

definition var_or :: "env \<Rightarrow> rstring \<Rightarrow> rstring \<Rightarrow> rstring" where
  "var_or E name d = (case E name of Inr value \<Rightarrow> value | Inl _ \<Rightarrow> d)"

definition required :: "env \<Rightarrow> rstring \<Rightarrow> config_error + rstring" where
  "required E name = map_err (\<lambda>_. MissingVariable name) (E name)"

definition required_non_empty :: "env \<Rightarrow> rstring \<Rightarrow> config_error + rstring" where
  "required_non_empty E name =
     and_then (required E name) (\<lambda>value.
     and_then (ensure (trim value \<noteq> []) (EmptyVariable name)) (\<lambda>_. Inr value))"

definition optional :: "env \<Rightarrow> rstring \<Rightarrow> config_error + rstring option" where
  "optional E name = (case E name of
     Inr value \<Rightarrow> if trim value = [] then Inr None else Inr (Some value)
   | Inl NotPresent \<Rightarrow> Inr None
   | Inl NotUnicode \<Rightarrow> Inl (UnreadableVariable name))"

definition parse_or :: "(rstring \<Rightarrow> 'a option) \<Rightarrow> env \<Rightarrow> rstring \<Rightarrow> 'a \<Rightarrow> config_error + 'a" where
  "parse_or parse E name d = (case E name of
     Inr value \<Rightarrow> ok_or (InvalidValue name) (parse value)
   | Inl NotPresent \<Rightarrow> Inr d
   | Inl NotUnicode \<Rightarrow> Inl (UnreadableVariable name))"

definition positive_or :: "env \<Rightarrow> rstring \<Rightarrow> 'a::len word \<Rightarrow> config_error + 'a word" where
  "positive_or E name d =
     and_then (parse_or parse_uint E name d) (\<lambda>value.
     and_then (ensure (value > 0) (NotPositive name)) (\<lambda>_. Inr value))"

definition parse_bool :: "rstring \<Rightarrow> bool option" where
  "parse_bool s = (if s = lit ''true'' then Some True else if s = lit ''false'' then Some False else None)"

text \<open>\<open>split(',').map(str::trim).filter(non empty)\<close>.\<close>

definition comma_list :: "rstring \<Rightarrow> rstring list" where
  "comma_list s = filter (\<lambda>w. w \<noteq> []) (map trim (split_on 44 s))"

definition parse_cidrs :: "(rstring \<Rightarrow> 'net option) \<Rightarrow> env \<Rightarrow> rstring \<Rightarrow> config_error + 'net list" where
  "parse_cidrs parse_net E name =
     and_then (optional E name) (\<lambda>value. case value of
       None \<Rightarrow> Inr []
     | Some value \<Rightarrow>
         collect_results (\<lambda>w. ok_or (InvalidCidr name w) (parse_net w)) (comma_list value))"

section \<open>The configuration structs\<close>

record ('addr, 'net) config =
  server_address :: 'addr
  database_url :: rstring
  database_max_connections :: u32
  redis_url :: "rstring option"
  redis_connect_timeout_seconds :: u64
  user_cache_ttl_seconds :: u64
  request_timeout_seconds :: u64
  max_request_body_bytes :: u64
  job_poll_interval_milliseconds :: u64
  job_lease_timeout_seconds :: u64
  job_retry_base_seconds :: u64
  job_retry_max_seconds :: u64
  job_max_attempts :: u32
  job_worker_id :: "rstring option"
  job_completed_retention_seconds :: u64
  job_dead_retention_seconds :: u64
  job_cleanup_interval_seconds :: u64
  rate_limit_requests_per_minute :: u32
  rate_limit_burst :: u32
  trusted_proxy_cidrs :: "'net list"

record telemetry_config =
  log_filter :: rstring
  otlp_endpoint :: "rstring option"
  service_name :: rstring
  prometheus_bearer_token :: "rstring option"

record oidc_config =
  issuer_url :: rstring
  audience :: rstring
  allowed_algorithms :: "rstring list"
  http_timeout_seconds :: u64
  clock_skew_seconds :: u64
  jwks_refresh_interval_seconds :: u64
  jwks_max_age_seconds :: u64
  max_token_lifetime_seconds :: u64
  allow_insecure_http :: bool

record ('addr, 'net) address_parsers =
  parse_socket_addr :: "rstring \<Rightarrow> 'addr option"
  parse_ip_net :: "rstring \<Rightarrow> 'net option"

definition config_from_env :: "('addr, 'net) address_parsers \<Rightarrow> env \<Rightarrow> config_error + ('addr, 'net) config" where
  "config_from_env P E =
     (let host = var_or E (lit ''APP_HOST'') (lit ''0.0.0.0'');
          port = var_or E (lit ''APP_PORT'') (lit ''3000'') in
     and_then (ok_or InvalidServerAddress (parse_socket_addr P (host @ lit '':'' @ port))) (\<lambda>server_address.
     and_then (positive_or E (lit ''DATABASE_MAX_CONNECTIONS'') 10) (\<lambda>database_max_connections.
     and_then (positive_or E (lit ''REDIS_CONNECT_TIMEOUT_SECONDS'') 3) (\<lambda>redis_connect_timeout_seconds.
     and_then (positive_or E (lit ''USER_CACHE_TTL_SECONDS'') 300) (\<lambda>user_cache_ttl_seconds.
     and_then (positive_or E (lit ''REQUEST_TIMEOUT_SECONDS'') 10) (\<lambda>request_timeout_seconds.
     and_then (positive_or E (lit ''MAX_REQUEST_BODY_BYTES'') 65536) (\<lambda>max_request_body_bytes.
     and_then (positive_or E (lit ''JOB_POLL_INTERVAL_MILLISECONDS'') 1000) (\<lambda>job_poll_interval_milliseconds.
     and_then (positive_or E (lit ''JOB_LEASE_TIMEOUT_SECONDS'') 300) (\<lambda>job_lease_timeout_seconds.
     and_then (positive_or E (lit ''JOB_RETRY_BASE_SECONDS'') 5) (\<lambda>job_retry_base_seconds.
     and_then (positive_or E (lit ''JOB_RETRY_MAX_SECONDS'') 300) (\<lambda>job_retry_max_seconds.
     and_then (positive_or E (lit ''JOB_MAX_ATTEMPTS'') 5) (\<lambda>job_max_attempts.
     and_then (positive_or E (lit ''JOB_COMPLETED_RETENTION_SECONDS'') 86400) (\<lambda>job_completed_retention_seconds.
     and_then (positive_or E (lit ''JOB_DEAD_RETENTION_SECONDS'') 2592000) (\<lambda>job_dead_retention_seconds.
     and_then (positive_or E (lit ''JOB_CLEANUP_INTERVAL_SECONDS'') 3600) (\<lambda>job_cleanup_interval_seconds.
     and_then (positive_or E (lit ''RATE_LIMIT_REQUESTS_PER_MINUTE'') 120) (\<lambda>rate_limit_requests_per_minute.
     and_then (positive_or E (lit ''RATE_LIMIT_BURST'') 30) (\<lambda>rate_limit_burst.
     and_then (parse_cidrs (parse_ip_net P) E (lit ''TRUSTED_PROXY_CIDRS'')) (\<lambda>trusted_proxy_cidrs.
     and_then (ensure (job_retry_base_seconds \<le> job_retry_max_seconds) RetryMaxBelowBase) (\<lambda>_.
     and_then (required E (lit ''DATABASE_URL'')) (\<lambda>database_url.
     and_then (optional E (lit ''REDIS_URL'')) (\<lambda>redis_url.
     and_then (optional E (lit ''JOB_WORKER_ID'')) (\<lambda>job_worker_id.
     Inr \<lparr> server_address = server_address, database_url = database_url,
           database_max_connections = database_max_connections, redis_url = redis_url,
           redis_connect_timeout_seconds = redis_connect_timeout_seconds,
           user_cache_ttl_seconds = user_cache_ttl_seconds,
           request_timeout_seconds = request_timeout_seconds,
           max_request_body_bytes = max_request_body_bytes,
           job_poll_interval_milliseconds = job_poll_interval_milliseconds,
           job_lease_timeout_seconds = job_lease_timeout_seconds,
           job_retry_base_seconds = job_retry_base_seconds,
           job_retry_max_seconds = job_retry_max_seconds,
           job_max_attempts = job_max_attempts, job_worker_id = job_worker_id,
           job_completed_retention_seconds = job_completed_retention_seconds,
           job_dead_retention_seconds = job_dead_retention_seconds,
           job_cleanup_interval_seconds = job_cleanup_interval_seconds,
           rate_limit_requests_per_minute = rate_limit_requests_per_minute,
           rate_limit_burst = rate_limit_burst,
           trusted_proxy_cidrs = trusted_proxy_cidrs \<rparr>))))))))))))))))))))))"

definition migration_database_url_from_env :: "env \<Rightarrow> config_error + rstring" where
  "migration_database_url_from_env E =
     and_then (optional E (lit ''MIGRATION_DATABASE_URL'')) (\<lambda>url. case url of
       None \<Rightarrow> required E (lit ''DATABASE_URL'') | Some url \<Rightarrow> Inr url)"

text \<open>\<open>CARGO_PKG_NAME\<close> is fixed at build time by the manifest.\<close>

definition telemetry_from_env :: "env \<Rightarrow> config_error + telemetry_config" where
  "telemetry_from_env E =
     (let log_filter = var_or E (lit ''RUST_LOG'') (lit ''base_skeleton_rust=info,tower_http=info'') in
     and_then (optional E (lit ''OTEL_EXPORTER_OTLP_ENDPOINT'')) (\<lambda>otlp_endpoint.
     let service_name = var_or E (lit ''OTEL_SERVICE_NAME'') (lit ''base_skeleton_rust'') in
     and_then (optional E (lit ''METRICS_PROMETHEUS_BEARER_TOKEN'')) (\<lambda>prometheus_bearer_token.
     Inr \<lparr> log_filter = log_filter, otlp_endpoint = otlp_endpoint, service_name = service_name,
           prometheus_bearer_token = prometheus_bearer_token \<rparr>)))"

definition oidc_validate :: "oidc_config \<Rightarrow> config_error + unit" where
  "oidc_validate c =
     and_then (ensure (jwks_refresh_interval_seconds c > 0) (NotPositive (lit ''OIDC_JWKS_REFRESH_INTERVAL_SECONDS''))) (\<lambda>_.
     and_then (ensure (jwks_max_age_seconds c > 0) (NotPositive (lit ''OIDC_JWKS_MAX_AGE_SECONDS''))) (\<lambda>_.
     and_then (ensure (jwks_refresh_interval_seconds c \<le> jwks_max_age_seconds c) JwksMaxAgeBelowInterval) (\<lambda>_.
     Inr ())))"

definition oidc_from_env :: "env \<Rightarrow> config_error + oidc_config" where
  "oidc_from_env E =
     and_then (required_non_empty E (lit ''OIDC_ISSUER_URL'')) (\<lambda>issuer_url.
     and_then (required_non_empty E (lit ''OIDC_AUDIENCE'')) (\<lambda>audience.
     let algorithms = var_or E (lit ''OIDC_ALLOWED_ALGORITHMS'') (lit ''RS256'');
         allowed_algorithms = comma_list algorithms in
     and_then (ensure (allowed_algorithms \<noteq> []) NoAllowedAlgorithm) (\<lambda>_.
     and_then (positive_or E (lit ''OIDC_HTTP_TIMEOUT_SECONDS'') 5) (\<lambda>http_timeout_seconds.
     and_then (positive_or E (lit ''OIDC_CLOCK_SKEW_SECONDS'') 30) (\<lambda>clock_skew_seconds.
     and_then (positive_or E (lit ''OIDC_JWKS_REFRESH_INTERVAL_SECONDS'') 60) (\<lambda>jwks_refresh_interval_seconds.
     and_then (positive_or E (lit ''OIDC_JWKS_MAX_AGE_SECONDS'') 300) (\<lambda>jwks_max_age_seconds.
     and_then (positive_or E (lit ''OIDC_MAX_TOKEN_LIFETIME_SECONDS'') 3600) (\<lambda>max_token_lifetime_seconds.
     and_then (parse_or parse_bool E (lit ''OIDC_ALLOW_INSECURE_HTTP'') False) (\<lambda>allow_insecure_http.
     let config = \<lparr> issuer_url = issuer_url, audience = audience, allowed_algorithms = allowed_algorithms,
           http_timeout_seconds = http_timeout_seconds, clock_skew_seconds = clock_skew_seconds,
           jwks_refresh_interval_seconds = jwks_refresh_interval_seconds,
           jwks_max_age_seconds = jwks_max_age_seconds,
           max_token_lifetime_seconds = max_token_lifetime_seconds,
           allow_insecure_http = allow_insecure_http \<rparr> in
     and_then (oidc_validate config) (\<lambda>_. Inr config))))))))))"

section \<open>What a loaded configuration satisfies\<close>

lemma positive_or_Inr:
  "positive_or E name d = Inr w \<longleftrightarrow> 0 < w \<and>
     (case E name of Inr v \<Rightarrow> parse_uint v = Some w | Inl NotPresent \<Rightarrow> w = d | Inl NotUnicode \<Rightarrow> False)"
  by (auto simp: positive_or_def parse_or_def result_simps split: sum.split var_error.split)

lemma optional_not_blank: "optional E name = Inr (Some v) \<Longrightarrow> E name = Inr v \<and> trim v \<noteq> []"
  by (auto simp: optional_def split: sum.splits var_error.splits if_splits)

text \<open>Every setting of a loaded configuration is what its variable says.\<close>

lemma config_loaded:
  assumes "config_from_env P E = Inr c"
  shows "positive_or E (lit ''DATABASE_MAX_CONNECTIONS'') 10 = Inr (database_max_connections c)"
    and "positive_or E (lit ''REDIS_CONNECT_TIMEOUT_SECONDS'') 3 = Inr (redis_connect_timeout_seconds c)"
    and "positive_or E (lit ''USER_CACHE_TTL_SECONDS'') 300 = Inr (user_cache_ttl_seconds c)"
    and "positive_or E (lit ''REQUEST_TIMEOUT_SECONDS'') 10 = Inr (request_timeout_seconds c)"
    and "positive_or E (lit ''MAX_REQUEST_BODY_BYTES'') 65536 = Inr (max_request_body_bytes c)"
    and "positive_or E (lit ''JOB_POLL_INTERVAL_MILLISECONDS'') 1000 = Inr (job_poll_interval_milliseconds c)"
    and "positive_or E (lit ''JOB_LEASE_TIMEOUT_SECONDS'') 300 = Inr (job_lease_timeout_seconds c)"
    and "positive_or E (lit ''JOB_RETRY_BASE_SECONDS'') 5 = Inr (job_retry_base_seconds c)"
    and "positive_or E (lit ''JOB_RETRY_MAX_SECONDS'') 300 = Inr (job_retry_max_seconds c)"
    and "positive_or E (lit ''JOB_MAX_ATTEMPTS'') 5 = Inr (job_max_attempts c)"
    and "positive_or E (lit ''JOB_COMPLETED_RETENTION_SECONDS'') 86400 = Inr (job_completed_retention_seconds c)"
    and "positive_or E (lit ''JOB_DEAD_RETENTION_SECONDS'') 2592000 = Inr (job_dead_retention_seconds c)"
    and "positive_or E (lit ''JOB_CLEANUP_INTERVAL_SECONDS'') 3600 = Inr (job_cleanup_interval_seconds c)"
    and "positive_or E (lit ''RATE_LIMIT_REQUESTS_PER_MINUTE'') 120 = Inr (rate_limit_requests_per_minute c)"
    and "positive_or E (lit ''RATE_LIMIT_BURST'') 30 = Inr (rate_limit_burst c)"
    and "job_retry_base_seconds c \<le> job_retry_max_seconds c"
    and "required E (lit ''DATABASE_URL'') = Inr (database_url c)"
    and "optional E (lit ''REDIS_URL'') = Inr (redis_url c)"
    and "optional E (lit ''JOB_WORKER_ID'') = Inr (job_worker_id c)"
    and "parse_cidrs (parse_ip_net P) E (lit ''TRUSTED_PROXY_CIDRS'') = Inr (trusted_proxy_cidrs c)"
    and "parse_socket_addr P (var_or E (lit ''APP_HOST'') (lit ''0.0.0.0'') @ lit '':'' @
           var_or E (lit ''APP_PORT'') (lit ''3000'')) = Some (server_address c)"
  using assms unfolding config_from_env_def Let_def by (auto simp: result_simps simp del: lit_simps)

lemma comma_list_pieces: "w \<in> set (comma_list s) \<Longrightarrow> w \<noteq> [] \<and> 44 \<notin> set w \<and> trim w = w"
  using split_on_pieces set_trim by (fastforce simp: comma_list_def)

lemma oidc_loaded:
  assumes "oidc_from_env E = Inr c"
  shows "oidc_validate c = Inr ()" and "trim (issuer_url c) \<noteq> []" and "trim (audience c) \<noteq> []"
    and "allowed_algorithms c \<noteq> []" and "\<forall>a \<in> set (allowed_algorithms c). a \<noteq> [] \<and> 44 \<notin> set a \<and> trim a = a"
    and "0 < http_timeout_seconds c \<and> 0 < clock_skew_seconds c \<and> 0 < max_token_lifetime_seconds c"
  using assms unfolding oidc_from_env_def Let_def
  by (auto simp: result_simps positive_or_Inr required_non_empty_def simp del: lit_simps
      dest: comma_list_pieces)

text \<open>Positivity, ordering and non-blank texts of the two configurations.\<close>

definition config_ok :: "('addr, 'net) config \<Rightarrow> bool" where
  "config_ok c \<longleftrightarrow>
     0 < database_max_connections c \<and> 0 < redis_connect_timeout_seconds c \<and> 0 < user_cache_ttl_seconds c \<and>
     0 < request_timeout_seconds c \<and> 0 < max_request_body_bytes c \<and> 0 < job_poll_interval_milliseconds c \<and>
     0 < job_lease_timeout_seconds c \<and> 0 < job_retry_base_seconds c \<and>
     job_retry_base_seconds c \<le> job_retry_max_seconds c \<and> 0 < job_max_attempts c \<and>
     0 < job_completed_retention_seconds c \<and> 0 < job_dead_retention_seconds c \<and>
     0 < job_cleanup_interval_seconds c \<and> 0 < rate_limit_requests_per_minute c \<and> 0 < rate_limit_burst c \<and>
     (case redis_url c of None \<Rightarrow> True | Some u \<Rightarrow> trim u \<noteq> []) \<and>
     (case job_worker_id c of None \<Rightarrow> True | Some w \<Rightarrow> trim w \<noteq> [])"

definition oidc_ok :: "oidc_config \<Rightarrow> bool" where
  "oidc_ok c \<longleftrightarrow> trim (issuer_url c) \<noteq> [] \<and> trim (audience c) \<noteq> [] \<and> allowed_algorithms c \<noteq> [] \<and>
     0 < http_timeout_seconds c \<and> 0 < jwks_refresh_interval_seconds c \<and>
     jwks_refresh_interval_seconds c \<le> jwks_max_age_seconds c \<and> 0 < max_token_lifetime_seconds c"

lemma config_from_env_ok: "config_from_env P E = Inr c \<Longrightarrow> config_ok c"
  using config_loaded [of P E c] by (auto simp: config_ok_def positive_or_Inr simp del: lit_simps
      split: option.split dest: optional_not_blank)

lemma oidc_from_env_ok: "oidc_from_env E = Inr c \<Longrightarrow> oidc_ok c"
  using oidc_loaded [of E c] by (auto simp: oidc_ok_def oidc_validate_def result_simps)

definition sample_parsers :: "(rstring, rstring) address_parsers" where
  "sample_parsers = \<lparr> parse_socket_addr = Some, parse_ip_net = Some \<rparr>"

definition sample_env :: env where
  "sample_env name =
     (if name = lit ''DATABASE_URL'' then Inr (lit ''postgres://localhost/app'')
      else if name = lit ''OIDC_ISSUER_URL'' then Inr (lit ''https://issuer.example'')
      else if name = lit ''OIDC_AUDIENCE'' then Inr (lit ''users-api'')
      else if name = lit ''JOB_MAX_ATTEMPTS'' then Inr (lit ''7'')
      else if name = lit ''RATE_LIMIT_BURST'' then Inr (lit ''0'')
      else Inl NotPresent)"

definition good_env :: env where
  "good_env = sample_env(lit ''RATE_LIMIT_BURST'' := Inr (lit ''+40''))"

lemmas config_eval = var_or_def required_def required_non_empty_def optional_def parse_or_def
  positive_or_def parse_uint_def parse_digits_def digits_value_def strip_plus_def ensure_def
  parse_cidrs_def comma_list_def sample_env_def good_env_def oidc_validate_def Let_def

lemma good_env_loads: "is_ok (config_from_env sample_parsers good_env)"
  by (simp add: config_from_env_def config_eval sample_parsers_def string_eval)

lemma good_env_oidc_loads: "is_ok (oidc_from_env good_env)"
  by (simp add: oidc_from_env_def config_eval string_eval)

section \<open>Bad settings are refused\<close>

definition positive_settings :: "(rstring \<times> nat) list" where
  "positive_settings =
     [(lit ''DATABASE_MAX_CONNECTIONS'', 32), (lit ''REDIS_CONNECT_TIMEOUT_SECONDS'', 64),
      (lit ''USER_CACHE_TTL_SECONDS'', 64), (lit ''REQUEST_TIMEOUT_SECONDS'', 64),
      (lit ''MAX_REQUEST_BODY_BYTES'', 64), (lit ''JOB_POLL_INTERVAL_MILLISECONDS'', 64),
      (lit ''JOB_LEASE_TIMEOUT_SECONDS'', 64), (lit ''JOB_RETRY_BASE_SECONDS'', 64),
      (lit ''JOB_RETRY_MAX_SECONDS'', 64), (lit ''JOB_MAX_ATTEMPTS'', 32),
      (lit ''JOB_COMPLETED_RETENTION_SECONDS'', 64), (lit ''JOB_DEAD_RETENTION_SECONDS'', 64),
      (lit ''JOB_CLEANUP_INTERVAL_SECONDS'', 64), (lit ''RATE_LIMIT_REQUESTS_PER_MINUTE'', 32),
      (lit ''RATE_LIMIT_BURST'', 32)]"

text \<open>A variable that is absent, or a whole number from 1 to the largest of its width.\<close>

definition acceptable :: "nat \<Rightarrow> var_error + rstring \<Rightarrow> bool" where
  "acceptable bits r = (case r of
     Inl NotPresent \<Rightarrow> True
   | Inl NotUnicode \<Rightarrow> False
   | Inr v \<Rightarrow> (case parse_digits (strip_plus v) of None \<Rightarrow> False | Some n \<Rightarrow> 0 < n \<and> n < 2 ^ bits))"

lemma parse_uint_positive:
  "parse_uint v = Some (w :: 'a::len word) \<Longrightarrow> 0 < w \<Longrightarrow> acceptable LENGTH('a) (Inr v)"
  by (auto simp: parse_uint_def acceptable_def intro!: gr0I split: option.splits if_splits)

lemma positive_or_acceptable:
  "positive_or E name d = Inr (w :: 'a::len word) \<Longrightarrow> acceptable LENGTH('a) (E name)"
  using parse_uint_positive by (auto simp: positive_or_Inr acceptable_def split: sum.splits var_error.splits)

text \<open>
  A bad number stops the start.  If any of the fifteen positive settings is present but is not
  a whole number of its width, is zero, or is not text, loading the configuration fails: no
  such value is ever replaced by a default.
\<close>

theorem bad_number_stops_start:
  assumes "(name, bits) \<in> set positive_settings" and "\<not> acceptable bits (E name)"
  shows "\<not> is_ok (config_from_env P E)"
proof
  assume "is_ok (config_from_env P E)"
  then obtain c where "config_from_env P E = Inr c" by (auto simp: is_ok_iff)
  note loaded = config_loaded [OF this]
  from assms show False
    using loaded(1-15) [THEN positive_or_acceptable]
    by (auto simp: positive_settings_def simp del: lit_simps)
qed

theorem bad_number_stops_start_witness:
  "\<not> is_ok (config_from_env sample_parsers sample_env)"
proof -
  have "(lit ''RATE_LIMIT_BURST'', 32) \<in> set positive_settings"
    by (simp add: positive_settings_def del: lit_simps)
  moreover have "\<not> acceptable 32 (sample_env (lit ''RATE_LIMIT_BURST''))"
    by (simp add: acceptable_def config_eval string_eval)
  ultimately show ?thesis by (rule bad_number_stops_start)
qed

section \<open>The settings of the configuration reference\<close>

text \<open>The numeric variables of the reference: name, width, default, and the field that holds the value.\<close>

definition number_settings :: "(rstring \<times> nat \<times> nat \<times> (('addr, 'net) config \<Rightarrow> nat)) list" where
  "number_settings =
     [(lit ''DATABASE_MAX_CONNECTIONS'', 32, 10, \<lambda>c. unat (database_max_connections c)),
      (lit ''REDIS_CONNECT_TIMEOUT_SECONDS'', 64, 3, \<lambda>c. unat (redis_connect_timeout_seconds c)),
      (lit ''USER_CACHE_TTL_SECONDS'', 64, 300, \<lambda>c. unat (user_cache_ttl_seconds c)),
      (lit ''REQUEST_TIMEOUT_SECONDS'', 64, 10, \<lambda>c. unat (request_timeout_seconds c)),
      (lit ''MAX_REQUEST_BODY_BYTES'', 64, 65536, \<lambda>c. unat (max_request_body_bytes c)),
      (lit ''RATE_LIMIT_REQUESTS_PER_MINUTE'', 32, 120, \<lambda>c. unat (rate_limit_requests_per_minute c)),
      (lit ''RATE_LIMIT_BURST'', 32, 30, \<lambda>c. unat (rate_limit_burst c)),
      (lit ''JOB_POLL_INTERVAL_MILLISECONDS'', 64, 1000, \<lambda>c. unat (job_poll_interval_milliseconds c)),
      (lit ''JOB_LEASE_TIMEOUT_SECONDS'', 64, 300, \<lambda>c. unat (job_lease_timeout_seconds c)),
      (lit ''JOB_RETRY_BASE_SECONDS'', 64, 5, \<lambda>c. unat (job_retry_base_seconds c)),
      (lit ''JOB_RETRY_MAX_SECONDS'', 64, 300, \<lambda>c. unat (job_retry_max_seconds c)),
      (lit ''JOB_MAX_ATTEMPTS'', 32, 5, \<lambda>c. unat (job_max_attempts c)),
      (lit ''JOB_COMPLETED_RETENTION_SECONDS'', 64, 86400, \<lambda>c. unat (job_completed_retention_seconds c)),
      (lit ''JOB_DEAD_RETENTION_SECONDS'', 64, 2592000, \<lambda>c. unat (job_dead_retention_seconds c)),
      (lit ''JOB_CLEANUP_INTERVAL_SECONDS'', 64, 3600, \<lambda>c. unat (job_cleanup_interval_seconds c))]"

definition oidc_number_settings :: "(rstring \<times> nat \<times> (oidc_config \<Rightarrow> nat)) list" where
  "oidc_number_settings =
     [(lit ''OIDC_HTTP_TIMEOUT_SECONDS'', 5, \<lambda>c. unat (http_timeout_seconds c)),
      (lit ''OIDC_CLOCK_SKEW_SECONDS'', 30, \<lambda>c. unat (clock_skew_seconds c)),
      (lit ''OIDC_JWKS_REFRESH_INTERVAL_SECONDS'', 60, \<lambda>c. unat (jwks_refresh_interval_seconds c)),
      (lit ''OIDC_JWKS_MAX_AGE_SECONDS'', 300, \<lambda>c. unat (jwks_max_age_seconds c)),
      (lit ''OIDC_MAX_TOKEN_LIFETIME_SECONDS'', 3600, \<lambda>c. unat (max_token_lifetime_seconds c))]"

definition setting :: "nat \<Rightarrow> var_error + rstring \<Rightarrow> nat" where
  "setting d x = (case x of Inl _ \<Rightarrow> d | Inr v \<Rightarrow> digits_value (strip_plus v))"

text \<open>The conditions on the environment under which the two configurations load.\<close>

definition config_loads :: "('addr, 'net) address_parsers \<Rightarrow> env \<Rightarrow> bool" where
  "config_loads P E \<longleftrightarrow>
     list_all (\<lambda>(name, bits, d, get :: (unit, unit) config \<Rightarrow> nat). acceptable bits (E name)) number_settings \<and>
     setting 5 (E (lit ''JOB_RETRY_BASE_SECONDS'')) \<le> setting 300 (E (lit ''JOB_RETRY_MAX_SECONDS'')) \<and>
     parse_socket_addr P (var_or E (lit ''APP_HOST'') (lit ''0.0.0.0'') @ lit '':'' @
       var_or E (lit ''APP_PORT'') (lit ''3000'')) \<noteq> None \<and>
     is_ok (E (lit ''DATABASE_URL'')) \<and> E (lit ''REDIS_URL'') \<noteq> Inl NotUnicode \<and>
     E (lit ''JOB_WORKER_ID'') \<noteq> Inl NotUnicode \<and>
     (case E (lit ''TRUSTED_PROXY_CIDRS'') of Inl e \<Rightarrow> e = NotPresent
      | Inr v \<Rightarrow> trim v = [] \<or> list_all (\<lambda>w. parse_ip_net P w \<noteq> None) (comma_list v))"

definition oidc_loads :: "env \<Rightarrow> bool" where
  "oidc_loads E \<longleftrightarrow>
     list_all (\<lambda>(name, d, get). acceptable 64 (E name)) oidc_number_settings \<and>
     setting 60 (E (lit ''OIDC_JWKS_REFRESH_INTERVAL_SECONDS'')) \<le> setting 300 (E (lit ''OIDC_JWKS_MAX_AGE_SECONDS'')) \<and>
     (case E (lit ''OIDC_ISSUER_URL'') of Inl _ \<Rightarrow> False | Inr v \<Rightarrow> trim v \<noteq> []) \<and>
     (case E (lit ''OIDC_AUDIENCE'') of Inl _ \<Rightarrow> False | Inr v \<Rightarrow> trim v \<noteq> []) \<and>
     comma_list (var_or E (lit ''OIDC_ALLOWED_ALGORITHMS'') (lit ''RS256'')) \<noteq> [] \<and>
     (case E (lit ''OIDC_ALLOW_INSECURE_HTTP'') of Inl e \<Rightarrow> e = NotPresent
      | Inr v \<Rightarrow> v = lit ''true'' \<or> v = lit ''false'')"

lemma parse_uint_setting:
  "parse_uint v = Some (w :: 'a::len word) \<Longrightarrow> unat w = digits_value (strip_plus v)"
  by (auto simp: parse_uint_def parse_digits_def unsigned_of_nat take_bit_nat_eq_self split: option.splits if_splits)

lemma positive_or_value:
  assumes "positive_or E name d = Inr (w :: 'a::len word)"
  shows "unat w = setting (unat d) (E name)"
  using assms parse_uint_setting by (auto simp: positive_or_Inr setting_def split: sum.splits var_error.splits)

lemma acceptable_positive_or:
  assumes "acceptable LENGTH('a) (E name)" and "0 < (d :: 'a::len word)"
  obtains w where "positive_or E name d = Inr w"
proof (cases "E name")
  case (Inl e)
  with assms that show thesis by (cases e) (auto simp: positive_or_Inr acceptable_def)
next
  case (Inr v)
  with assms(1) obtain n where n: "parse_digits (strip_plus v) = Some n" "0 < n" "n < 2 ^ LENGTH('a)"
    by (auto simp: acceptable_def split: option.splits)
  then have "0 < (of_nat n :: 'a word)" by (simp add: word_less_nat_alt unsigned_of_nat take_bit_nat_eq_self)
  with n Inr show thesis by (intro that [of "of_nat n"]) (simp add: positive_or_Inr parse_uint_def)
qed

lemma collect_results_ok: "is_ok (collect_results f xs) \<longleftrightarrow> list_all (\<lambda>x. is_ok (f x)) xs"
proof (induction xs)
  case (Cons x xs)
  then show ?case by (cases "f x"; cases "collect_results f xs") simp_all
qed simp

lemma parse_cidrs_loads:
  "is_ok (parse_cidrs f E name) \<longleftrightarrow> (case E name of Inl e \<Rightarrow> e = NotPresent
     | Inr v \<Rightarrow> trim v = [] \<or> list_all (\<lambda>w. f w \<noteq> None) (comma_list v))"
proof -
  have ok: "is_ok (ok_or e (f w)) \<longleftrightarrow> f w \<noteq> None" for e w by (cases "f w") simp_all
  show ?thesis
  proof (cases "E name")
    case (Inl e)
    then show ?thesis by (cases e) (simp_all add: parse_cidrs_def optional_def)
  next
    case (Inr v)
    then show ?thesis by (simp add: parse_cidrs_def optional_def collect_results_ok ok)
  qed
qed

lemma optional_ok: "is_ok (optional E name) \<longleftrightarrow> E name \<noteq> Inl NotUnicode"
  by (cases "E name"; cases "projl (E name)") (simp_all add: optional_def)

lemma config_from_env_loads: "is_ok (config_from_env P E) \<longleftrightarrow> config_loads P E"
proof
  assume "is_ok (config_from_env P E)"
  then obtain c where "config_from_env P E = Inr c" by (auto simp: is_ok_iff)
  note l = config_loaded [OF this]
  have "setting 5 (E (lit ''JOB_RETRY_BASE_SECONDS'')) \<le> setting 300 (E (lit ''JOB_RETRY_MAX_SECONDS''))"
    using l(16) positive_or_value [OF l(8)] positive_or_value [OF l(9)] by (simp add: word_le_nat_alt del: lit_simps)
  moreover have "is_ok (optional E (lit ''REDIS_URL''))" "is_ok (optional E (lit ''JOB_WORKER_ID''))"
    "is_ok (parse_cidrs (parse_ip_net P) E (lit ''TRUSTED_PROXY_CIDRS''))"
    using l(18-20) by (simp_all del: lit_simps)
  moreover have "is_ok (E (lit ''DATABASE_URL''))"
    using l(17) by (cases "E (lit ''DATABASE_URL'')") (simp_all add: required_def del: lit_simps)
  ultimately show "config_loads P E"
    using l(21) l(1-15) [THEN positive_or_acceptable]
    by (simp add: config_loads_def number_settings_def optional_ok parse_cidrs_loads del: lit_simps)
next
  assume "config_loads P E"
  note c = this [unfolded config_loads_def]
  have acc: "acceptable 32 (E (lit ''DATABASE_MAX_CONNECTIONS''))" "acceptable 64 (E (lit ''REDIS_CONNECT_TIMEOUT_SECONDS''))"
    "acceptable 64 (E (lit ''USER_CACHE_TTL_SECONDS''))" "acceptable 64 (E (lit ''REQUEST_TIMEOUT_SECONDS''))"
    "acceptable 64 (E (lit ''MAX_REQUEST_BODY_BYTES''))" "acceptable 64 (E (lit ''JOB_POLL_INTERVAL_MILLISECONDS''))"
    "acceptable 64 (E (lit ''JOB_LEASE_TIMEOUT_SECONDS''))" "acceptable 64 (E (lit ''JOB_RETRY_BASE_SECONDS''))"
    "acceptable 64 (E (lit ''JOB_RETRY_MAX_SECONDS''))" "acceptable 32 (E (lit ''JOB_MAX_ATTEMPTS''))"
    "acceptable 64 (E (lit ''JOB_COMPLETED_RETENTION_SECONDS''))" "acceptable 64 (E (lit ''JOB_DEAD_RETENTION_SECONDS''))"
    "acceptable 64 (E (lit ''JOB_CLEANUP_INTERVAL_SECONDS''))" "acceptable 32 (E (lit ''RATE_LIMIT_REQUESTS_PER_MINUTE''))"
    "acceptable 32 (E (lit ''RATE_LIMIT_BURST''))"
    using c by (simp_all add: number_settings_def del: lit_simps)
  have ex: "\<exists>w :: 64 word. positive_or E name d = Inr w" if "acceptable 64 (E name)" "0 < d" for name and d :: "64 word"
    using acceptable_positive_or [of E name d] that by auto
  have ex32: "\<exists>w :: 32 word. positive_or E name d = Inr w" if "acceptable 32 (E name)" "0 < d" for name and d :: "32 word"
    using acceptable_positive_or [of E name d] that by auto
  obtain base where base: "positive_or E (lit ''JOB_RETRY_BASE_SECONDS'') 5 = Inr (base :: u64)"
    using ex [OF acc(8)] by force
  obtain top where top: "positive_or E (lit ''JOB_RETRY_MAX_SECONDS'') 300 = Inr (top :: u64)"
    using ex [OF acc(9)] by force
  have "base \<le> top"
    using c positive_or_value [OF base] positive_or_value [OF top] by (simp add: word_le_nat_alt del: lit_simps)
  moreover obtain addr where "parse_socket_addr P (var_or E (lit ''APP_HOST'') (lit ''0.0.0.0'') @ lit '':'' @
       var_or E (lit ''APP_PORT'') (lit ''3000'')) = Some addr" using c by (auto simp del: lit_simps)
  moreover have "\<exists>v. required E (lit ''DATABASE_URL'') = Inr v"
    using c by (auto simp: required_def is_ok_iff simp del: lit_simps)
  moreover have "\<exists>v. optional E (lit ''REDIS_URL'') = Inr v" "\<exists>v. optional E (lit ''JOB_WORKER_ID'') = Inr v"
    "\<exists>v. parse_cidrs (parse_ip_net P) E (lit ''TRUSTED_PROXY_CIDRS'') = Inr v"
    using c by (simp_all add: is_ok_iff [symmetric] optional_ok parse_cidrs_loads del: lit_simps)
  moreover note ex32 [OF acc(1), of 10] ex [OF acc(2), of 3] ex [OF acc(3), of 300] ex [OF acc(4), of 10]
    ex [OF acc(5), of 65536] ex [OF acc(6), of 1000] ex [OF acc(7), of 300] ex32 [OF acc(10), of 5]
    ex [OF acc(11), of 86400] ex [OF acc(12), of 2592000] ex [OF acc(13), of 3600] ex32 [OF acc(14), of 120] ex32 [OF acc(15), of 30]
  ultimately show "is_ok (config_from_env P E)"
    by (clarsimp simp: config_from_env_def Let_def base top ensure_def simp del: lit_simps)
qed

lemma config_values:
  assumes "config_from_env P E = Inr c"
  shows "\<forall>(name, bits, d, get) \<in> set number_settings. get c = setting d (E name)"
  using config_loaded(1-15) [OF assms, THEN positive_or_value]
  by (simp add: number_settings_def del: lit_simps)

lemma oidc_numbers:
  assumes "oidc_from_env E = Inr c"
  shows "positive_or E (lit ''OIDC_HTTP_TIMEOUT_SECONDS'') 5 = Inr (http_timeout_seconds c)"
    and "positive_or E (lit ''OIDC_CLOCK_SKEW_SECONDS'') 30 = Inr (clock_skew_seconds c)"
    and "positive_or E (lit ''OIDC_JWKS_REFRESH_INTERVAL_SECONDS'') 60 = Inr (jwks_refresh_interval_seconds c)"
    and "positive_or E (lit ''OIDC_JWKS_MAX_AGE_SECONDS'') 300 = Inr (jwks_max_age_seconds c)"
    and "positive_or E (lit ''OIDC_MAX_TOKEN_LIFETIME_SECONDS'') 3600 = Inr (max_token_lifetime_seconds c)"
    and "required_non_empty E (lit ''OIDC_ISSUER_URL'') = Inr (issuer_url c)"
    and "required_non_empty E (lit ''OIDC_AUDIENCE'') = Inr (audience c)"
    and "allowed_algorithms c = comma_list (var_or E (lit ''OIDC_ALLOWED_ALGORITHMS'') (lit ''RS256''))"
    and "parse_or parse_bool E (lit ''OIDC_ALLOW_INSECURE_HTTP'') False = Inr (allow_insecure_http c)"
  using assms unfolding oidc_from_env_def Let_def by (auto simp: result_simps simp del: lit_simps)

lemma parse_bool_loads:
  "is_ok (parse_or parse_bool E name d) \<longleftrightarrow> (case E name of Inl e \<Rightarrow> e = NotPresent
     | Inr v \<Rightarrow> v = lit ''true'' \<or> v = lit ''false'')"
proof (cases "E name")
  case (Inl e)
  then show ?thesis by (cases e) (simp_all add: parse_or_def)
qed (simp add: parse_or_def parse_bool_def del: lit_simps)

lemma required_non_empty_ok:
  "required_non_empty E name = Inr v \<longleftrightarrow> E name = Inr v \<and> trim v \<noteq> []"
  by (cases "E name") (auto simp: required_non_empty_def required_def result_simps)

lemma oidc_from_env_loads: "is_ok (oidc_from_env E) \<longleftrightarrow> oidc_loads E"
proof
  assume "is_ok (oidc_from_env E)"
  then obtain c where loaded: "oidc_from_env E = Inr c" by (auto simp: is_ok_iff)
  note l = oidc_numbers [OF loaded]
  have "jwks_refresh_interval_seconds c \<le> jwks_max_age_seconds c"
    using oidc_from_env_ok [OF loaded] by (simp add: oidc_ok_def)
  then have "setting 60 (E (lit ''OIDC_JWKS_REFRESH_INTERVAL_SECONDS'')) \<le> setting 300 (E (lit ''OIDC_JWKS_MAX_AGE_SECONDS''))"
    using positive_or_value [OF l(3)] positive_or_value [OF l(4)] by (simp add: word_le_nat_alt del: lit_simps)
  moreover have "is_ok (parse_or parse_bool E (lit ''OIDC_ALLOW_INSECURE_HTTP'') False)" unfolding l(9) by simp
  moreover have "allowed_algorithms c \<noteq> []" using oidc_loaded(4) [OF loaded] .
  ultimately show "oidc_loads E"
    using l(8) l(1-5) [THEN positive_or_acceptable] l(6,7)
    by (simp add: oidc_loads_def oidc_number_settings_def parse_bool_loads required_non_empty_ok del: lit_simps)
next
  assume "oidc_loads E"
  note c = this [unfolded oidc_loads_def]
  have acc: "acceptable 64 (E (lit ''OIDC_HTTP_TIMEOUT_SECONDS''))" "acceptable 64 (E (lit ''OIDC_CLOCK_SKEW_SECONDS''))"
    "acceptable 64 (E (lit ''OIDC_JWKS_REFRESH_INTERVAL_SECONDS''))" "acceptable 64 (E (lit ''OIDC_JWKS_MAX_AGE_SECONDS''))"
    "acceptable 64 (E (lit ''OIDC_MAX_TOKEN_LIFETIME_SECONDS''))"
    using c by (simp_all add: oidc_number_settings_def del: lit_simps)
  have ex: "\<exists>w :: 64 word. positive_or E name d = Inr w \<and> 0 < w" if "acceptable 64 (E name)" "0 < d" for name and d :: "64 word"
    using acceptable_positive_or [of E name d] that by (auto simp: positive_or_Inr)
  obtain iv where iv: "positive_or E (lit ''OIDC_JWKS_REFRESH_INTERVAL_SECONDS'') 60 = Inr (iv :: u64)" "0 < iv"
    using ex [OF acc(3), of 60] by (auto simp del: lit_simps)
  obtain age where age: "positive_or E (lit ''OIDC_JWKS_MAX_AGE_SECONDS'') 300 = Inr (age :: u64)" "0 < age"
    using ex [OF acc(4), of 300] by (auto simp del: lit_simps)
  have "iv \<le> age"
    using c positive_or_value [OF iv(1)] positive_or_value [OF age(1)] by (simp add: word_le_nat_alt del: lit_simps)
  moreover obtain issuer where "required_non_empty E (lit ''OIDC_ISSUER_URL'') = Inr issuer"
    using c unfolding required_non_empty_ok by (auto simp del: lit_simps split: sum.splits)
  moreover obtain aud where "required_non_empty E (lit ''OIDC_AUDIENCE'') = Inr aud"
    using c unfolding required_non_empty_ok by (auto simp del: lit_simps split: sum.splits)
  moreover obtain insecure where "parse_or parse_bool E (lit ''OIDC_ALLOW_INSECURE_HTTP'') False = Inr insecure"
    using c parse_bool_loads [of E "lit ''OIDC_ALLOW_INSECURE_HTTP''" False] by (auto simp: is_ok_iff simp del: lit_simps)
  moreover note iv age c ex [OF acc(1), of 5] ex [OF acc(2), of 30] ex [OF acc(5), of 3600]
  ultimately show "is_ok (oidc_from_env E)"
    by (clarsimp simp: oidc_from_env_def Let_def ensure_def oidc_validate_def simp del: lit_simps)
qed

lemma oidc_values:
  assumes "oidc_from_env E = Inr c"
  shows "\<forall>(name, d, get) \<in> set oidc_number_settings. get c = setting d (E name)"
  using oidc_numbers(1-5) [OF assms, THEN positive_or_value]
  by (simp add: oidc_number_settings_def del: lit_simps)

text \<open>
  C25. Settings load as the configuration reference says.  The configuration loads exactly when every
  numeric variable is unset or a positive whole number of its width, the retry ceiling is at least
  the base, the address, the CIDR list and the texts can be read and \<open>DATABASE_URL\<close> is set; the token
  settings load exactly when theirs are too, issuer and audience are not blank, an algorithm is
  named, the flag is \<open>true\<close> or \<open>false\<close> and the key set lives at least a refresh interval.  Every
  loaded number is the one the variable spells, or the documented default when it is unset.  (Not
  every loaded value works later: the upper limits of the attempts and of the intervals are
  not checked here.)
\<close>

theorem settings_load_as_documented:
  assumes "config_from_env P E = c" and "oidc_from_env E = oc"
  shows "(case c of Inl _ \<Rightarrow> \<not> config_loads P E
     | Inr x \<Rightarrow> config_loads P E \<and> config_ok x \<and>
         (\<forall>(name, bits, d, get) \<in> set number_settings. get x = setting d (E name))) \<and>
     (case oc of Inl _ \<Rightarrow> \<not> oidc_loads E
     | Inr x \<Rightarrow> oidc_loads E \<and> oidc_ok x \<and>
         (\<forall>(name, d, get) \<in> set oidc_number_settings. get x = setting d (E name)))"
proof
  show "case c of Inl _ \<Rightarrow> \<not> config_loads P E
     | Inr x \<Rightarrow> config_loads P E \<and> config_ok x \<and>
         (\<forall>(name, bits, d, get) \<in> set number_settings. get x = setting d (E name))"
    using assms(1) config_from_env_loads [of P E] config_from_env_ok [of P E] config_values [of P E] by (cases c) simp_all
  show "case oc of Inl _ \<Rightarrow> \<not> oidc_loads E
     | Inr x \<Rightarrow> oidc_loads E \<and> oidc_ok x \<and>
         (\<forall>(name, d, get) \<in> set oidc_number_settings. get x = setting d (E name))"
    using assms(2) oidc_from_env_loads [of E] oidc_from_env_ok [of E] oidc_values [of E] by (cases oc) simp_all
qed

theorem settings_load_as_documented_witness:
  "\<not> config_loads sample_parsers sample_env \<and>
   (\<exists>x. config_from_env sample_parsers good_env = Inr x \<and> unat (job_max_attempts x) = 7 \<and> unat (rate_limit_burst x) = 40)"
proof -
  obtain e where "config_from_env sample_parsers sample_env = Inl e"
    by (simp add: config_from_env_def config_eval sample_parsers_def string_eval)
  from settings_load_as_documented [OF this refl] have "\<not> config_loads sample_parsers sample_env" by simp
  moreover obtain x where x: "config_from_env sample_parsers good_env = Inr x"
    using good_env_loads unfolding is_ok_iff by blast
  from settings_load_as_documented [OF x refl]
  have "unat (job_max_attempts x) = setting 5 (good_env (lit ''JOB_MAX_ATTEMPTS''))"
    "unat (rate_limit_burst x) = setting 30 (good_env (lit ''RATE_LIMIT_BURST''))"
    by (simp_all add: number_settings_def del: lit_simps)
  then have n: "unat (job_max_attempts x) = 7" "unat (rate_limit_burst x) = 40"
    by (simp_all add: setting_def config_eval string_eval)
  ultimately show ?thesis using x n by blast
qed

end
