(* ===== verification/Worker_Process.thy ===== *)
theory Worker_Process
  imports Job_Worker User_Service App_Config
begin

text \<open>
  The worker process: the shutdown channel (\<open>src/bootstrap/shutdown.rs\<close>), the loop of
  \<open>src/bootstrap/worker.rs\<close> that alternates clean-up and runs of the job worker, and the
  handler it registers (\<open>src/infrastructure/job/user_created_handler.rs\<close>).

  As for the heartbeat, what the runtime contributes is an explicit input: a \<open>round\<close> holds the
  time that passes at each point of one round, the inputs of its clean-up and of its run, and the
  branch \<open>select!\<close> tries first (these \<open>select!\<close>s are not \<open>biased\<close>: it picks one at random).
  The list of rounds is the fuel of the loop.
\<close>

section \<open>The shutdown channel\<close>

text \<open>
  A \<open>watch\<close> channel: when \<open>true\<close> was sent and when the last sender went away.  Nothing but
  \<open>true\<close> is ever sent.
\<close>

record receiver =
  rc_sent :: "instant option"
  rc_closed :: "instant option"

definition requested :: "receiver \<Rightarrow> instant \<Rightarrow> bool" where
  "requested r now = by_time (rc_sent r) now"

fun first_of :: "instant option \<Rightarrow> instant option \<Rightarrow> instant option" where
  "first_of None y = y"
| "first_of x None = x"
| "first_of (Some x) (Some y) = Some (min x y)"

text \<open>The instant at which \<open>wait\<close>, called at \<open>now\<close>, resolves: a request, or a closed channel.\<close>

definition wait_until :: "receiver \<Rightarrow> instant \<Rightarrow> instant option" where
  "wait_until r now = map_option (max now) (first_of (rc_sent r) (rc_closed r))"

definition wait_or_timeout :: "receiver \<Rightarrow> duration \<Rightarrow> duration \<Rightarrow> bool \<Rightarrow> instant \<Rightarrow> bool \<times> instant" where
  "wait_or_timeout r d late wait_first now =
     (let t = poll_at now [wait_until r now] (now + d) late;
          waited = by_time (wait_until r now) t;
          slept = (now + d \<le> t)
      in (waited \<and> (\<not> slept \<or> wait_first), t))"

section \<open>Clean-up and iteration\<close>

datatype cleanup_report = PurgedJobs nat | NothingToPurge | CleanupFailed

definition cleanup :: "'q job_queue \<Rightarrow> job_worker \<Rightarrow> (nat \<Rightarrow> 'q \<Rightarrow> 'q) \<Rightarrow> 'q \<Rightarrow> cleanup_report \<times> 'q" where
  "cleanup Q W others q =
     (case run_maintenance Q (jw_config W) others q of
        (Inr purged, q') \<Rightarrow> (if 0 < purged then PurgedJobs purged else NothingToPurge, q')
      | (Inl e, q') \<Rightarrow> (CleanupFailed, q'))"

text \<open>
  A clean-up dropped by \<open>select!\<close> has sent some of its batches (at most 16); \<open>ce_time\<close> is how long
  a complete clean-up would take, \<open>None\<close> if it never ends.
\<close>

record 'q cleanup_env =
  ce_time :: "duration option"
  ce_late :: duration
  ce_shutdown_first :: bool
  ce_others :: "nat \<Rightarrow> 'q \<Rightarrow> 'q"
  ce_batches :: nat

definition cleanup_or_shutdown :: "'q job_queue \<Rightarrow> job_worker \<Rightarrow> receiver \<Rightarrow> 'q cleanup_env \<Rightarrow> instant
    \<Rightarrow> 'q \<Rightarrow> (bool \<times> instant \<times> 'q) option" where
  "cleanup_or_shutdown Q W r env now q =
     (let waiting = wait_until r now;
          cleaning = map_option (\<lambda>d. now + d) (ce_time env)
      in case first_of waiting cleaning of
           None \<Rightarrow> None
         | Some e \<Rightarrow>
             let t = max now e + ce_late env in
             if by_time waiting t \<and> (\<not> by_time cleaning t \<or> ce_shutdown_first env)
             then Some (True, t, snd (maintenance_rounds Q (jw_config W) (ce_others env) (min 16 (ce_batches env)) 0 q))
             else Some (False, t, snd (cleanup Q W (ce_others env) q)))"

definition iteration :: "'q job_queue \<Rightarrow> job_worker \<Rightarrow> 'q run_env \<Rightarrow> instant \<Rightarrow> 'q \<Rightarrow> (bool \<times> 'q) option" where
  "iteration Q W env now q =
     (case run_once Q W env now q of
        None \<Rightarrow> None
      | Some (Inr Idle, q') \<Rightarrow> Some (True, q')
      | Some (Inr _, q') \<Rightarrow> Some (False, q')
      | Some (Inl e, q') \<Rightarrow> Some (True, q'))"

section \<open>The loop\<close>

record 'q round =
  rd_wake :: duration
  rd_check :: duration
  rd_cleanup :: "'q cleanup_env"
  rd_run :: "'q run_env"
  rd_run_time :: duration
  rd_pause_late :: duration
  rd_wait_first :: bool

text \<open>The spans of the clean-ups and of the runs so far, in order.\<close>

record spans =
  cleanups :: "(instant \<times> instant) list"
  runs :: "(instant \<times> instant) list"

record worker_state =
  ws_now :: instant
  ws_next_cleanup :: instant
  ws_spans :: spans

definition cleanup_if_due :: "'q job_queue \<Rightarrow> job_worker \<Rightarrow> duration \<Rightarrow> receiver \<Rightarrow> 'q cleanup_env
    \<Rightarrow> worker_state \<Rightarrow> 'q \<Rightarrow> (bool \<times> worker_state \<times> 'q) option" where
  "cleanup_if_due Q W cleanup_interval r env s q =
     (if ws_next_cleanup s \<le> ws_now s then
        (case cleanup_or_shutdown Q W r env (ws_now s) q of
           None \<Rightarrow> None
         | Some (stop, t, q') \<Rightarrow>
             Some (stop, s\<lparr> ws_now := t, ws_next_cleanup := t + cleanup_interval,
               ws_spans := (ws_spans s)\<lparr> cleanups := cleanups (ws_spans s) @ [(ws_now s, t)] \<rparr> \<rparr>, q'))
      else Some (False, s, q))"

fun worker_loop :: "'q job_queue \<Rightarrow> job_worker \<Rightarrow> duration \<Rightarrow> duration \<Rightarrow> receiver \<Rightarrow> 'q round list
    \<Rightarrow> worker_state \<Rightarrow> 'q \<Rightarrow> (worker_state \<times> 'q) option" where
  "worker_loop Q W poll_interval cleanup_interval r [] s q = None"
| "worker_loop Q W poll_interval cleanup_interval r (rd # rds) s q =
     (let s0 = s\<lparr> ws_now := ws_now s + rd_wake rd \<rparr> in
      if requested r (ws_now s0) then Some (s0, q)
      else
        case cleanup_if_due Q W cleanup_interval r (rd_cleanup rd)
               (s0\<lparr> ws_now := ws_now s0 + rd_check rd \<rparr>) q of
          None \<Rightarrow> None
        | Some (stop, s1, q1) \<Rightarrow>
            if stop then Some (s1, q1)
            else
              (case iteration Q W (rd_run rd) (ws_now s1) q1 of
                 None \<Rightarrow> None
               | Some (should_pause, q2) \<Rightarrow>
                   let ended = ws_now s1 + rd_run_time rd;
                       s2 = s1\<lparr> ws_now := ended,
                         ws_spans := (ws_spans s1)\<lparr> runs := runs (ws_spans s1) @ [(ws_now s1, ended)] \<rparr> \<rparr>
                   in if should_pause then
                        (case wait_or_timeout r poll_interval (rd_pause_late rd) (rd_wait_first rd) ended of
                           (stop, t) \<Rightarrow>
                             if stop then Some (s2\<lparr> ws_now := t \<rparr>, q2)
                             else worker_loop Q W poll_interval cleanup_interval r rds (s2\<lparr> ws_now := t \<rparr>) q2)
                      else worker_loop Q W poll_interval cleanup_interval r rds s2 q2))"

definition start_state :: "instant \<Rightarrow> worker_state" where
  "start_state now = \<lparr> ws_now = now, ws_next_cleanup = now, ws_spans = \<lparr> cleanups = [], runs = [] \<rparr> \<rparr>"

section \<open>The process\<close>

text \<open>
  \<open>serde_json::from_value\<close> into \<open>UserCreatedPayload\<close>: an object with the field, or the sequence
  of the fields.  UUID parsing and the text of a decoding error are parameters.
\<close>

definition user_created_payload :: "(rstring \<Rightarrow> uuid option) \<Rightarrow> json \<Rightarrow> uuid option" where
  "user_created_payload parse payload =
     (case payload of
        JObject kvs \<Rightarrow> (case map_of kvs (lit ''user_id'') of Some (JString s) \<Rightarrow> parse s | _ \<Rightarrow> None)
      | JArray [JString s] \<Rightarrow> parse s
      | _ \<Rightarrow> None)"

definition user_created_handler :: "(rstring \<Rightarrow> uuid option) \<Rightarrow> (json \<Rightarrow> rstring) \<Rightarrow> job_handler" where
  "user_created_handler parse decode_error =
     \<lparr> jh_job_type = USER_CREATED_JOB,
       jh_handle = (\<lambda>job. case user_created_payload parse (cj_payload job) of
          None \<Rightarrow> Inl (JobHandlerError (lit ''invalid user.created payload: '' @ decode_error (cj_payload job)))
        | Some user_id \<Rightarrow> Inr ()) \<rparr>"

definition from_secs :: "u64 \<Rightarrow> duration" where
  "from_secs n = unat n * 1000000000"

definition from_millis :: "u64 \<Rightarrow> duration" where
  "from_millis n = unat n * 1000000"

definition worker_config_from :: "('addr, 'net) config \<Rightarrow> rstring \<Rightarrow> job_worker_config" where
  "worker_config_from c fresh_id =
     \<lparr> wc_worker_id = (case job_worker_id c of Some i \<Rightarrow> i | None \<Rightarrow> lit ''worker-'' @ fresh_id),
       wc_lease_timeout = from_secs (job_lease_timeout_seconds c),
       wc_retry_base = from_secs (job_retry_base_seconds c),
       wc_retry_max = from_secs (job_retry_max_seconds c),
       wc_completed_retention = from_secs (job_completed_retention_seconds c),
       wc_dead_retention = from_secs (job_dead_retention_seconds c) \<rparr>"

definition worker_of :: "(rstring \<Rightarrow> uuid option) \<Rightarrow> (json \<Rightarrow> rstring) \<Rightarrow> rstring
    \<Rightarrow> ('addr, 'net) config \<Rightarrow> job_worker" where
  "worker_of parse decode_error fresh_id c =
     job_worker_new [user_created_handler parse decode_error] (worker_config_from c fresh_id)"

definition worker_process :: "(rstring \<Rightarrow> uuid option) \<Rightarrow> (json \<Rightarrow> rstring) \<Rightarrow> rstring
    \<Rightarrow> ('addr, 'net) config \<Rightarrow> receiver \<Rightarrow> pg round list \<Rightarrow> instant \<Rightarrow> pg \<Rightarrow> (worker_state \<times> pg) option" where
  "worker_process parse decode_error fresh_id c r rounds now db =
     worker_loop pg_job_queue (worker_of parse decode_error fresh_id c)
       (from_millis (job_poll_interval_milliseconds c)) (from_secs (job_cleanup_interval_seconds c))
       r rounds (start_state now) db"

section \<open>Stopping\<close>

lemma by_time_mono: "by_time e t \<Longrightarrow> t \<le> t' \<Longrightarrow> by_time e t'"
  by (auto simp: by_time_def split: option.splits)

definition stop_seen :: "receiver \<Rightarrow> instant \<Rightarrow> bool" where
  "stop_seen r t \<longleftrightarrow> by_time (rc_sent r) t \<or> by_time (rc_closed r) t"

lemma wait_until_seen: "by_time (wait_until r now) t \<Longrightarrow> stop_seen r t"
  by (cases "rc_sent r"; cases "rc_closed r")
    (auto simp: wait_until_def stop_seen_def by_time_def split: option.splits)

lemma wait_or_timeout_stop: "wait_or_timeout r d late c now = (True, t) \<Longrightarrow> stop_seen r t"
  by (auto simp: wait_or_timeout_def Let_def dest: wait_until_seen)

lemma wait_or_timeout_later: "wait_or_timeout r d late c now = (stop, t) \<Longrightarrow> now \<le> t"
  by (auto simp: wait_or_timeout_def poll_at_def Let_def)

text \<open>
  What holds of the spans at any moment: runs lie in the past, every run but the last had ended
  before the shutdown was requested, and clean-ups keep their distance.
\<close>

definition spans_ok :: "duration \<Rightarrow> receiver \<Rightarrow> worker_state \<Rightarrow> bool" where
  "spans_ok interval r s \<longleftrightarrow>
     (\<forall>(a, b) \<in> set (runs (ws_spans s)). a \<le> b \<and> b \<le> ws_now s) \<and>
     (\<forall>(a, b) \<in> set (butlast (runs (ws_spans s))). \<not> requested r b) \<and>
     sorted_wrt (\<lambda>x y. snd x + interval \<le> fst y) (cleanups (ws_spans s)) \<and>
     (\<forall>(a, b) \<in> set (cleanups (ws_spans s)). a \<le> b \<and> b + interval \<le> ws_next_cleanup s)"

lemma spans_ok_later: "spans_ok i r s \<Longrightarrow> spans_ok i r (s\<lparr> ws_now := ws_now s + d \<rparr>)"
  by (fastforce simp: spans_ok_def)

lemma spans_ok_start: "spans_ok i r (start_state now)"
  by (simp add: spans_ok_def start_state_def)

lemma cleanup_if_due_spans:
  assumes "spans_ok i r s" and "cleanup_if_due Q W i r env s q = Some (stop, s', q')"
  shows "spans_ok i r s'" and "ws_now s \<le> ws_now s'" and "runs (ws_spans s') = runs (ws_spans s)"
    and "stop \<Longrightarrow> stop_seen r (ws_now s')"
proof -
  have "spans_ok i r s' \<and> ws_now s \<le> ws_now s' \<and> runs (ws_spans s') = runs (ws_spans s) \<and>
      (stop \<longrightarrow> stop_seen r (ws_now s'))"
  proof (cases "ws_next_cleanup s \<le> ws_now s")
    case True
    then obtain t where c: "cleanup_or_shutdown Q W r env (ws_now s) q = Some (stop, t, q')"
      and s': "s' = s\<lparr> ws_now := t, ws_next_cleanup := t + i,
               ws_spans := (ws_spans s)\<lparr> cleanups := cleanups (ws_spans s) @ [(ws_now s, t)] \<rparr> \<rparr>"
      using assms(2) by (auto simp: cleanup_if_due_def split: option.splits)
    have t: "ws_now s \<le> t" "stop \<Longrightarrow> stop_seen r t"
      using c by (auto simp: cleanup_or_shutdown_def Let_def dest: wait_until_seen
          split: option.splits if_splits)
    have "\<forall>(a, b) \<in> set (cleanups (ws_spans s)). b + i \<le> ws_now s"
      using assms(1) True by (fastforce simp: spans_ok_def)
    with assms(1) t(1) have "spans_ok i r s'"
      unfolding spans_ok_def s' by (fastforce simp: sorted_wrt_append)
    with t show ?thesis by (simp add: s')
  next
    case False
    with assms show ?thesis by (auto simp: cleanup_if_due_def)
  qed
  then show "spans_ok i r s'" "ws_now s \<le> ws_now s'" "runs (ws_spans s') = runs (ws_spans s)"
    "stop \<Longrightarrow> stop_seen r (ws_now s')" by simp_all
qed

text \<open>A run that began after a head check that saw no request.\<close>

lemma spans_ok_run:
  assumes "spans_ok i r s" and "\<forall>(a, b) \<in> set (runs (ws_spans s)). \<not> requested r b"
  shows "spans_ok i r (s\<lparr> ws_now := ws_now s + d,
           ws_spans := (ws_spans s)\<lparr> runs := runs (ws_spans s) @ [(ws_now s, ws_now s + d)] \<rparr> \<rparr>)"
  using assms by (fastforce simp: spans_ok_def)

lemma requested_mono: "requested r t \<Longrightarrow> t \<le> t' \<Longrightarrow> requested r t'"
  by (auto simp: requested_def intro: by_time_mono)

lemma worker_loop_spans:
  assumes "spans_ok i r s" and "worker_loop Q W p i r rounds s q = Some (s', q')"
  shows "spans_ok i r s' \<and> stop_seen r (ws_now s')"
  using assms
proof (induction rounds arbitrary: s q)
  case (Cons rd rds)
  let ?s0 = "s\<lparr> ws_now := ws_now s + rd_wake rd \<rparr>"
  let ?s1 = "?s0\<lparr> ws_now := ws_now ?s0 + rd_check rd \<rparr>"
  have ok0: "spans_ok i r ?s0" using spans_ok_later [OF Cons.prems(1)] .
  show ?case
  proof (cases "requested r (ws_now ?s0)")
    case True
    with Cons.prems(2) ok0 show ?thesis by (auto simp: Let_def stop_seen_def requested_def)
  next
    case False
    obtain stop s2 q1 where c: "cleanup_if_due Q W i r (rd_cleanup rd) ?s1 q = Some (stop, s2, q1)"
      using Cons.prems(2) False by (auto simp: Let_def split: option.splits)
    note c_ok = cleanup_if_due_spans [OF spans_ok_later [OF ok0] c]
    show ?thesis
    proof (cases stop)
      case True
      with Cons.prems(2) False c c_ok show ?thesis by (auto simp: Let_def)
    next
      case go: False
      obtain pause q2 where it: "iteration Q W (rd_run rd) (ws_now s2) q1 = Some (pause, q2)"
        using Cons.prems(2) False c go by (auto simp: Let_def split: option.splits)
      let ?s3 = "s2\<lparr> ws_now := ws_now s2 + rd_run_time rd,
           ws_spans := (ws_spans s2)\<lparr> runs := runs (ws_spans s2) @ [(ws_now s2, ws_now s2 + rd_run_time rd)] \<rparr> \<rparr>"
      have "\<forall>(a, b) \<in> set (runs (ws_spans s2)). \<not> requested r b"
        using False ok0 c_ok(3) requested_mono by (fastforce simp: spans_ok_def)
      from spans_ok_run [OF c_ok(1) this] have ok3: "spans_ok i r ?s3" .
      obtain st t where w: "wait_or_timeout r p (rd_pause_late rd) (rd_wait_first rd) (ws_now ?s3) = (st, t)"
        by fastforce
      then obtain d where t: "t = ws_now ?s3 + d" using wait_or_timeout_later le_Suc_ex by blast
      have ok4: "spans_ok i r (?s3\<lparr> ws_now := t \<rparr>)"
        using spans_ok_later [OF ok3, of d] unfolding t .
      have run: "(if pause then (if st then Some (?s3\<lparr> ws_now := t \<rparr>, q2)
            else worker_loop Q W p i r rds (?s3\<lparr> ws_now := t \<rparr>) q2)
          else worker_loop Q W p i r rds ?s3 q2) = Some (s', q')"
        using Cons.prems(2) False c go it w by (simp add: Let_def cong: if_cong)
      show ?thesis
      proof (cases "pause \<and> st")
        case True
        with run have "s' = ?s3\<lparr> ws_now := t \<rparr>" by simp
        with ok4 True w wait_or_timeout_stop show ?thesis by auto
      next
        case False
        with run have "worker_loop Q W p i r rds (if pause then ?s3\<lparr> ws_now := t \<rparr> else ?s3) q2 = Some (s', q')"
          by (simp split: if_splits)
        moreover have "spans_ok i r (if pause then ?s3\<lparr> ws_now := t \<rparr> else ?s3)" using ok3 ok4 by simp
        ultimately show ?thesis using Cons.IH by blast
      qed
    qed
  qed
qed simp

lemma first_of_None: "first_of a b = None \<longleftrightarrow> a = None \<and> b = None"
  by (cases a; cases b) auto

lemma cleanup_if_due_answers:
  assumes "rc_sent r = Some t"
  shows "cleanup_if_due Q W i r env s q \<noteq> None"
proof -
  have "first_of (wait_until r (ws_now s)) (map_option (\<lambda>d. ws_now s + d) (ce_time env)) \<noteq> None"
    using assms by (simp add: first_of_None wait_until_def)
  then show ?thesis
    by (auto simp del: not_None_eq simp: cleanup_if_due_def cleanup_or_shutdown_def Let_def split: option.split)
qed

lemma cleanup_if_due_later:
  assumes "cleanup_if_due Q W i r env s q = Some (stop, s', q')"
  shows "ws_now s \<le> ws_now s'"
  using assms by (auto simp: cleanup_if_due_def cleanup_or_shutdown_def Let_def
      split: option.splits if_splits)

text \<open>Enough rounds, each of which takes time and whose run ends, outlast any request.\<close>

lemma worker_loop_stops:
  assumes "rc_sent r = Some t"
    and "\<forall>rd \<in> set rounds. 0 < rd_wake rd \<and> (\<forall>now q. iteration Q W (rd_run rd) now q \<noteq> None)"
    and "t - ws_now s < length rounds"
  shows "worker_loop Q W p i r rounds s q \<noteq> None"
  using assms(2,3)
proof (induction rounds arbitrary: s q)
  case (Cons rd rds)
  let ?s0 = "s\<lparr> ws_now := ws_now s + rd_wake rd \<rparr>"
  let ?s1 = "?s0\<lparr> ws_now := ws_now ?s0 + rd_check rd \<rparr>"
  show ?case
  proof (cases "requested r (ws_now ?s0)")
    case True
    then show ?thesis by (simp add: Let_def)
  next
    case False
    then have t: "ws_now s + rd_wake rd < t" using assms(1) by (simp add: requested_def by_time_def)
    have IH: "worker_loop Q W p i r rds s' q' \<noteq> None" if "ws_now ?s1 \<le> ws_now s'" for s' q'
    proof (rule Cons.IH)
      show "\<forall>rd \<in> set rds. 0 < rd_wake rd \<and> (\<forall>now q. iteration Q W (rd_run rd) now q \<noteq> None)"
        using Cons.prems(1) by simp
      have "0 < rd_wake rd" using Cons.prems(1) by simp
      then show "t - ws_now s' < length rds" using that Cons.prems(2) t by simp
    qed
    obtain stop s2 q1 where c: "cleanup_if_due Q W i r (rd_cleanup rd) ?s1 q = Some (stop, s2, q1)"
      using cleanup_if_due_answers [OF assms(1)] by (metis not_Some_eq prod_cases3)
    obtain pause q2 where it: "iteration Q W (rd_run rd) (ws_now s2) q1 = Some (pause, q2)"
      using Cons.prems(1) by (metis list.set_intros(1) not_Some_eq surj_pair)
    have s2: "ws_now ?s1 \<le> ws_now s2" using cleanup_if_due_later [OF c] .
    obtain st u where w: "wait_or_timeout r p (rd_pause_late rd) (rd_wait_first rd) (ws_now s2 + rd_run_time rd) = (st, u)"
      by fastforce
    have "ws_now s2 + rd_run_time rd \<le> u" using wait_or_timeout_later [OF w] .
    with s2 have u: "ws_now ?s1 \<le> u" "ws_now ?s1 \<le> ws_now s2 + rd_run_time rd" by simp_all
    show ?thesis using False c it w IH u by (simp add: Let_def cong: if_cong)
  qed
qed simp

section \<open>The queue under the process\<close>

text \<open>The other clients keep the invariant, whatever the round.\<close>

definition round_keeps :: "('q \<Rightarrow> bool) \<Rightarrow> 'q round \<Rightarrow> bool" where
  "round_keeps P rd \<longleftrightarrow> env_keeps P (rd_run rd) \<and> (\<forall>n q. P q \<longrightarrow> P (ce_others (rd_cleanup rd) n q))"

context job_queue_contract
begin

lemma maintenance_rounds_inv:
  assumes "\<And>n q. inv q \<Longrightarrow> inv (others n q)" and "inv q"
  shows "inv (snd (maintenance_rounds Q c others n k q))"
  using assms(2)
proof (induction n arbitrary: k q)
  case (Suc n)
  obtain x q1 where purge: "q_purge_terminal Q (wc_completed_retention c) (wc_dead_retention c) (others n q) = (x, q1)"
    by fastforce
  have "inv q1" using purge_inv [OF assms(1) [OF Suc.prems]] purge by (metis snd_conv)
  with Suc.IH purge show ?case by (auto split: sum.split)
qed simp

lemma timeout_call_inv:
  assumes "op_keeps inv m" and "\<And>q. inv q \<Longrightarrow> inv (cl_others cl q)" and "inv q"
    and "timeout_call d now cl m q = (x, t, q')"
  shows "inv q'"
proof -
  obtain a where "call_effect a cl m q = (x, q')"
    using assms(4) by (auto simp: timeout_call_def Let_def split: prod.splits)
  with call_effect_keeps [OF assms(1-3), of a] show ?thesis by simp
qed

lemma run_once_inv:
  assumes "inv q" and "env_keeps inv env" and "run_once Q W env now q = Some (x, q')"
  shows "inv q'"
proof -
  let ?c = "jw_config W"
  obtain y q1 where claim: "q_claim Q (wc_worker_id ?c) (wc_lease_timeout ?c) q = (y, q1)" by fastforce
  have q1: "inv q1" using claim_inv [OF assms(1)] claim by (metis snd_conv)
  show ?thesis
  proof (cases "\<exists>job. y = Inr (Some job)")
    case True
    then obtain job where y: "y = Inr (Some job)" by blast
    obtain out sent t q2 where run: "execute_with_heartbeat Q W job now (now + re_claim_time env)
        (re_finish env) (re_beats env) q1 = Some (out, sent, t, q2)"
      using assms(3) claim y by (auto simp: run_once_def Let_def split: option.splits)
    have q2: "inv q2"
      using heartbeat_loop_keeps [OF op_keeps_renew _ q1 run [unfolded execute_with_heartbeat_def]]
        assms(2) by (simp add: env_keeps_def)
    have others: "inv (cl_others (re_terminal env) z)" if "inv z" for z
      using assms(2) that by (simp add: env_keeps_def)
    have writes: "op_keeps inv (q_complete Q (cj_id job) w a)" "op_keeps inv (q_fail Q (cj_id job) w a m d)" for w a m d
      by (intro op_keepsI complete_inv fail_inv; assumption)+
    note kept = timeout_call_inv [OF writes(1) others q2] timeout_call_inv [OF writes(2) others q2]
    show ?thesis
      using assms(3) claim y run q2 kept
      by (auto simp: run_once_def Let_def
          split: option.splits sum.splits if_splits prod.splits job_disposition.splits)
  next
    case False
    with assms(3) claim q1 show ?thesis
      by (auto simp: run_once_def Let_def split: option.splits sum.splits)
  qed
qed

lemma iteration_inv:
  assumes "inv q" and "env_keeps inv env" and "iteration Q W env now q = Some (p, q')"
  shows "inv q'"
  using assms(3) run_once_inv [OF assms(1,2)]
  by (fastforce simp: iteration_def split: option.splits sum.splits run_outcome.splits)

lemma cleanup_if_due_inv:
  assumes "inv q" and "\<And>n q. inv q \<Longrightarrow> inv (ce_others env n q)"
    and "cleanup_if_due Q W i r env s q = Some (stop, s', q')"
  shows "inv q'"
proof -
  have rounds: "inv (snd (maintenance_rounds Q c (ce_others env) n k q))" for c n k
    by (rule maintenance_rounds_inv [OF assms(2) assms(1)])
  have "inv (snd (cleanup Q W (ce_others env) q))"
    using rounds [of "jw_config W" 16 0]
    by (auto simp: cleanup_def run_maintenance_def split: sum.splits prod.splits)
  with rounds assms(1,3) show ?thesis
    by (auto simp: cleanup_if_due_def cleanup_or_shutdown_def Let_def split: option.splits if_splits)
qed

lemma worker_loop_inv:
  assumes "inv q" and "list_all (round_keeps inv) rounds"
    and "worker_loop Q W p i r rounds s q = Some (s', q')"
  shows "inv q'"
  using assms
proof (induction rounds arbitrary: s q)
  case (Cons rd rds)
  have others: "inv z \<Longrightarrow> inv (ce_others (rd_cleanup rd) n z)" for n z
    using Cons.prems(2) by (simp add: round_keeps_def)
  have env: "env_keeps inv (rd_run rd)" using Cons.prems(2) by (simp add: round_keeps_def)
  have IH: "inv z \<Longrightarrow> worker_loop Q W p i r rds s1 z = Some (s', q') \<Longrightarrow> inv q'" for s1 z
    using Cons.IH Cons.prems(2) by simp
  let ?s0 = "s\<lparr> ws_now := ws_now s + rd_wake rd \<rparr>"
  let ?s1 = "?s0\<lparr> ws_now := ws_now ?s0 + rd_check rd \<rparr>"
  show ?case
  proof (cases "requested r (ws_now ?s0)")
    case True
    with Cons.prems(1,3) show ?thesis by (simp add: Let_def)
  next
    case False
    obtain stop s2 q1 where c: "cleanup_if_due Q W i r (rd_cleanup rd) ?s1 q = Some (stop, s2, q1)"
      using Cons.prems(3) False by (auto simp: Let_def split: option.splits)
    have q1: "inv q1" by (rule cleanup_if_due_inv [OF Cons.prems(1) others c])
    show ?thesis
    proof (cases stop)
      case True
      with Cons.prems(3) False c q1 show ?thesis by (simp add: Let_def)
    next
      case go: False
      obtain pause q2 where it: "iteration Q W (rd_run rd) (ws_now s2) q1 = Some (pause, q2)"
        using Cons.prems(3) False c go by (auto simp: Let_def split: option.splits)
      have q2: "inv q2" by (rule iteration_inv [OF q1 env it])
      obtain st u where w: "wait_or_timeout r p (rd_pause_late rd) (rd_wait_first rd) (ws_now s2 + rd_run_time rd) = (st, u)"
        by fastforce
      have "q' = q2 \<or> (\<exists>s1. worker_loop Q W p i r rds s1 q2 = Some (s', q'))"
        using Cons.prems(3) False c go it w by (auto simp: Let_def cong: if_cong split: if_splits)
      with q2 IH show ?thesis by blast
    qed
  qed
qed simp

end

section \<open>The process on PostgreSQL\<close>

text \<open>
  C21. The worker stops cleanly and only on request.  If the process returns, a shutdown was requested
  or its channel closed (no error of the queue, of a handler or of a clean-up ends it); every run it
  began had ended; only the last of them can have ended after the request, so at most one job is
  handled past it; clean-ups are an interval apart; and the job table is still well formed.
\<close>

theorem worker_stops_only_on_request:
  assumes "pg_jobs_ok db" and "list_all (round_keeps pg_jobs_ok) rounds"
    and "worker_process parse err fresh_id c r rounds now db = Some (s, db')"
  shows "stop_seen r (ws_now s) \<and>
     (\<forall>(a, b) \<in> set (runs (ws_spans s)). a \<le> b \<and> b \<le> ws_now s) \<and>
     (\<forall>(a, b) \<in> set (butlast (runs (ws_spans s))). \<not> requested r b) \<and>
     sorted_wrt (\<lambda>x y. snd x + from_secs (job_cleanup_interval_seconds c) \<le> fst y) (cleanups (ws_spans s)) \<and>
     pg_jobs_ok db'"
  using worker_loop_spans [OF spans_ok_start assms(3) [unfolded worker_process_def]]
    pgq.worker_loop_inv [OF assms(1,2) assms(3) [unfolded worker_process_def]]
  by (simp add: spans_ok_def)

text \<open>
  A requested shutdown ends the worker.  Once \<open>true\<close> is sent, and if rounds take time and
  their runs end, the loop returns before more rounds than there are instants until the request:
  neither a hanging clean-up nor a long pause can hold it up.
\<close>

theorem worker_shutdown_terminates:
  assumes "rc_sent r = Some t"
    and "\<forall>rd \<in> set rounds. 0 < rd_wake rd \<and>
       (\<forall>now db. iteration pg_job_queue (worker_of parse err fresh_id c) (rd_run rd) now db \<noteq> None)"
    and "t - now < length rounds"
  shows "\<exists>s db'. worker_process parse err fresh_id c r rounds now db = Some (s, db')"
  using worker_loop_stops [OF assms(1,2), of "start_state now"] assms(3)
  by (simp add: worker_process_def start_state_def)

text \<open>A worker that sees a request at 30; its claims are slower than its lease.\<close>

definition sample_settings :: "(rstring, rstring) config" where
  "sample_settings = \<lparr> server_address = [], database_url = [], database_max_connections = 10,
     redis_url = None, redis_connect_timeout_seconds = 3, user_cache_ttl_seconds = 300,
     request_timeout_seconds = 10, max_request_body_bytes = 65536, job_poll_interval_milliseconds = 1000,
     job_lease_timeout_seconds = 1, job_retry_base_seconds = 5, job_retry_max_seconds = 300,
     job_max_attempts = 5, job_worker_id = Some (lit ''w''), job_completed_retention_seconds = 86400,
     job_dead_retention_seconds = 2592000, job_cleanup_interval_seconds = 3600,
     rate_limit_requests_per_minute = 120, rate_limit_burst = 30, trusted_proxy_cidrs = [] \<rparr>"

definition sample_parse_uuid :: "rstring \<Rightarrow> uuid option" where
  "sample_parse_uuid s = (case s of [n] \<Rightarrow> Some (of_nat (n - 65)) | _ \<Rightarrow> None)"

definition sample_round :: "duration option \<Rightarrow> pg round" where
  "sample_round cleaning = \<lparr> rd_wake = 1, rd_check = 0,
     rd_cleanup = \<lparr> ce_time = cleaning, ce_late = 0, ce_shutdown_first = True, ce_others = (\<lambda>_ q. q), ce_batches = 1 \<rparr>,
     rd_run = \<lparr> re_claim_time = 1000000000, re_finish = Some 15, re_beats = [sample_beat], re_terminal = sample_call \<rparr>,
     rd_run_time = 2, rd_pause_late = 0, rd_wait_first = True \<rparr>"

abbreviation sample_shutdown :: receiver where
  "sample_shutdown \<equiv> \<lparr> rc_sent = Some 30, rc_closed = None \<rparr>"

abbreviation sample_process :: "duration option \<Rightarrow> nat \<Rightarrow> (worker_state \<times> pg) option" where
  "sample_process cleaning n \<equiv> worker_process sample_parse_uuid (\<lambda>_. []) [] sample_settings
     sample_shutdown (replicate n (sample_round cleaning)) 0 sample_db"

lemma slow_claim_ends:
  assumes "wc_lease_timeout (jw_config W) \<le> re_claim_time env" and "re_beats env \<noteq> []"
  shows "iteration Q W env now q \<noteq> None"
proof -
  obtain b bs where "re_beats env = b # bs" using assms(2) by (cases "re_beats env") auto
  with assms(1) have late: "execute_with_heartbeat Q W job now (now + re_claim_time env) (re_finish env)
      (re_beats env) q1 = Some (Inl LeaseLost, [], now + re_claim_time env, q1)" for job q1
    by (simp add: execute_with_heartbeat_def)
  obtain x q1 where "q_claim Q (wc_worker_id (jw_config W)) (wc_lease_timeout (jw_config W)) q = (x, q1)" by fastforce
  with late have "run_once Q W env now q \<noteq> None"
    by (cases x) (auto simp: run_once_def Let_def split: option.split)
  then show ?thesis by (auto simp: iteration_def split: sum.split run_outcome.split)
qed

lemma sample_rounds_end:
  "iteration pg_job_queue (worker_of parse err [] sample_settings) (rd_run (sample_round cleaning)) now db \<noteq> None"
  by (rule slow_claim_ends)
    (simp_all add: sample_round_def worker_of_def job_worker_new_def worker_config_from_def
      sample_settings_def from_secs_def)

lemma sample_rounds_keep: "list_all (round_keeps pg_jobs_ok) (replicate n (sample_round cleaning))"
  by (simp add: list_all_iff round_keeps_def env_keeps_def sample_round_def sample_beat_def sample_call_def)

lemma sample_process_returns: "\<exists>s db'. sample_process cleaning 31 = Some (s, db')"
proof -
  have "\<forall>rd \<in> set (replicate 31 (sample_round cleaning)). 0 < rd_wake rd \<and> (\<forall>now db. iteration pg_job_queue
      (worker_of sample_parse_uuid (\<lambda>_. []) [] sample_settings) (rd_run rd) now db \<noteq> None)"
    using sample_rounds_end by (simp add: sample_round_def)
  from worker_loop_stops [of sample_shutdown 30, OF _ this] show ?thesis
    by (simp add: worker_process_def start_state_def)
qed

theorem worker_stops_only_on_request_witness:
  "\<exists>s db'. sample_process (Some 3) 31 = Some (s, db') \<and> 30 \<le> ws_now s \<and> pg_jobs_ok db'"
proof -
  obtain s db' where run: "sample_process (Some 3) 31 = Some (s, db')"
    using sample_process_returns by blast
  from worker_stops_only_on_request [OF sample_db_ok sample_rounds_keep run] run show ?thesis
    by (simp add: stop_seen_def by_time_def)
qed

theorem worker_shutdown_terminates_witness:
  "\<exists>s db'. sample_process None 31 = Some (s, db')"
  by (rule worker_shutdown_terminates [where t = 30])
    (use sample_rounds_end in \<open>simp_all add: sample_round_def\<close>)

section \<open>From a registration to its job\<close>

lemma create_user_job:
  assumes "create_user U (pg_user_repository U now' fresh_job trace) C ttl m disp fresh now input (db, c) = (Inr u, db', c')"
  obtains em n v where "email_parse U (ui_email input) = Inr em" and "display_name_parse (ui_display_name input) = Inr n"
    and "pg_create_with_job U fresh_job trace (user_new fresh now em n)
       \<lparr> uj_job_type = USER_CREATED_JOB, uj_payload = JObject [(lit ''user_id'', JString (disp fresh))],
         uj_max_attempts = m \<rparr> db = (Inr v, db')"
  using assms
  by (fastforce simp: create_user_def op_simps result_simps op_bind_def op_map_err_def on_db_def on_cache_def
      op_try_def lift_result_def pg_user_repository_def user_id_display_def user_new_def Let_def
      split: sum.splits prod.splits)

text \<open>
  C23. Every registration feeds the worker.  When \<open>POST /users\<close> succeeds on PostgreSQL, the table has
  one new pending job; the handler of the worker process decodes its payload back to the identifier
  of the new user, and it accepts every claim of that job.  The UUID crate's parser need only read
  back what it printed.
\<close>

theorem registrations_feed_the_worker:
  assumes "pg_users_ok U db" and "pg_jobs_ok db" and "parse (disp fresh) = Some fresh"
    and "create_user U (pg_user_repository U now' fresh_job trace) C ttl m disp fresh now input (db, c)
       = (Inr u, db', c')"
  shows "\<exists>row. jobs db' = jobs db @ [row] \<and> jr_id row = fresh_job \<and> jr_status row = Pending \<and>
     user_created_payload parse (jr_payload row) = Some fresh \<and>
     (\<forall>job. into_application row = Inr job \<longrightarrow> handler_result (worker_of parse err fresh_id cfg) job = Inr ())"
proof -
  obtain em n v where in_ok: "email_parse U (ui_email input) = Inr em" "display_name_parse (ui_display_name input) = Inr n"
    and run: "pg_create_with_job U fresh_job trace (user_new fresh now em n)
       \<lparr> uj_job_type = USER_CREATED_JOB, uj_payload = JObject [(lit ''user_id'', JString (disp fresh))],
         uj_max_attempts = m \<rparr> db = (Inr v, db')"
    using assms(4) by (rule create_user_job)
  from pg_create_effect [OF assms(1,2) valid_user_new [OF in_ok] run] obtain row where
    row: "jobs db' = jobs db @ [row]" "jr_id row = fresh_job" "jr_status row = Pending"
      "jr_job_type row = USER_CREATED_JOB" "jr_payload row = JObject [(lit ''user_id'', JString (disp fresh))]"
    by auto
  have payload: "user_created_payload parse (jr_payload row) = Some fresh"
    using row(5) assms(3) by (simp add: user_created_payload_def)
  have "handler_result (worker_of parse err fresh_id cfg) job = Inr ()"
    if "into_application row = Inr job" for job
    using that row(4) payload
    by (auto simp: into_application_def result_simps handler_result_def worker_of_def job_worker_new_def
        user_created_handler_def)
  with row payload show ?thesis by blast
qed

theorem registrations_feed_the_worker_witness:
  "\<exists>row. jobs (fst (snd (create_user sample_unicode (pg_user_repository sample_unicode 0 9 JNull) noop_user_cache 60 5
       sample_disp 7 5000 \<lparr> ui_email = lit ''d@x.org'', ui_display_name = lit ''Dan'' \<rparr> (sample_users, ())))) =
     jobs sample_users @ [row] \<and> user_created_payload sample_parse_uuid (jr_payload row) = Some 7"
proof -
  let ?in = "\<lparr> ui_email = lit ''d@x.org'', ui_display_name = lit ''Dan'' \<rparr>"
  let ?run = "create_user sample_unicode (pg_user_repository sample_unicode 0 9 JNull) noop_user_cache 60 5
       sample_disp 7 5000 ?in (sample_users, ())"
  have ready: "ready_to_register sample_unicode sample_disp 5 JNull 7 9 sample_users"
    using sample_users_ok fresh_row [of 7 sample_users]
    by (simp add: ready_to_register_def validate_max_attempts_def sample_disp_def pg_text_ok_def
          sample_users_def sample_db_def sample_job_def sample_row_def)
  have "is_ok (fst ?run)"
    unfolding create_user_outcome [OF ready]
    by (simp add: email_parse_def display_name_parse_def string_eval email_in_use_def sample_users_def
          sample_row_def)
  then obtain u where run: "?run = (Inr u, fst (snd ?run), snd (snd ?run))"
    by (metis is_ok_iff prod.collapse)
  have "sample_parse_uuid (sample_disp 7) = Some 7" by (simp add: sample_parse_uuid_def sample_disp_def)
  from registrations_feed_the_worker [where parse = sample_parse_uuid and disp = sample_disp,
      OF sample_users_ok sample_users_jobs_ok this run] show ?thesis by blast
qed

end
