(* ===== verification/Oidc.thy ===== *)
theory Oidc
  imports App_Config
begin

text \<open>
  Access-token verification: the port and its result (\<open>src/application/auth.rs\<close>) and the OIDC
  adapter (\<open>src/infrastructure/oidc/mod.rs\<close>): discovery, the bounded download of metadata,
  the index of signing keys, the key cache with its two timers, and \<open>verify\<close>.

  The JOSE library, the URL parser, JSON decoding and the network are not part of the sources.
  They are the functions of the record \<open>jose\<close> and, per request, the answer of the provider.
  Clock readings are inputs, one for each call of \<open>Instant::now\<close> or \<open>elapsed\<close>.
\<close>

section \<open>The port\<close>

record principal =
  p_subject :: rstring
  p_scopes :: "rstring list"

definition has_scope :: "principal \<Rightarrow> rstring \<Rightarrow> bool" where
  "has_scope p scope = (scope \<in> set (p_scopes p))"

datatype verification_error = InvalidToken | AuthenticationUnavailable

text \<open>
  The port \<open>AccessTokenVerifier\<close>: verification over the state of the key cache.  What a provider
  promises: a token is accepted only for a reason, which \<open>accepts\<close> states of the token, of its principal and
  of the keys after the call.
\<close>

type_synonym 'k token_verifier = "rstring \<Rightarrow> ('k, verification_error, principal) op"

locale access_token_verifier =
  fixes verifier :: "'k token_verifier"
    and accepts :: "rstring \<Rightarrow> principal \<Rightarrow> 'k \<Rightarrow> bool"
  assumes verified: "verifier token st = (Inr p, st') \<Longrightarrow> accepts token p st'"

section \<open>Algorithms and keys\<close>

datatype algorithm =
    HS256 | HS384 | HS512 | ES256 | ES384
  | RS256 | RS384 | RS512 | PS256 | PS384 | PS512 | EdDSA

text \<open>The derived \<open>Debug\<close> text.\<close>

definition algorithm_debug :: "algorithm \<Rightarrow> rstring" where
  "algorithm_debug a = (case a of
     HS256 \<Rightarrow> lit ''HS256'' | HS384 \<Rightarrow> lit ''HS384'' | HS512 \<Rightarrow> lit ''HS512''
   | ES256 \<Rightarrow> lit ''ES256'' | ES384 \<Rightarrow> lit ''ES384''
   | RS256 \<Rightarrow> lit ''RS256'' | RS384 \<Rightarrow> lit ''RS384'' | RS512 \<Rightarrow> lit ''RS512''
   | PS256 \<Rightarrow> lit ''PS256'' | PS384 \<Rightarrow> lit ''PS384'' | PS512 \<Rightarrow> lit ''PS512''
   | EdDSA \<Rightarrow> lit ''EdDSA'')"

definition is_hmac :: "algorithm \<Rightarrow> bool" where
  "is_hmac a \<longleftrightarrow> a = HS256 \<or> a = HS384 \<or> a = HS512"

datatype public_key_use = Signature | OtherUse rstring
datatype key_operation = Verify | OtherOperation rstring
datatype key_parameters = EllipticCurve | RSA | OctetKey | OctetKeyPair

text \<open>A JWK; \<open>jwk_algorithm\<close> is the text of its \<open>alg\<close>, \<open>jwk_material\<close> the key itself.\<close>

record 'm jwk =
  jwk_key_id :: "rstring option"
  jwk_public_key_use :: "public_key_use option"
  jwk_key_operations :: "key_operation list option"
  jwk_algorithm :: "rstring option"
  jwk_parameters :: key_parameters
  jwk_material :: 'm

definition key_is_usable :: "'m jwk \<Rightarrow> algorithm \<Rightarrow> bool" where
  "key_is_usable key a \<longleftrightarrow>
     (case jwk_public_key_use key of None \<Rightarrow> True | Some u \<Rightarrow> u = Signature) \<and>
     (case jwk_key_operations key of None \<Rightarrow> True | Some ops \<Rightarrow> Verify \<in> set ops) \<and>
     (case jwk_algorithm key of None \<Rightarrow> True | Some t \<Rightarrow> t = algorithm_debug a) \<and>
     (case jwk_parameters key of
        RSA \<Rightarrow> a \<in> {RS256, RS384, RS512, PS256, PS384, PS512}
      | EllipticCurve \<Rightarrow> a \<in> {ES256, ES384}
      | OctetKeyPair \<Rightarrow> a = EdDSA
      | OctetKey \<Rightarrow> False)"

section \<open>The libraries\<close>

record claims =
  cl_sub :: rstring
  cl_exp :: u64
  cl_iat :: u64
  cl_scope :: rstring

record validation =
  vd_algorithm :: algorithm
  vd_leeway :: u64
  vd_nbf :: bool
  vd_audience :: "rstring list"
  vd_issuer :: "rstring list"
  vd_required :: "rstring list"
  vd_signature :: bool

record url =
  url_scheme :: rstring
  url_query :: "rstring option"
  url_fragment :: "rstring option"

record ('m, 'k) jose =
  algorithm_from_str :: "rstring \<Rightarrow> algorithm option"
  decode_header :: "rstring \<Rightarrow> (algorithm \<times> rstring option) option"
  decode_token :: "rstring \<Rightarrow> 'k \<Rightarrow> validation \<Rightarrow> claims option"
  from_secret_empty :: 'k
  from_jwk :: "'m jwk \<Rightarrow> 'k option"
  url_parse :: "rstring \<Rightarrow> url option"
  discovery_from_slice :: "rstring \<Rightarrow> (rstring \<times> rstring) option"
  jwks_from_slice :: "rstring \<Rightarrow> 'm jwk list option"

section \<open>Errors of discovery\<close>

datatype oidc_error =
    ConfigRejected config_error
  | RequestFailed
  | UnsuccessfulStatus
  | ResponseTooLarge
  | ReadFailed
  | InvalidJson
  | InvalidUrl rstring
  | QueryOrFragment rstring
  | InsecureScheme rstring
  | IssuerMismatch
  | EmptyJwksUri
  | UnsupportedAlgorithm rstring
  | SymmetricAlgorithm
  | NoAlgorithms
  | InvalidSigningKey
  | NoUsableKey

section \<open>Downloading metadata\<close>

definition MAX_METADATA_RESPONSE_BYTES :: nat where
  "MAX_METADATA_RESPONSE_BYTES = 1048576"

text \<open>An answer of the provider: no response, or a status, a declared length and the body's chunks.\<close>

datatype chunk = Chunk rstring | ChunkError

datatype response = NoResponse | Response (rsp_status: nat) (rsp_content_length: "u64 option") (rsp_body: "chunk list")

fun read_chunks :: "rstring \<Rightarrow> chunk list \<Rightarrow> oidc_error + rstring" where
  "read_chunks bytes [] = Inr bytes"
| "read_chunks bytes (ChunkError # cs) = Inl ReadFailed"
| "read_chunks bytes (Chunk c # cs) =
     (if length c \<le> MAX_METADATA_RESPONSE_BYTES - length bytes then read_chunks (bytes @ c) cs
      else Inl ResponseTooLarge)"

definition fetch_json :: "(rstring \<Rightarrow> 'a option) \<Rightarrow> response \<Rightarrow> oidc_error + 'a" where
  "fetch_json from_slice r = (case r of
     NoResponse \<Rightarrow> Inl RequestFailed
   | Response status content_length body \<Rightarrow>
       and_then (ensure (200 \<le> status \<and> status < 300) UnsuccessfulStatus) (\<lambda>_.
       and_then (ensure (case content_length of None \<Rightarrow> True | Some n \<Rightarrow> unat n \<le> MAX_METADATA_RESPONSE_BYTES)
          ResponseTooLarge) (\<lambda>_.
       and_then (read_chunks [] body) (\<lambda>bytes. ok_or InvalidJson (from_slice bytes)))))"

text \<open>
  The client: with \<open>https_only\<close> it refuses to send to any other scheme; it follows no redirect,
  so a 3xx status reaches the status check.
\<close>

definition client_get :: "('m, 'k) jose \<Rightarrow> bool \<Rightarrow> (rstring \<Rightarrow> response) \<Rightarrow> rstring \<Rightarrow> response" where
  "client_get L https_only web u = (case url_parse L u of
     None \<Rightarrow> NoResponse
   | Some url \<Rightarrow> if https_only \<and> url_scheme url \<noteq> lit ''https'' then NoResponse else web u)"

section \<open>Checks of discovery\<close>

definition parse_url :: "('m, 'k) jose \<Rightarrow> rstring \<Rightarrow> rstring \<Rightarrow> oidc_error + url" where
  "parse_url L v field = ok_or (InvalidUrl field) (url_parse L v)"

definition validate_url_scheme :: "('m, 'k) jose \<Rightarrow> rstring \<Rightarrow> bool \<Rightarrow> rstring \<Rightarrow> oidc_error + unit" where
  "validate_url_scheme L v allow_http field =
     and_then (parse_url L v field) (\<lambda>url.
     ensure (url_scheme url = lit ''https'' \<or> allow_http \<and> url_scheme url = lit ''http'') (InsecureScheme field))"

definition validate_issuer_url :: "('m, 'k) jose \<Rightarrow> rstring \<Rightarrow> bool \<Rightarrow> rstring \<Rightarrow> oidc_error + unit" where
  "validate_issuer_url L v allow_http field =
     and_then (parse_url L v field) (\<lambda>url.
     and_then (ensure (url_query url = None \<and> url_fragment url = None) (QueryOrFragment field)) (\<lambda>_.
     validate_url_scheme L v allow_http field))"

fun parse_algorithms_from :: "('m, 'k) jose \<Rightarrow> algorithm list \<Rightarrow> rstring list \<Rightarrow> oidc_error + algorithm list" where
  "parse_algorithms_from L acc [] = (if acc = [] then Inl NoAlgorithms else Inr acc)"
| "parse_algorithms_from L acc (v # vs) =
     (case algorithm_from_str L v of
        None \<Rightarrow> Inl (UnsupportedAlgorithm v)
      | Some a \<Rightarrow> if is_hmac a then Inl SymmetricAlgorithm
                  else parse_algorithms_from L (List.insert a acc) vs)"

definition parse_algorithms :: "('m, 'k) jose \<Rightarrow> rstring list \<Rightarrow> oidc_error + algorithm list" where
  "parse_algorithms L values = parse_algorithms_from L [] values"

section \<open>The index of keys\<close>

text \<open>The nested hash maps, as an association list from algorithm and key id.\<close>

type_synonym 'k key_index = "((algorithm \<times> rstring) \<times> 'k) list"

fun index_algorithms :: "('m, 'k) jose \<Rightarrow> 'm jwk \<Rightarrow> rstring \<Rightarrow> 'k option \<Rightarrow> algorithm list
    \<Rightarrow> 'k key_index \<Rightarrow> oidc_error + 'k key_index" where
  "index_algorithms L key kid decoded [] index = Inr index"
| "index_algorithms L key kid decoded (a # as) index =
     (if \<not> key_is_usable key a then index_algorithms L key kid decoded as index
      else if map_of index (a, kid) \<noteq> None then index_algorithms L key kid decoded as index
      else (case (case decoded of Some d \<Rightarrow> Some d | None \<Rightarrow> from_jwk L key) of
              None \<Rightarrow> Inl InvalidSigningKey
            | Some d \<Rightarrow> index_algorithms L key kid (Some d) as (((a, kid), d) # index)))"

fun index_keys_from :: "('m, 'k) jose \<Rightarrow> algorithm list \<Rightarrow> 'm jwk list \<Rightarrow> 'k key_index
    \<Rightarrow> oidc_error + 'k key_index" where
  "index_keys_from L algs [] index = (if index = [] then Inl NoUsableKey else Inr index)"
| "index_keys_from L algs (key # keys) index =
     (case jwk_key_id key of
        None \<Rightarrow> index_keys_from L algs keys index
      | Some kid \<Rightarrow>
          if kid = [] then index_keys_from L algs keys index
          else and_then (index_algorithms L key kid None algs index) (index_keys_from L algs keys))"

definition index_keys :: "('m, 'k) jose \<Rightarrow> 'm jwk list \<Rightarrow> algorithm list \<Rightarrow> oidc_error + 'k key_index" where
  "index_keys L keys algs = index_keys_from L algs keys []"

section \<open>The verifier\<close>

record verifier =
  vf_issuer :: rstring
  vf_audience :: rstring
  vf_algorithms :: "algorithm list"
  vf_jwks_uri :: rstring
  vf_https_only :: bool
  vf_refresh_interval :: duration
  vf_jwks_max_age :: duration
  vf_clock_skew :: u64
  vf_max_lifetime :: u64

text \<open>What the two locks guard: the key set with its age, and the last attempt to refresh it.\<close>

record 'k key_state =
  ks_index :: "'k key_index"
  ks_fetched_at :: instant
  ks_last_attempt :: "instant option"

definition seconds :: "u64 \<Rightarrow> duration" where
  "seconds n = unat n * 1000000000"

definition discover :: "('m, 'k) jose \<Rightarrow> (rstring \<Rightarrow> response) \<Rightarrow> instant \<Rightarrow> oidc_config
    \<Rightarrow> oidc_error + verifier \<times> 'k key_state" where
  "discover L web now config =
     and_then (map_err ConfigRejected (oidc_validate config)) (\<lambda>_.
     let https_only = \<not> allow_insecure_http config in
     and_then (parse_algorithms L (allowed_algorithms config)) (\<lambda>algs.
     and_then (validate_issuer_url L (issuer_url config) (allow_insecure_http config) (lit ''OIDC_ISSUER_URL'')) (\<lambda>_.
     let configured_issuer = rev (dropWhile (\<lambda>c. c = 47) (rev (issuer_url config)));
         discovery_url = configured_issuer @ lit ''/.well-known/openid-configuration'' in
     and_then (fetch_json (discovery_from_slice L) (client_get L https_only web discovery_url)) (\<lambda>(issuer, jwks_uri).
     and_then (validate_issuer_url L issuer (allow_insecure_http config) (lit ''OIDC discovery issuer'')) (\<lambda>_.
     and_then (ensure (rev (dropWhile (\<lambda>c. c = 47) (rev issuer)) = configured_issuer) IssuerMismatch) (\<lambda>_.
     and_then (ensure (trim jwks_uri \<noteq> []) EmptyJwksUri) (\<lambda>_.
     and_then (validate_url_scheme L jwks_uri (allow_insecure_http config) (lit ''OIDC jwks_uri'')) (\<lambda>_.
     and_then (fetch_json (jwks_from_slice L) (client_get L https_only web jwks_uri)) (\<lambda>keys.
     and_then (index_keys L keys algs) (\<lambda>index.
     Inr (\<lparr> vf_issuer = issuer, vf_audience = audience config, vf_algorithms = algs,
            vf_jwks_uri = jwks_uri, vf_https_only = https_only,
            vf_refresh_interval = seconds (jwks_refresh_interval_seconds config),
            vf_jwks_max_age = seconds (jwks_max_age_seconds config),
            vf_clock_skew = clock_skew_seconds config,
            vf_max_lifetime = max_token_lifetime_seconds config \<rparr>,
          \<lparr> ks_index = index, ks_fetched_at = now, ks_last_attempt = None \<rparr>)))))))))))"

section \<open>Finding the key\<close>

text \<open>
  The clock readings of one call: at the shared read, at the check under the refresh lock, at the
  throttle, at the start of a refresh and when its result is stored.
\<close>

record key_clock =
  at_read :: instant
  at_check :: instant
  at_gate :: instant
  at_attempt :: instant
  at_store :: instant

definition fresh :: "verifier \<Rightarrow> 'k key_state \<Rightarrow> instant \<Rightarrow> bool" where
  "fresh V st now \<longleftrightarrow> now - ks_fetched_at st < vf_jwks_max_age V"

definition throttled :: "verifier \<Rightarrow> 'k key_state \<Rightarrow> instant \<Rightarrow> bool" where
  "throttled V st now \<longleftrightarrow> (case ks_last_attempt st of
     None \<Rightarrow> False | Some t \<Rightarrow> now - t < vf_refresh_interval V)"

definition cached_key :: "verifier \<Rightarrow> rstring \<Rightarrow> algorithm \<Rightarrow> instant \<Rightarrow> 'k key_state \<Rightarrow> 'k option" where
  "cached_key V kid a now st = (if fresh V st now then map_of (ks_index st) (a, kid) else None)"

text \<open>The part of \<open>key_for\<close> under the refresh lock; \<open>answer\<close> is the provider's answer if it is asked.\<close>

definition key_for_locked :: "('m, 'k) jose \<Rightarrow> verifier \<Rightarrow> rstring \<Rightarrow> algorithm \<Rightarrow> key_clock \<Rightarrow> response
    \<Rightarrow> ('k key_state, verification_error, 'k) op" where
  "key_for_locked L V kid a t answer st =
     (case cached_key V kid a (at_check t) st of
        Some k \<Rightarrow> (Inr k, st)
      | None \<Rightarrow>
          if throttled V st (at_gate t)
          then (Inl (if fresh V st (at_check t) then InvalidToken else AuthenticationUnavailable), st)
          else
            let st = st\<lparr> ks_last_attempt := Some (at_attempt t) \<rparr> in
            (case fetch_json (jwks_from_slice L) answer of
               Inl e \<Rightarrow> (Inl AuthenticationUnavailable, st)
             | Inr keys \<Rightarrow>
                 (case index_keys L keys (vf_algorithms V) of
                    Inl e \<Rightarrow> (Inl AuthenticationUnavailable, st)
                  | Inr index \<Rightarrow>
                      (ok_or InvalidToken (map_of index (a, kid)),
                       st\<lparr> ks_index := index, ks_fetched_at := at_store t \<rparr>))))"

definition key_for :: "('m, 'k) jose \<Rightarrow> verifier \<Rightarrow> rstring \<Rightarrow> algorithm \<Rightarrow> key_clock \<Rightarrow> response
    \<Rightarrow> ('k key_state, verification_error, 'k) op" where
  "key_for L V kid a t answer st =
     (case cached_key V kid a (at_read t) st of
        Some k \<Rightarrow> (Inr k, st)
      | None \<Rightarrow> key_for_locked L V kid a t answer st)"

section \<open>Verifying a token\<close>

definition is_ascii_whitespace :: "rchar \<Rightarrow> bool" where
  "is_ascii_whitespace c \<longleftrightarrow> c = 9 \<or> c = 10 \<or> c = 12 \<or> c = 13 \<or> c = 32"

fun split_ascii_whitespace :: "rstring \<Rightarrow> rstring list" where
  "split_ascii_whitespace [] = []"
| "split_ascii_whitespace (c # s) =
     (if is_ascii_whitespace c then split_ascii_whitespace s
      else (case s of
              [] \<Rightarrow> [[c]]
            | d # _ \<Rightarrow> if is_ascii_whitespace d then [c] # split_ascii_whitespace s
                      else (case split_ascii_whitespace s of [] \<Rightarrow> [[c]] | w # ws \<Rightarrow> (c # w) # ws)))"

text \<open>\<open>u64::saturating_add\<close>.\<close>

definition saturating_add :: "u64 \<Rightarrow> u64 \<Rightarrow> u64" where
  "saturating_add x y = (if unat x + unat y < 2 ^ 64 then x + y else - 1)"

definition token_validation :: "verifier \<Rightarrow> algorithm \<Rightarrow> validation" where
  "token_validation V a = \<lparr> vd_algorithm = a, vd_leeway = vf_clock_skew V, vd_nbf = True,
     vd_audience = [vf_audience V], vd_issuer = [vf_issuer V],
     vd_required = [lit ''exp'', lit ''iat'', lit ''iss'', lit ''aud'', lit ''sub''],
     vd_signature = True \<rparr>"

text \<open>\<open>now\<close> is the system clock in seconds, \<open>None\<close> when it stands before the epoch.\<close>

definition verify :: "('m, 'k) jose \<Rightarrow> verifier \<Rightarrow> u64 option \<Rightarrow> key_clock \<Rightarrow> response \<Rightarrow> rstring
    \<Rightarrow> ('k key_state, verification_error, principal) op" where
  "verify L V now t answer access_token =
     op_bind (lift_result (ok_or InvalidToken (decode_header L access_token))) (\<lambda>(alg, kid).
     if alg \<notin> set (vf_algorithms V) then lift_result (Inl InvalidToken)
     else
     op_bind (lift_result (ok_or InvalidToken (case kid of Some k \<Rightarrow> if k = [] then None else Some k | None \<Rightarrow> None))) (\<lambda>kid.
     let validation = token_validation V alg;
         precheck = validation\<lparr> vd_signature := False \<rparr> in
     op_bind (lift_result (ok_or InvalidToken (decode_token L access_token (from_secret_empty L) precheck))) (\<lambda>unverified.
     op_bind (lift_result (ok_or AuthenticationUnavailable now)) (\<lambda>now.
     if trim (cl_sub unverified) = [] \<or> saturating_add now (vf_clock_skew V) < cl_iat unverified
        \<or> cl_exp unverified < cl_iat unverified
        \<or> vf_max_lifetime V < cl_exp unverified - cl_iat unverified
     then lift_result (Inl InvalidToken)
     else
     op_bind (key_for L V kid alg t answer) (\<lambda>decoding_key.
     op_bind (lift_result (ok_or InvalidToken (decode_token L access_token decoding_key validation))) (\<lambda>token.
     lift_result (Inr \<lparr> p_subject = cl_sub token,
                        p_scopes = split_ascii_whitespace (cl_scope token) \<rparr>)))))))"

end
