(* ===== verification/Oidc_Keys.thy ===== *)
theory Oidc_Keys
  imports Oidc
begin

text \<open>
  The key index and the key cache of the OIDC adapter: the index is the first usable key of each
  algorithm and key id, whatever the order of the algorithms; downloads are bounded; the key
  cache answers only from fresh key sets, fails closed and asks the provider at most once per
  refresh interval.
\<close>

section \<open>The index is the first match\<close>

definition indexable :: "algorithm \<Rightarrow> rstring \<Rightarrow> 'm jwk \<Rightarrow> bool" where
  "indexable a kid key \<longleftrightarrow> kid \<noteq> [] \<and> jwk_key_id key = Some kid \<and> key_is_usable key a"

definition first_key :: "'m jwk list \<Rightarrow> algorithm \<Rightarrow> rstring \<Rightarrow> 'm jwk option" where
  "first_key keys a kid = find (indexable a kid) keys"

text \<open>\<open>index\<close> holds what the keys \<open>ks\<close> alone determine.\<close>

definition indexes :: "('m, 'k) jose \<Rightarrow> algorithm list \<Rightarrow> 'm jwk list \<Rightarrow> 'k key_index \<Rightarrow> bool" where
  "indexes L algs ks index \<longleftrightarrow>
     (\<forall>a kid. map_of index (a, kid) =
        (if a \<in> set algs then Option.bind (first_key ks a kid) (from_jwk L) else None)) \<and>
     (\<forall>a kid k. a \<in> set algs \<longrightarrow> first_key ks a kid = Some k \<longrightarrow> from_jwk L k \<noteq> None)"

lemma first_key_append:
  "first_key (ks @ [key]) a kid =
     (case first_key ks a kid of Some k \<Rightarrow> Some k | None \<Rightarrow> if indexable a kid key then Some key else None)"
proof -
  have "find P (xs @ [x]) = (case find P xs of Some y \<Rightarrow> Some y | None \<Rightarrow> if P x then Some x else None)"
    for P :: "'a jwk \<Rightarrow> bool" and xs x by (induction xs) auto
  then show ?thesis by (simp add: first_key_def)
qed

lemma index_algorithms_Inr:
  assumes "index_algorithms L key kid decoded as index = Inr index'" and "decoded = None \<or> decoded = from_jwk L key"
  shows "map_of index' (b, k) =
    (if k = kid \<and> b \<in> set as \<and> key_is_usable key b \<and> map_of index (b, k) = None then from_jwk L key
     else map_of index (b, k)) \<and>
    (k = kid \<and> b \<in> set as \<and> key_is_usable key b \<and> map_of index (b, k) = None \<longrightarrow> from_jwk L key \<noteq> None)"
  using assms
proof (induction as arbitrary: decoded index)
  case (Cons a as)
  show ?case
  proof (cases "key_is_usable key a \<and> map_of index (a, kid) = None")
    case False
    with Cons.prems Cons.IH [of decoded index] show ?thesis by (auto split: if_splits)
  next
    case True
    with Cons.prems obtain d where d: "from_jwk L key = Some d"
      and rec: "index_algorithms L key kid (Some d) as (((a, kid), d) # index) = Inr index'"
      by (cases decoded; cases "from_jwk L key") auto
    from Cons.IH [OF rec] d True show ?thesis by auto
  qed
qed simp

lemma index_algorithms_Inl:
  assumes "index_algorithms L key kid decoded as index = Inl e" and "decoded = None \<or> decoded = from_jwk L key"
  shows "e = InvalidSigningKey \<and> from_jwk L key = None \<and>
    (\<exists>b \<in> set as. key_is_usable key b \<and> map_of index (b, kid) = None)"
  using assms
proof (induction as arbitrary: decoded index)
  case (Cons a as)
  show ?case
  proof (cases "key_is_usable key a \<and> map_of index (a, kid) = None")
    case False
    with Cons.prems Cons.IH [of decoded index] show ?thesis by (auto split: if_splits)
  next
    case True
    show ?thesis
    proof (cases "from_jwk L key")
      case None
      with True Cons.prems show ?thesis by (cases decoded) auto
    next
      case (Some d)
      with True Cons.prems have rec: "index_algorithms L key kid (Some d) as (((a, kid), d) # index) = Inl e"
        by (cases decoded) auto
      from Cons.IH [OF rec] Some show ?thesis by simp
    qed
  qed
qed simp

lemma indexes_step:
  assumes ix: "indexes L algs ks index" and kid: "jwk_key_id key = Some kid" "kid \<noteq> []"
  shows "index_algorithms L key kid None algs index = Inr index' \<Longrightarrow> indexes L algs (ks @ [key]) index'"
    and "index_algorithms L key kid None algs index = Inl e \<Longrightarrow>
      e = InvalidSigningKey \<and> (\<exists>a \<in> set algs. first_key (ks @ [key]) a kid = Some key \<and> from_jwk L key = None)"
proof -
  have free: "map_of index (a, k) = None \<longleftrightarrow> first_key ks a k = None" if "a \<in> set algs" for a k
    using ix that by (cases "first_key ks a k") (auto simp: indexes_def)
  assume "index_algorithms L key kid None algs index = Inr index'"
  note run = index_algorithms_Inr [OF this]
  show "indexes L algs (ks @ [key]) index'"
    unfolding indexes_def
  proof (intro conjI allI impI)
    fix a k
    show "map_of index' (a, k) =
        (if a \<in> set algs then Option.bind (first_key (ks @ [key]) a k) (from_jwk L) else None)"
      using run [of a k] ix free [of a k] kid
      by (auto simp: first_key_append indexes_def indexable_def split: option.splits)
  next
    fix a k x
    assume "a \<in> set algs" "first_key (ks @ [key]) a k = Some x"
    with run [of a k] ix free [of a k] kid show "from_jwk L x \<noteq> None"
      by (auto simp: first_key_append indexes_def indexable_def split: option.splits if_splits)
  qed
next
  have free: "map_of index (a, k) = None \<longleftrightarrow> first_key ks a k = None" if "a \<in> set algs" for a k
    using ix that by (cases "first_key ks a k") (auto simp: indexes_def)
  assume "index_algorithms L key kid None algs index = Inl e"
  from index_algorithms_Inl [OF this] obtain b where "e = InvalidSigningKey" "from_jwk L key = None"
    "b \<in> set algs" "key_is_usable key b" "map_of index (b, kid) = None" by auto
  with free kid show "e = InvalidSigningKey \<and>
      (\<exists>a \<in> set algs. first_key (ks @ [key]) a kid = Some key \<and> from_jwk L key = None)"
    by (auto simp: first_key_append indexable_def intro!: bexI [of _ b])
qed

lemma indexes_skip:
  assumes "indexes L algs ks index" and "\<And>a kid. \<not> indexable a kid key"
  shows "indexes L algs (ks @ [key]) index"
proof -
  have "first_key (ks @ [key]) a kid = first_key ks a kid" for a kid
    by (simp add: first_key_append assms(2) split: option.split)
  with assms(1) show ?thesis by (simp add: indexes_def)
qed

lemma first_key_prefix: "first_key ks a kid = Some k \<Longrightarrow> first_key (ks @ ls) a kid = Some k"
  unfolding first_key_def by (induction ks) (auto split: if_splits)

lemma index_keys_from_spec:
  assumes "indexes L algs ks index"
  shows "index_keys_from L algs keys index = Inr index' \<Longrightarrow> indexes L algs (ks @ keys) index' \<and> index' \<noteq> []"
    and "index_keys_from L algs keys index = Inl e \<Longrightarrow>
      e = InvalidSigningKey \<and> (\<exists>a \<in> set algs. \<exists>kid k. first_key (ks @ keys) a kid = Some k \<and> from_jwk L k = None) \<or>
      e = NoUsableKey \<and> indexes L algs (ks @ keys) []"
  using assms
proof (induction keys arbitrary: ks index)
  case Nil
  { case 1 then show ?case by (auto split: if_splits) }
  { case 2 then show ?case by (auto split: if_splits) }
next
  case (Cons key keys)
  have app: "zs @ key # keys = (zs @ [key]) @ keys" for zs by simp
  { case 1
    show ?case
    proof (cases "jwk_key_id key = None \<or> jwk_key_id key = Some []")
      case True
      then have "indexes L algs (ks @ [key]) index" using indexes_skip [OF 1(2)] by (auto simp: indexable_def)
      from Cons.IH(1) [OF _ this] 1 True show ?thesis unfolding app by (auto split: option.splits)
    next
      case False
      then obtain kid where kid: "jwk_key_id key = Some kid" "kid \<noteq> []" by auto
      with 1 obtain ix where ix: "index_algorithms L key kid None algs index = Inr ix"
        "index_keys_from L algs keys ix = Inr index'" by (auto simp: result_simps)
      from Cons.IH(1) [OF ix(2) indexes_step(1) [OF 1(2) kid ix(1)]] show ?thesis unfolding app .
    qed }
  { case 2
    show ?case
    proof (cases "jwk_key_id key = None \<or> jwk_key_id key = Some []")
      case True
      then have "indexes L algs (ks @ [key]) index" using indexes_skip [OF 2(2)] by (auto simp: indexable_def)
      from Cons.IH(2) [OF _ this] 2 True show ?thesis unfolding app by (auto split: option.splits)
    next
      case False
      then obtain kid where kid: "jwk_key_id key = Some kid" "kid \<noteq> []" by auto
      with 2 consider "index_algorithms L key kid None algs index = Inl e"
        | ix where "index_algorithms L key kid None algs index = Inr ix" "index_keys_from L algs keys ix = Inl e"
        by (auto simp: result_simps)
      then show ?thesis
      proof cases
        case 1
        from indexes_step(2) [OF 2(2) kid 1] first_key_prefix show ?thesis unfolding app by blast
      next
        case (2 ix)
        from Cons.IH(2) [OF 2(2) indexes_step(1) [OF \<open>indexes L algs ks index\<close> kid 2(1)]]
        show ?thesis unfolding app .
      qed
    qed }
qed

lemma indexes_Nil: "indexes L algs [] []"
  by (simp add: indexes_def first_key_def)

lemma indexes_empty: "indexes L algs ks [] \<Longrightarrow> a \<in> set algs \<Longrightarrow> first_key ks a kid = None"
proof (rule ccontr)
  assume ix: "indexes L algs ks []" and a: "a \<in> set algs" and "first_key ks a kid \<noteq> None"
  then obtain k where k: "first_key ks a kid = Some k" by auto
  with ix a have "from_jwk L k \<noteq> None" unfolding indexes_def by blast
  moreover have "Option.bind (first_key ks a kid) (from_jwk L) = None"
    using ix a unfolding indexes_def by (metis map_of.simps(1))
  ultimately show False by (simp add: k)
qed

section \<open>A concrete library\<close>

text \<open>Key 7 signs; any other JWK with material 0 is malformed.\<close>

definition sample_jwk :: "rstring \<Rightarrow> nat \<Rightarrow> nat jwk" where
  "sample_jwk kid m = \<lparr> jwk_key_id = Some kid, jwk_public_key_use = Some Signature, jwk_key_operations = None,
     jwk_algorithm = Some (lit ''RS256''), jwk_parameters = RSA, jwk_material = m \<rparr>"

definition sample_claims :: claims where
  "sample_claims = \<lparr> cl_sub = lit ''ada'', cl_exp = 1300, cl_iat = 1000, cl_scope = lit ''users:read users:write'' \<rparr>"

definition sample_jose :: "(nat, nat) jose" where
  "sample_jose = \<lparr>
     algorithm_from_str = (\<lambda>s. if s = lit ''RS256'' then Some RS256 else if s = lit ''HS256'' then Some HS256 else None),
     decode_header = (\<lambda>t. if t = lit ''t'' then Some (RS256, Some (lit ''k1'')) else None),
     decode_token = (\<lambda>t k v. if vd_signature v \<and> k \<noteq> 7 then None else Some sample_claims),
     from_secret_empty = 0,
     from_jwk = (\<lambda>key. if jwk_material key = 0 then None else Some (jwk_material key)),
     url_parse = (\<lambda>u. Some \<lparr> url_scheme = takeWhile (\<lambda>c. c \<noteq> 58) u, url_query = None, url_fragment = None \<rparr>),
     discovery_from_slice = (\<lambda>b. Some (lit ''https://issuer/'', lit ''https://issuer/jwks'')),
     jwks_from_slice = (\<lambda>b. Some [sample_jwk (lit ''k1'') 7, sample_jwk (lit ''k1'') 0]) \<rparr>"

text \<open>
  The index is first-match lookup.  Indexing a key set succeeds exactly when some key can serve
  an allowed algorithm and every key that is first for its algorithm and id is well formed; then
  looking up an algorithm and a key id gives the decoded first usable key of the document, and
  nothing for an algorithm that is not allowed.  Later duplicates are never decoded, and the
  order in which the allowed algorithms are visited does not matter.
\<close>

theorem index_is_first_match:
  "case index_keys L keys algs of
     Inr index \<Rightarrow>
       (\<forall>a kid. map_of index (a, kid) =
          (if a \<in> set algs then Option.bind (first_key keys a kid) (from_jwk L) else None)) \<and>
       index \<noteq> [] \<and>
       (\<forall>a kid k. a \<in> set algs \<longrightarrow> first_key keys a kid = Some k \<longrightarrow> from_jwk L k \<noteq> None)
   | Inl e \<Rightarrow>
       e = InvalidSigningKey \<and> (\<exists>a \<in> set algs. \<exists>kid k. first_key keys a kid = Some k \<and> from_jwk L k = None) \<or>
       e = NoUsableKey \<and> (\<forall>a \<in> set algs. \<forall>kid. first_key keys a kid = None)"
proof (cases "index_keys L keys algs")
  case (Inl e)
  with index_keys_from_spec(2) [OF indexes_Nil, where L = L and algs = algs and keys = keys and e = e]
    indexes_empty [where L = L and algs = algs and ks = keys]
  show ?thesis by (auto simp: index_keys_def)
next
  case (Inr index)
  with index_keys_from_spec(1) [OF indexes_Nil, where L = L and algs = algs and keys = keys and index' = index]
  show ?thesis by (auto simp: index_keys_def indexes_def)
qed

lemma sample_index:
  "index_keys sample_jose [sample_jwk (lit ''k1'') 7, sample_jwk (lit ''k1'') 0] [RS256] =
     Inr [((RS256, lit ''k1''), 7)]"
  by (simp add: index_keys_def key_is_usable_def sample_jwk_def sample_jose_def algorithm_debug_def)

theorem index_is_first_match_witness:
  "Option.bind (first_key [sample_jwk (lit ''k1'') 7, sample_jwk (lit ''k1'') 0] RS256 (lit ''k1''))
     (from_jwk sample_jose) = Some 7"
proof -
  from index_is_first_match [where L = sample_jose and algs = "[RS256]"
      and keys = "[sample_jwk (lit ''k1'') 7, sample_jwk (lit ''k1'') 0]"]
  have "\<forall>a kid. map_of [((RS256, lit ''k1''), 7)] (a, kid) =
      (if a \<in> set [RS256]
       then Option.bind (first_key [sample_jwk (lit ''k1'') 7, sample_jwk (lit ''k1'') 0] a kid) (from_jwk sample_jose)
       else None)"
    unfolding sample_index sum.case by (elim conjE)
  from this [rule_format, of RS256 "lit ''k1''"] show ?thesis by (simp del: lit_simps)
qed

section \<open>Downloads\<close>

lemma read_chunks_ok:
  "length bytes \<le> MAX_METADATA_RESPONSE_BYTES \<Longrightarrow>
   read_chunks bytes (map Chunk cs) =
     (if length bytes + sum_list (map length cs) \<le> MAX_METADATA_RESPONSE_BYTES then Inr (bytes @ concat cs)
      else Inl ResponseTooLarge)"
  by (induction cs arbitrary: bytes) auto

lemma read_chunks_Inr:
  "read_chunks bytes body = Inr b \<Longrightarrow> length bytes \<le> MAX_METADATA_RESPONSE_BYTES \<Longrightarrow>
     length b \<le> MAX_METADATA_RESPONSE_BYTES \<and> (\<exists>cs. body = map Chunk cs \<and> b = bytes @ concat cs)"
proof (induction bytes body rule: read_chunks.induct)
  case (3 bytes c cs)
  then have "length c \<le> MAX_METADATA_RESPONSE_BYTES - length bytes" "read_chunks (bytes @ c) cs = Inr b"
    by (auto split: if_splits)
  moreover from this 3(3) have "length (bytes @ c) \<le> MAX_METADATA_RESPONSE_BYTES" by simp
  ultimately obtain ds where "cs = map Chunk ds" "b = (bytes @ c) @ concat ds" "length b \<le> MAX_METADATA_RESPONSE_BYTES"
    using 3(1) by auto
  then show ?case by (auto intro!: exI [of _ "c # ds"])
qed auto

text \<open>
  A download never holds more than 1 MiB.  Metadata is accepted only with a 2xx status, from a
  body read without error whose chunks together stay within the limit, declared or not; a body
  without a declared length is rejected exactly when its chunks exceed the limit.
\<close>

theorem download_bounded:
  "(fetch_json f r = Inr x \<longrightarrow>
      (\<exists>status len cs. r = Response status len (map Chunk cs) \<and> 200 \<le> status \<and> status < 300 \<and>
         length (concat cs) \<le> 1048576 \<and> f (concat cs) = Some x)) \<and>
   fetch_json f (Response 200 None (map Chunk ds)) =
     (if sum_list (map length ds) \<le> 1048576 then ok_or InvalidJson (f (concat ds)) else Inl ResponseTooLarge)"
proof (intro conjI impI)
  assume "fetch_json f r = Inr x"
  then obtain status len body b where r: "r = Response status len body" "200 \<le> status" "status < 300"
    and b: "read_chunks [] body = Inr b" "f b = Some x"
    by (cases r) (auto simp: fetch_json_def result_simps)
  from read_chunks_Inr [OF b(1)] obtain cs where "body = map Chunk cs" "b = concat cs"
    "length b \<le> MAX_METADATA_RESPONSE_BYTES" by auto
  with r b show "\<exists>status len cs. r = Response status len (map Chunk cs) \<and> 200 \<le> status \<and> status < 300 \<and>
         length (concat cs) \<le> 1048576 \<and> f (concat cs) = Some x"
    by (auto simp: MAX_METADATA_RESPONSE_BYTES_def)
next
  show "fetch_json f (Response 200 None (map Chunk ds)) =
     (if sum_list (map length ds) \<le> 1048576 then ok_or InvalidJson (f (concat ds)) else Inl ResponseTooLarge)"
    using read_chunks_ok [of "[]" ds] by (simp add: fetch_json_def ensure_def MAX_METADATA_RESPONSE_BYTES_def)
qed

theorem download_bounded_witness:
  "length (concat [[1, 2], [3 :: nat]]) \<le> 1048576"
proof -
  have "fetch_json Some (Response 200 None (map Chunk [[1, 2], [3]])) = Inr [1, 2, 3]"
    by (simp add: fetch_json_def ensure_def MAX_METADATA_RESPONSE_BYTES_def)
  with download_bounded [of Some "Response 200 None (map Chunk [[1, 2], [3]])" "[1, 2, 3]" "[]"]
  show ?thesis by auto
qed

section \<open>The key cache\<close>

definition refreshes :: "verifier \<Rightarrow> rstring \<Rightarrow> algorithm \<Rightarrow> key_clock \<Rightarrow> 'k key_state \<Rightarrow> bool" where
  "refreshes V kid a t st \<longleftrightarrow> cached_key V kid a (at_check t) st = None \<and> \<not> throttled V st (at_gate t)"

lemma key_for_locked_cases:
  assumes "key_for_locked L V kid a t answer st = (r, st')"
  obtains (hit) k where "cached_key V kid a (at_check t) st = Some k" and "r = Inr k" and "st' = st"
    | (wait) "cached_key V kid a (at_check t) st = None" and "throttled V st (at_gate t)"
        and "r = Inl (if fresh V st (at_check t) then InvalidToken else AuthenticationUnavailable)" and "st' = st"
    | (failed) "refreshes V kid a t st" and "r = Inl AuthenticationUnavailable"
        and "st' = st\<lparr> ks_last_attempt := Some (at_attempt t) \<rparr>"
    | (fetched) keys index where "refreshes V kid a t st"
        and "fetch_json (jwks_from_slice L) answer = Inr keys"
        and "index_keys L keys (vf_algorithms V) = Inr index"
        and "r = ok_or InvalidToken (map_of index (a, kid))"
        and "st' = \<lparr> ks_index = index, ks_fetched_at = at_store t, ks_last_attempt = Some (at_attempt t) \<rparr>"
proof (cases "cached_key V kid a (at_check t) st")
  case (Some k)
  with assms show thesis by (intro hit) (auto simp: key_for_locked_def)
next
  case None
  show thesis
  proof (cases "throttled V st (at_gate t)")
    case True
    with None assms show thesis by (intro wait) (auto simp: key_for_locked_def)
  next
    case False
    with None have refr: "refreshes V kid a t st" by (simp add: refreshes_def)
    note run = assms [unfolded key_for_locked_def None option.case if_not_P [OF False] Let_def]
    show thesis
    proof (cases "fetch_json (jwks_from_slice L) answer")
      case (Inl e)
      with run show thesis by (intro failed refr) simp_all
    next
      case (Inr keys)
      note keys = this
      show thesis
      proof (cases "index_keys L keys (vf_algorithms V)")
        case (Inl e)
        with keys run show thesis by (intro failed refr) simp_all
      next
        case (Inr index)
        with keys run show thesis by (intro fetched [OF refr keys Inr]) auto
      qed
    qed
  qed
qed

text \<open>
  C13. The key cache fails closed.  A key is returned only from the key set now held, and only if that
  set is younger than the maximum age or was fetched during the call; a token is blamed only when
  a fresh set lacks its key; in every other case (stale set and no refresh, failed download,
  malformed set) authentication is reported unavailable, and a failed refresh keeps the old set.
\<close>

theorem key_cache_fails_closed:
  assumes "key_for L V kid a t answer st = (r, st')"
  shows "(case r of
       Inr k \<Rightarrow> map_of (ks_index st') (a, kid) = Some k \<and>
         (fresh V st' (at_read t) \<or> fresh V st' (at_check t) \<or> ks_fetched_at st' = at_store t)
     | Inl InvalidToken \<Rightarrow> map_of (ks_index st') (a, kid) = None \<and>
         (fresh V st' (at_check t) \<or> ks_fetched_at st' = at_store t)
     | Inl AuthenticationUnavailable \<Rightarrow>
         ks_index st' = ks_index st \<and> ks_fetched_at st' = ks_fetched_at st \<and>
         cached_key V kid a (at_read t) st = None \<and> cached_key V kid a (at_check t) st = None) \<and>
     (ks_index st' = ks_index st \<and> ks_fetched_at st' = ks_fetched_at st \<or>
      (\<exists>keys. fetch_json (jwks_from_slice L) answer = Inr keys \<and>
         index_keys L keys (vf_algorithms V) = Inr (ks_index st') \<and> ks_fetched_at st' = at_store t))"
proof (cases "cached_key V kid a (at_read t) st")
  case (Some k)
  with assms show ?thesis by (auto simp: key_for_def cached_key_def split: if_splits)
next
  case None
  with assms have run: "key_for_locked L V kid a t answer st = (r, st')" by (simp add: key_for_def)
  show ?thesis
    using run
  proof (cases rule: key_for_locked_cases)
    case (hit k)
    then show ?thesis by (auto simp: cached_key_def split: if_splits)
  next
    case wait
    with None show ?thesis by (auto simp: cached_key_def split: if_splits)
  next
    case failed
    with None show ?thesis by (simp add: refreshes_def)
  next
    case (fetched keys index)
    then show ?thesis by (cases "map_of index (a, kid)") auto
  qed
qed

definition sample_verifier :: verifier where
  "sample_verifier = \<lparr> vf_issuer = lit ''https://issuer/'', vf_audience = lit ''users-api'', vf_algorithms = [RS256],
     vf_jwks_uri = lit ''https://issuer/jwks'', vf_https_only = True, vf_refresh_interval = 60,
     vf_jwks_max_age = 300, vf_clock_skew = 30, vf_max_lifetime = 3600 \<rparr>"

definition sample_key_state :: "nat key_state" where
  "sample_key_state = \<lparr> ks_index = [((RS256, lit ''k1''), 7)], ks_fetched_at = 1000, ks_last_attempt = None \<rparr>"

definition sample_clock :: "instant \<Rightarrow> key_clock" where
  "sample_clock t = \<lparr> at_read = t, at_check = t + 1, at_gate = t + 2, at_attempt = t + 3, at_store = t + 4 \<rparr>"

lemmas key_eval = key_for_def key_for_locked_def cached_key_def fresh_def throttled_def Let_def
  sample_verifier_def sample_key_state_def sample_clock_def fetch_json_def

theorem key_cache_fails_closed_witness:
  "fst (key_for sample_jose sample_verifier (lit ''k1'') RS256 (sample_clock 5000) NoResponse sample_key_state) =
     Inl AuthenticationUnavailable \<and>
   cached_key sample_verifier (lit ''k1'') RS256 5001 sample_key_state = None"
proof -
  let ?run = "key_for sample_jose sample_verifier (lit ''k1'') RS256 (sample_clock 5000) NoResponse sample_key_state"
  have r: "?run = (Inl AuthenticationUnavailable, snd ?run)" by (simp add: key_eval)
  from key_cache_fails_closed [OF r]
  have "cached_key sample_verifier (lit ''k1'') RS256 (at_check (sample_clock 5000)) sample_key_state = None"
    by simp
  moreover have "fst ?run = Inl AuthenticationUnavailable" using arg_cong [OF r, of fst] by (simp only: fst_conv)
  ultimately show ?thesis by (simp add: sample_clock_def)
qed

section \<open>Refreshing is throttled\<close>

text \<open>
  The refresh lock orders the locked sections of all requests; between them the shared reads change
  nothing.  So any interleaving of requests is a list of locked sections.
\<close>

record key_request =
  kr_kid :: rstring
  kr_algorithm :: algorithm
  kr_clock :: key_clock
  kr_answer :: response

fun refresh_times :: "('m, 'k) jose \<Rightarrow> verifier \<Rightarrow> key_request list \<Rightarrow> 'k key_state \<Rightarrow> instant list" where
  "refresh_times L V [] st = []"
| "refresh_times L V (q # qs) st =
     (let st' = snd (key_for_locked L V (kr_kid q) (kr_algorithm q) (kr_clock q) (kr_answer q) st);
          later = refresh_times L V qs st' in
      if refreshes V (kr_kid q) (kr_algorithm q) (kr_clock q) st then at_attempt (kr_clock q) # later
      else later)"

lemma last_attempt_after:
  "ks_last_attempt (snd (key_for_locked L V kid a t answer st)) =
     (if refreshes V kid a t st then Some (at_attempt t) else ks_last_attempt st)"
proof -
  obtain r st' where run: "key_for_locked L V kid a t answer st = (r, st')" by fastforce
  then show ?thesis
    by (cases rule: key_for_locked_cases) (auto simp: refreshes_def run)
qed

lemma refresh_spacing:
  assumes "0 < vf_refresh_interval V" and "\<forall>q \<in> set qs. at_gate (kr_clock q) \<le> at_attempt (kr_clock q)"
  shows "sorted_wrt (\<lambda>s t. s + vf_refresh_interval V \<le> t) (refresh_times L V qs st) \<and>
    (\<forall>t \<in> set (refresh_times L V qs st). case ks_last_attempt st of None \<Rightarrow> True
       | Some s \<Rightarrow> s + vf_refresh_interval V \<le> t)"
  using assms(2)
proof (induction qs arbitrary: st)
  case (Cons q qs)
  let ?st = "snd (key_for_locked L V (kr_kid q) (kr_algorithm q) (kr_clock q) (kr_answer q) st)"
  have gate: "at_gate (kr_clock q) \<le> at_attempt (kr_clock q)" using Cons.prems by simp
  from Cons.prems have IH: "sorted_wrt (\<lambda>s t. s + vf_refresh_interval V \<le> t) (refresh_times L V qs ?st)"
    "\<forall>t \<in> set (refresh_times L V qs ?st). case ks_last_attempt ?st of None \<Rightarrow> True
       | Some s \<Rightarrow> s + vf_refresh_interval V \<le> t"
    using Cons.IH [of ?st] by simp_all
  show ?case
  proof (cases "refreshes V (kr_kid q) (kr_algorithm q) (kr_clock q) st")
    case True
    then have now: "case ks_last_attempt st of None \<Rightarrow> True
        | Some s \<Rightarrow> s + vf_refresh_interval V \<le> at_attempt (kr_clock q)"
      using gate assms(1) by (auto simp: refreshes_def throttled_def split: option.splits)
    have later: "\<forall>t \<in> set (refresh_times L V qs ?st). at_attempt (kr_clock q) + vf_refresh_interval V \<le> t"
      using IH(2) True by (simp add: last_attempt_after)
    have "\<forall>t \<in> set (refresh_times L V qs ?st). case ks_last_attempt st of None \<Rightarrow> True
        | Some s \<Rightarrow> s + vf_refresh_interval V \<le> t"
      using now later by (auto split: option.splits)
    with True IH(1) later now show ?thesis by (simp add: Let_def)
  next
    case False
    with IH show ?thesis by (simp add: Let_def last_attempt_after)
  qed
qed simp

text \<open>
  C32. The provider is not hammered.  However many requests race for however many unknown or stale
  keys, two downloads of the key set start at least one refresh interval apart, so at most
  \<open>n\<close> of them fall in a period shorter than \<open>n\<close> intervals.
\<close>

theorem refresh_throttled:
  assumes "0 < vf_refresh_interval V" and "\<forall>q \<in> set qs. at_gate (kr_clock q) \<le> at_attempt (kr_clock q)"
  shows "sorted_wrt (\<lambda>s t. s + vf_refresh_interval V \<le> t) (refresh_times L V qs st) \<and>
    (\<forall>start. (\<forall>t \<in> set (refresh_times L V qs st). start \<le> t \<and> t < start + n * vf_refresh_interval V) \<longrightarrow>
       length (refresh_times L V qs st) \<le> n)"
proof -
  let ?i = "vf_refresh_interval V"
  have spread: "length ts \<le> n" if "sorted_wrt (\<lambda>s t. s + ?i \<le> t) ts" "\<forall>t \<in> set ts. start \<le> t \<and> t < start + n * ?i" for ts n start
    using that
  proof (induction ts arbitrary: n start)
    case (Cons t ts)
    then obtain m where n: "n = Suc m" by (cases n) auto
    have "\<forall>u \<in> set ts. start + ?i \<le> u \<and> u < (start + ?i) + m * ?i"
    proof
      fix u assume u: "u \<in> set ts"
      with Cons.prems have "t + ?i \<le> u" "start \<le> t" "u < start + n * ?i" by auto
      then show "start + ?i \<le> u \<and> u < (start + ?i) + m * ?i" by (simp add: n algebra_simps)
    qed
    with Cons.IH [where n = m and start = "start + ?i"] Cons.prems n show ?case by simp
  qed simp
  show ?thesis using refresh_spacing [OF assms] spread by blast
qed

definition sample_requests :: "key_request list" where
  "sample_requests = map (\<lambda>t. \<lparr> kr_kid = lit ''k9'', kr_algorithm = RS256, kr_clock = sample_clock t, kr_answer = NoResponse \<rparr>)
     [1000, 1010, 1020, 1070]"

theorem refresh_throttled_witness:
  "length (refresh_times sample_jose sample_verifier sample_requests sample_key_state) \<le> 2"
proof -
  have i: "0 < vf_refresh_interval sample_verifier" by (simp add: sample_verifier_def)
  have m: "\<forall>q \<in> set sample_requests. at_gate (kr_clock q) \<le> at_attempt (kr_clock q)"
    by (simp add: sample_requests_def sample_clock_def)
  have "refresh_times sample_jose sample_verifier sample_requests sample_key_state = [1003, 1073]"
    by (simp add: sample_requests_def key_eval refreshes_def)
  then have "\<forall>t \<in> set (refresh_times sample_jose sample_verifier sample_requests sample_key_state).
      1003 \<le> t \<and> t < 1003 + 2 * vf_refresh_interval sample_verifier" by (simp add: sample_verifier_def)
  with refresh_throttled [OF i m, of sample_jose sample_key_state 2] show ?thesis by blast
qed

section \<open>Accepted tokens\<close>

text \<open>
  Documented behaviour of \<open>decode\<close>: the claims it returns are those of the token's payload,
  whatever the key and the checks.
\<close>

definition decode_reads_payload :: "('m, 'k) jose \<Rightarrow> bool" where
  "decode_reads_payload L \<longleftrightarrow> (\<exists>payload. \<forall>t k v. case decode_token L t k v of None \<Rightarrow> True | Some c \<Rightarrow> c = payload t)"

lemma saturating_add_unat: "unat (saturating_add x y) = min (unat x + unat y) (2 ^ 64 - 1)"
proof (cases "unat x + unat y < 2 ^ 64")
  case True
  then show ?thesis by (simp add: saturating_add_def unat_add_lem [THEN iffD1])
next
  case False
  then show ?thesis by (simp add: saturating_add_def unsigned_minus_1_eq_mask mask_eq_exp_minus_1)
qed

lemma key_for_held:
  assumes "key_for L V kid a t answer st = (Inr k, st')"
  shows "map_of (ks_index st') (a, kid) = Some k"
proof (cases "cached_key V kid a (at_read t) st")
  case (Some k')
  with assms show ?thesis by (auto simp: key_for_def cached_key_def split: if_splits)
next
  case None
  with assms have "key_for_locked L V kid a t answer st = (Inr k, st')" by (simp add: key_for_def)
  then show ?thesis
    by (cases rule: key_for_locked_cases)
      (auto simp: cached_key_def eq_commute [of "Inr k"] result_simps split: if_splits)
qed

lemma verify_accepts:
  assumes "decode_reads_payload L" and "verify L V (Some now) t answer token st = (Inr p, st')"
  shows "\<exists>alg kid k c. decode_header L token = Some (alg, Some kid) \<and> alg \<in> set (vf_algorithms V) \<and> kid \<noteq> [] \<and>
     map_of (ks_index st') (alg, kid) = Some k \<and>
     decode_token L token k (token_validation V alg) = Some c \<and>
     trim (cl_sub c) \<noteq> [] \<and> unat (cl_iat c) \<le> unat now + unat (vf_clock_skew V) \<and>
     cl_iat c \<le> cl_exp c \<and> unat (cl_exp c) - unat (cl_iat c) \<le> unat (vf_max_lifetime V) \<and>
     p_subject p = cl_sub c \<and> (\<forall>s. has_scope p s \<longleftrightarrow> s \<in> set (split_ascii_whitespace (cl_scope c)))"
proof -
  from assms(2) obtain alg kid u k c where h: "decode_header L token = Some (alg, Some kid)"
    "alg \<in> set (vf_algorithms V)" "kid \<noteq> []"
    and u: "decode_token L token (from_secret_empty L) ((token_validation V alg)\<lparr> vd_signature := False \<rparr>) = Some u"
    and c: "\<not> (trim (cl_sub u) = [] \<or> saturating_add now (vf_clock_skew V) < cl_iat u
        \<or> cl_exp u < cl_iat u \<or> vf_max_lifetime V < cl_exp u - cl_iat u)"
    and k: "key_for L V kid alg t answer st = (Inr k, st')"
    and d: "decode_token L token k (token_validation V alg) = Some c"
    and p: "p = \<lparr> p_subject = cl_sub c, p_scopes = split_ascii_whitespace (cl_scope c) \<rparr>"
    by (auto simp: verify_def Let_def op_simps result_simps split: if_splits option.splits)
  from assms(1) u d have same: "u = c" unfolding decode_reads_payload_def by (metis option.simps(5))
  have key: "map_of (ks_index st') (alg, kid) = Some k" by (rule key_for_held [OF k])
  from c have sub: "trim (cl_sub c) \<noteq> []" and order: "cl_iat c \<le> cl_exp c"
    and iat: "cl_iat c \<le> saturating_add now (vf_clock_skew V)" and life: "cl_exp c - cl_iat c \<le> vf_max_lifetime V"
    unfolding same by (auto simp: not_less)
  from iat have "unat (cl_iat c) \<le> unat now + unat (vf_clock_skew V)"
    by (simp add: word_le_nat_alt saturating_add_unat)
  moreover from life order have "unat (cl_exp c) - unat (cl_iat c) \<le> unat (vf_max_lifetime V)"
    by (simp add: word_le_nat_alt unat_sub)
  moreover have "p_subject p = cl_sub c" "\<forall>s. has_scope p s \<longleftrightarrow> s \<in> set (split_ascii_whitespace (cl_scope c))"
    by (simp_all add: p has_scope_def)
  ultimately show ?thesis using h d sub order key by blast
qed

text \<open>Why the verifier accepts a token, as the contract of the port.\<close>

definition accepted_claims :: "('m, 'k) jose \<Rightarrow> verifier \<Rightarrow> u64 \<Rightarrow> rstring \<Rightarrow> principal \<Rightarrow> 'k key_state \<Rightarrow> bool" where
  "accepted_claims L V now token p st \<longleftrightarrow>
     (\<exists>alg kid k c. decode_header L token = Some (alg, Some kid) \<and> alg \<in> set (vf_algorithms V) \<and>
       map_of (ks_index st) (alg, kid) = Some k \<and> decode_token L token k (token_validation V alg) = Some c \<and>
       unat (cl_iat c) \<le> unat now + unat (vf_clock_skew V) \<and>
       unat (cl_exp c) - unat (cl_iat c) \<le> unat (vf_max_lifetime V) \<and>
       (\<forall>s. has_scope p s \<longleftrightarrow> s \<in> set (split_ascii_whitespace (cl_scope c))))"

interpretation tokens: access_token_verifier "verify L V (Some now) t answer"
    "\<lambda>token p st. decode_reads_payload L \<longrightarrow> accepted_claims L V now token p st" for L V now t answer
proof (unfold_locales, rule impI)
  fix token st p st'
  assume "verify L V (Some now) t answer token st = (Inr p, st')" and "decode_reads_payload L"
  from verify_accepts [OF this(2,1)] show "accepted_claims L V now token p st'"
    unfolding accepted_claims_def by blast
qed

text \<open>
  C6. An accepted token is sound.  If a token is accepted, its header names an allowed algorithm and
  a key of the published set, the signature and the registered claims were verified with that very
  key and algorithm, the subject is not blank, the token was not issued in the future beyond the
  clock skew, and it lives no longer than the configured maximum; the principal has exactly the
  token's subject and scopes.
\<close>

theorem accepted_token_sound:
  assumes "decode_reads_payload L" and "verify L V (Some now) t answer token st = (Inr p, st')"
  shows "\<exists>alg kid k c. decode_header L token = Some (alg, Some kid) \<and> alg \<in> set (vf_algorithms V) \<and> kid \<noteq> [] \<and>
     map_of (ks_index st') (alg, kid) = Some k \<and>
     decode_token L token k (token_validation V alg) = Some c \<and>
     trim (cl_sub c) \<noteq> [] \<and> unat (cl_iat c) \<le> unat now + unat (vf_clock_skew V) \<and>
     cl_iat c \<le> cl_exp c \<and> unat (cl_exp c) - unat (cl_iat c) \<le> unat (vf_max_lifetime V) \<and>
     p_subject p = cl_sub c \<and> (\<forall>s. has_scope p s \<longleftrightarrow> s \<in> set (split_ascii_whitespace (cl_scope c)))"
  by (rule verify_accepts [OF assms])

theorem accepted_token_sound_witness:
  "\<exists>k. map_of (ks_index sample_key_state) (RS256, lit ''k1'') = Some k \<and>
     unat (cl_iat sample_claims) \<le> unat (1010 :: u64) + unat (vf_clock_skew sample_verifier)"
proof -
  have pay: "decode_reads_payload sample_jose"
    unfolding decode_reads_payload_def by (rule exI [of _ "\<lambda>_. sample_claims"]) (simp add: sample_jose_def)
  let ?p = "\<lparr> p_subject = lit ''ada'', p_scopes = [lit ''users:read'', lit ''users:write''] \<rparr>"
  have run: "verify sample_jose sample_verifier (Some 1010) (sample_clock 1050) NoResponse (lit ''t'') sample_key_state =
      (Inr ?p, sample_key_state)"
    by (simp add: verify_def sample_jose_def sample_claims_def key_eval op_bind_def lift_result_def
          saturating_add_def token_validation_def is_ascii_whitespace_def string_eval)
  have c: "decode_token sample_jose t k v = Some c \<Longrightarrow> c = sample_claims" for t k v c
    by (auto simp: sample_jose_def split: if_splits)
  have h: "decode_header sample_jose (lit ''t'') = Some (RS256, Some (lit ''k1''))" by (simp add: sample_jose_def)
  from accepted_token_sound [OF pay run] show ?thesis using c h by auto
qed

section \<open>A discovered verifier\<close>

lemma parse_algorithms_from_sound:
  "parse_algorithms_from L acc vs = Inr algs \<Longrightarrow> \<forall>a \<in> set acc. \<not> is_hmac a \<Longrightarrow> distinct acc \<Longrightarrow>
     algs \<noteq> [] \<and> distinct algs \<and> (\<forall>a \<in> set algs. \<not> is_hmac a) \<and>
     (\<forall>a. a \<in> set algs \<longleftrightarrow> a \<in> set acc \<or> Some a \<in> algorithm_from_str L ` set vs)"
proof (induction vs arbitrary: acc)
  case Nil
  then show ?case by (auto split: if_splits)
next
  case (Cons v vs)
  from Cons.prems(1) obtain a where a: "algorithm_from_str L v = Some a" "\<not> is_hmac a"
    "parse_algorithms_from L (List.insert a acc) vs = Inr algs"
    by (auto split: option.splits if_splits)
  have IH: "algs \<noteq> [] \<and> distinct algs \<and> (\<forall>a \<in> set algs. \<not> is_hmac a) \<and>
     (\<forall>b. b \<in> set algs \<longleftrightarrow> b \<in> set (List.insert a acc) \<or> Some b \<in> algorithm_from_str L ` set vs)"
    using Cons.prems(2,3) a(2) by (intro Cons.IH [OF a(3)]) simp_all
  have "b = a \<longleftrightarrow> Some b = algorithm_from_str L v" for b by (simp add: a(1))
  with IH show ?case by (simp only: set_insert list.set image_insert insert_iff) blast
qed

lemma index_keys_allowed:
  assumes "index_keys L keys algs = Inr index"
  shows "index \<noteq> [] \<and> (\<forall>a kid. map_of index (a, kid) \<noteq> None \<longrightarrow> a \<in> set algs)"
  using index_keys_from_spec(1) [OF indexes_Nil assms [unfolded index_keys_def]]
  by (auto simp: indexes_def split: if_splits)

definition trusted_scheme :: "('m, 'k) jose \<Rightarrow> bool \<Rightarrow> rstring \<Rightarrow> bool" where
  "trusted_scheme L allow_http u = (case url_parse L u of None \<Rightarrow> False
     | Some v \<Rightarrow> url_scheme v = lit ''https'' \<or> allow_http \<and> url_scheme v = lit ''http'')"

lemma validate_url_scheme_Inr: "validate_url_scheme L v allow f = Inr x \<longleftrightarrow> trusted_scheme L allow v"
  by (auto simp: validate_url_scheme_def parse_url_def trusted_scheme_def result_simps split: option.split)

lemma validate_issuer_url_trusted: "validate_issuer_url L v allow f = Inr x \<Longrightarrow> trusted_scheme L allow v"
  by (auto simp: validate_issuer_url_def result_simps validate_url_scheme_Inr)

definition without_slashes :: "rstring \<Rightarrow> rstring" where
  "without_slashes s = rev (dropWhile (\<lambda>c. c = 47) (rev s))"

lemma discover_settings:
  assumes "discover L web now config = Inr (V, st)"
  shows "vf_audience V = audience config \<and> vf_clock_skew V = clock_skew_seconds config \<and>
     vf_max_lifetime V = max_token_lifetime_seconds config"
  using assms unfolding discover_def Let_def
  by (elim and_then_Inr [THEN iffD1, elim_format] exE conjE)
    (auto simp: result_simps simp del: lit_simps split: prod.splits)

lemma discover_sound:
  assumes "discover L web now config = Inr (V, st)"
  shows "vf_algorithms V \<noteq> [] \<and> (\<forall>a \<in> set (vf_algorithms V). \<not> is_hmac a) \<and>
     (\<forall>a. a \<in> set (vf_algorithms V) \<longleftrightarrow> Some a \<in> algorithm_from_str L ` set (allowed_algorithms config)) \<and>
     trusted_scheme L (allow_insecure_http config) (vf_issuer V) \<and>
     trusted_scheme L (allow_insecure_http config) (vf_jwks_uri V) \<and>
     without_slashes (vf_issuer V) = without_slashes (issuer_url config) \<and>
     ks_index st \<noteq> [] \<and> (\<forall>a kid. map_of (ks_index st) (a, kid) \<noteq> None \<longrightarrow> a \<in> set (vf_algorithms V)) \<and>
     0 < vf_refresh_interval V \<and> vf_refresh_interval V \<le> vf_jwks_max_age V \<and> fresh V st now"
proof -
  from assms obtain algs issuer uri keys index where
    cfg: "oidc_validate config = Inr ()" and algs: "parse_algorithms L (allowed_algorithms config) = Inr algs"
    and iss: "validate_issuer_url L issuer (allow_insecure_http config) (lit ''OIDC discovery issuer'') = Inr ()"
      "without_slashes issuer = without_slashes (issuer_url config)"
    and uri: "validate_url_scheme L uri (allow_insecure_http config) (lit ''OIDC jwks_uri'') = Inr ()"
    and index: "index_keys L keys algs = Inr index"
    and V: "V = \<lparr> vf_issuer = issuer, vf_audience = audience config, vf_algorithms = algs,
            vf_jwks_uri = uri, vf_https_only = (\<not> allow_insecure_http config),
            vf_refresh_interval = seconds (jwks_refresh_interval_seconds config),
            vf_jwks_max_age = seconds (jwks_max_age_seconds config),
            vf_clock_skew = clock_skew_seconds config,
            vf_max_lifetime = max_token_lifetime_seconds config \<rparr>"
    and st: "st = \<lparr> ks_index = index, ks_fetched_at = now, ks_last_attempt = None \<rparr>"
    unfolding discover_def Let_def without_slashes_def
    by (elim and_then_Inr [THEN iffD1, elim_format] exE conjE)
      (auto simp: result_simps simp del: lit_simps split: prod.splits)
  have timers: "0 < seconds (jwks_refresh_interval_seconds config)"
    "seconds (jwks_refresh_interval_seconds config) \<le> seconds (jwks_max_age_seconds config)"
    using cfg by (auto simp: oidc_validate_def result_simps seconds_def word_le_nat_alt word_less_nat_alt)
  have ps: "algs \<noteq> [] \<and> distinct algs \<and> (\<forall>a \<in> set algs. \<not> is_hmac a) \<and>
     (\<forall>a. a \<in> set algs \<longleftrightarrow> a \<in> set [] \<or> Some a \<in> algorithm_from_str L ` set (allowed_algorithms config))"
    by (rule parse_algorithms_from_sound [OF algs [unfolded parse_algorithms_def]]) simp_all
  then have algs': "algs \<noteq> []" "\<forall>a \<in> set algs. \<not> is_hmac a"
    "\<forall>a. a \<in> set algs \<longleftrightarrow> Some a \<in> algorithm_from_str L ` set (allowed_algorithms config)" by simp_all
  from algs' iss(2) timers index_keys_allowed [OF index] validate_issuer_url_trusted [OF iss(1)]
    uri [unfolded validate_url_scheme_Inr]
  show ?thesis unfolding V st by (simp add: fresh_def)
qed

text \<open>
  A verifier that starts is safe.  Discovery succeeds only with at least one algorithm and no
  HMAC one, with issuer and key addresses over HTTPS (or HTTP where that was allowed), an issuer
  that equals the configured one up to trailing slashes, a key set with at least one key, all of
  them for allowed algorithms, and timers where the maximum age is at least the refresh interval
  and the interval is positive.
\<close>

theorem discovered_verifier_safe:
  assumes "discover L web now config = Inr (V, st)"
  shows "vf_algorithms V \<noteq> [] \<and> (\<forall>a \<in> set (vf_algorithms V). \<not> is_hmac a) \<and>
     (\<forall>a. a \<in> set (vf_algorithms V) \<longleftrightarrow> Some a \<in> algorithm_from_str L ` set (allowed_algorithms config)) \<and>
     trusted_scheme L (allow_insecure_http config) (vf_issuer V) \<and>
     trusted_scheme L (allow_insecure_http config) (vf_jwks_uri V) \<and>
     without_slashes (vf_issuer V) = without_slashes (issuer_url config) \<and>
     ks_index st \<noteq> [] \<and> (\<forall>a kid. map_of (ks_index st) (a, kid) \<noteq> None \<longrightarrow> a \<in> set (vf_algorithms V)) \<and>
     0 < vf_refresh_interval V \<and> vf_refresh_interval V \<le> vf_jwks_max_age V \<and> fresh V st now"
  by (rule discover_sound [OF assms])

definition sample_oidc_config :: oidc_config where
  "sample_oidc_config = \<lparr> issuer_url = lit ''https://issuer'', audience = lit ''users-api'',
     allowed_algorithms = [lit ''RS256''], http_timeout_seconds = 5, clock_skew_seconds = 30,
     jwks_refresh_interval_seconds = 60, jwks_max_age_seconds = 300,
     max_token_lifetime_seconds = 3600, allow_insecure_http = False \<rparr>"

theorem discovered_verifier_safe_witness:
  "\<exists>V st. discover sample_jose (\<lambda>_. Response 200 None [Chunk [1]]) 1000 sample_oidc_config = Inr (V, st) \<and>
     fresh V st 1000"
proof -
  have "is_ok (discover sample_jose (\<lambda>_. Response 200 None [Chunk [1]]) 1000 sample_oidc_config)"
    by (simp add: discover_def sample_oidc_config_def oidc_validate_def ensure_def parse_algorithms_def
          sample_jose_def is_hmac_def validate_issuer_url_def validate_url_scheme_def parse_url_def
          fetch_json_def client_get_def MAX_METADATA_RESPONSE_BYTES_def string_eval Let_def
          index_keys_def key_is_usable_def sample_jwk_def algorithm_debug_def)
  then obtain V st where "discover sample_jose (\<lambda>_. Response 200 None [Chunk [1]]) 1000 sample_oidc_config = Inr (V, st)"
    by (auto simp: is_ok_iff)
  with discovered_verifier_safe [OF this] show ?thesis by blast
qed

end
