(* ===== verification/Http.thy ===== *)
theory Http
  imports Oidc_Keys App_User
begin

text \<open>
  The HTTP layer apart from the user handlers (\<open>src/presentation/http\<close>): API errors and their
  responses (\<open>error.rs\<close>), bearer tokens and the scope check (\<open>auth.rs\<close>), the client key and
  the rejections of the rate limiter (\<open>rate_limit.rs\<close>), the metrics and health endpoints.

  axum's types are reduced to what the sources read and write: a request has a method, decoded
  path segments, headers, the peer address and a body; a response has a status, headers and a
  JSON or text body.  The parsers of IP addresses and CIDR blocks are parameters.
\<close>

section \<open>Requests and responses\<close>

datatype http_method = GET | HEAD | POST | PUT | DELETE | OtherMethod rstring

record 'ip request =
  rq_method :: http_method
  rq_path :: "rstring list"
  rq_headers :: "(rstring \<times> rstring) list"
  rq_query :: rstring
  rq_body :: rstring
  rq_connect_info :: "'ip option"
  rq_socket_addr :: "'ip option"

datatype body = Empty | Json json | Text rstring

record http_response =
  rs_status :: nat
  rs_headers :: "(rstring \<times> rstring) list"
  rs_body :: body
  rs_rate_limited :: bool

definition plain_response :: "nat \<Rightarrow> body \<Rightarrow> http_response" where
  "plain_response status b = \<lparr> rs_status = status, rs_headers = [], rs_body = b, rs_rate_limited = False \<rparr>"

text \<open>\<open>HeaderValue::to_str\<close> accepts visible ASCII and tabs.\<close>

definition header_text_ok :: "rstring \<Rightarrow> bool" where
  "header_text_ok s \<longleftrightarrow> list_all (\<lambda>c. 32 \<le> c \<and> c < 127 \<or> c = 9) s"

definition header_str :: "(rstring \<times> rstring) list \<Rightarrow> rstring \<Rightarrow> rstring option" where
  "header_str hs name = (case map_of hs name of
     None \<Rightarrow> None | Some v \<Rightarrow> if header_text_ok v then Some v else None)"

section \<open>API errors\<close>

record api_error =
  ae_status :: nat
  ae_code :: rstring
  ae_message :: rstring
  ae_www_authenticate :: "rstring option"

definition without_challenge :: "nat \<Rightarrow> rstring \<Rightarrow> rstring \<Rightarrow> api_error" where
  "without_challenge status code message =
     \<lparr> ae_status = status, ae_code = code, ae_message = message, ae_www_authenticate = None \<rparr>"

text \<open>\<open>expect\<close> on the challenge never fails: see \<open>challenges_are_header_values\<close>.\<close>

definition authentication_error :: "nat \<Rightarrow> rstring \<Rightarrow> rstring \<Rightarrow> rstring \<Rightarrow> api_error" where
  "authentication_error status code message challenge =
     \<lparr> ae_status = status, ae_code = code, ae_message = message, ae_www_authenticate = Some challenge \<rparr>"

definition invalid_id :: api_error where
  "invalid_id = without_challenge 400 (lit ''invalid_user_id'') (lit ''user id must be a valid UUID'')"

definition unauthorized :: api_error where
  "unauthorized = authentication_error 401 (lit ''unauthorized'') (lit ''a Bearer access token is required'') (lit ''Bearer'')"

definition invalid_token :: api_error where
  "invalid_token = authentication_error 401 (lit ''unauthorized'') (lit ''the Bearer access token is invalid'')
     (lit ''Bearer error=\"invalid_token\"'')"

definition insufficient_scope :: "rstring \<Rightarrow> api_error" where
  "insufficient_scope scope = authentication_error 403 (lit ''insufficient_scope'')
     (lit ''the access token does not grant the required scope'')
     (lit ''Bearer error=\"insufficient_scope\", scope=\"'' @ scope @ lit ''\"'')"

definition authentication_unavailable :: api_error where
  "authentication_unavailable = authentication_error 503 (lit ''authentication_unavailable'')
     (lit ''access token verification is temporarily unavailable'') (lit ''Bearer'')"

text \<open>A rejection of axum's extractors: its status and text.\<close>

record rejection =
  rj_status :: nat
  rj_text :: rstring

definition from_json_rejection :: "rejection \<Rightarrow> api_error" where
  "from_json_rejection e = without_challenge (rj_status e) (lit ''invalid_json'') (rj_text e)"

definition from_query_rejection :: "rejection \<Rightarrow> api_error" where
  "from_query_rejection e = without_challenge 400 (lit ''invalid_query'') (rj_text e)"

definition application_error_text :: "application_error \<Rightarrow> rstring" where
  "application_error_text e = (case e of
     InvalidInput u \<Rightarrow> user_error_message u
   | NotFound \<Rightarrow> lit ''user was not found''
   | EmailAlreadyExists \<Rightarrow> lit ''a user with this email already exists''
   | DependencyUnavailable \<Rightarrow> lit ''a required dependency is unavailable'')"

definition from_application_error :: "application_error \<Rightarrow> api_error" where
  "from_application_error e =
     (let (status, code) = (case e of
            InvalidInput _ \<Rightarrow> (422, lit ''validation_failed'')
          | NotFound \<Rightarrow> (404, lit ''user_not_found'')
          | EmailAlreadyExists \<Rightarrow> (409, lit ''email_already_exists'')
          | DependencyUnavailable \<Rightarrow> (503, lit ''service_unavailable'')) in
      without_challenge status code (application_error_text e))"

definition error_body :: "rstring \<Rightarrow> rstring \<Rightarrow> body" where
  "error_body code message =
     Json (JObject [(lit ''error'', JObject [(lit ''code'', JString code), (lit ''message'', JString message)])])"

definition error_into_response :: "api_error \<Rightarrow> http_response" where
  "error_into_response e =
     (plain_response (ae_status e) (error_body (ae_code e) (ae_message e)))\<lparr> rs_headers :=
        (case ae_www_authenticate e of None \<Rightarrow> [] | Some challenge \<Rightarrow> [(lit ''www-authenticate'', challenge)]) \<rparr>"

section \<open>Bearer tokens and scopes\<close>

definition bearer_token :: "(rstring \<times> rstring) list \<Rightarrow> rstring option" where
  "bearer_token headers =
     (case header_str headers (lit ''authorization'') of
        None \<Rightarrow> None
      | Some v \<Rightarrow> (case split_once 32 v of
            None \<Rightarrow> None
          | Some (scheme, token) \<Rightarrow>
              if \<not> eq_ignore_ascii_case scheme (lit ''Bearer'') \<or> token = [] \<or> list_ex is_whitespace token
              then None else Some token))"

definition from_verification_error :: "verification_error \<Rightarrow> api_error" where
  "from_verification_error e = (case e of
     InvalidToken \<Rightarrow> invalid_token | AuthenticationUnavailable \<Rightarrow> authentication_unavailable)"

text \<open>\<open>require_scope\<close> up to \<open>next.run\<close>: the principal put into the request's extensions.\<close>

definition require_scope :: "'k token_verifier \<Rightarrow> rstring \<Rightarrow> (rstring \<times> rstring) list
    \<Rightarrow> ('k, api_error, principal) op" where
  "require_scope verifier scope headers =
     op_bind (lift_result (ok_or unauthorized (bearer_token headers))) (\<lambda>access_token.
     op_bind (op_map_err from_verification_error (verifier access_token)) (\<lambda>principal.
     if \<not> has_scope principal scope then lift_result (Inl (insufficient_scope scope))
     else lift_result (Inr principal)))"

definition principal_from_parts :: "principal option \<Rightarrow> api_error + principal" where
  "principal_from_parts extension = ok_or unauthorized extension"

section \<open>The client key of the rate limiter\<close>

record ('net, 'ip) addresses =
  net_contains :: "'net \<Rightarrow> 'ip \<Rightarrow> bool"
  parse_ip :: "rstring \<Rightarrow> 'ip option"
  localhost :: 'ip

definition is_trusted :: "('net, 'ip) addresses \<Rightarrow> 'net list \<Rightarrow> 'ip \<Rightarrow> bool" where
  "is_trusted A cidrs ip \<longleftrightarrow> list_ex (\<lambda>n. net_contains A n ip) cidrs"

fun first_untrusted :: "('net, 'ip) addresses \<Rightarrow> 'net list \<Rightarrow> rstring list \<Rightarrow> 'ip option" where
  "first_untrusted A cidrs [] = None"
| "first_untrusted A cidrs (e # es) =
     (case parse_ip A e of
        None \<Rightarrow> None
      | Some ip \<Rightarrow> if \<not> is_trusted A cidrs ip then Some ip else first_untrusted A cidrs es)"

definition peer_of :: "('net, 'ip) addresses \<Rightarrow> 'ip request \<Rightarrow> 'ip" where
  "peer_of A r = (case rq_connect_info r of Some ip \<Rightarrow> ip
     | None \<Rightarrow> (case rq_socket_addr r of Some ip \<Rightarrow> ip | None \<Rightarrow> localhost A))"

definition extract_key :: "('net, 'ip) addresses \<Rightarrow> 'net list \<Rightarrow> 'ip request \<Rightarrow> 'ip" where
  "extract_key A cidrs r =
     (let peer = peer_of A r in
      if \<not> is_trusted A cidrs peer then peer
      else (case header_str (rq_headers r) (lit ''x-forwarded-for'') of
              None \<Rightarrow> peer
            | Some v \<Rightarrow> (case first_untrusted A cidrs (map trim (rev (split_on 44 v))) of
                  Some ip \<Rightarrow> ip | None \<Rightarrow> peer)))"

datatype governor_error = TooManyRequests (wait_time: u64) | OtherGovernorError

definition rate_limit_response :: "governor_error \<Rightarrow> http_response" where
  "rate_limit_response e = (case e of
     TooManyRequests wait \<Rightarrow>
       \<lparr> rs_status = 429, rs_headers = [(lit ''retry-after'', decimal (unat (max wait 1)))],
         rs_body = error_body (lit ''rate_limit_exceeded'') (lit ''request rate limit exceeded''),
         rs_rate_limited = True \<rparr>
   | OtherGovernorError \<Rightarrow>
       plain_response 500 (error_body (lit ''rate_limit_unavailable'') (lit ''request rate limiter is unavailable'')))"

section \<open>Metrics and health\<close>

text \<open>\<open>exported\<close> is what the Prometheus exporter answers, if one is installed.\<close>

definition metrics_endpoint :: "rstring \<Rightarrow> ('e + rstring) option \<Rightarrow> (rstring \<times> rstring) list \<Rightarrow> http_response" where
  "metrics_endpoint token exported headers =
     (if (case bearer_token headers of None \<Rightarrow> False | Some candidate \<Rightarrow> candidate = token)
      then (case exported of
              Some (Inr text) \<Rightarrow> (plain_response 200 (Text text))\<lparr> rs_headers :=
                  [(lit ''content-type'', lit ''text/plain; version=0.0.4; charset=utf-8'')] \<rparr>
            | _ \<Rightarrow> plain_response 503 Empty)
      else plain_response 401 Empty)"

definition health_body :: "rstring \<Rightarrow> body" where
  "health_body status = Json (JObject [(lit ''status'', JString status)])"

definition live :: http_response where
  "live = plain_response 200 (health_body (lit ''ok''))"

definition ready :: "bool \<Rightarrow> http_response" where
  "ready is_ready =
     (if is_ready then plain_response 200 (health_body (lit ''ready''))
      else plain_response 503 (health_body (lit ''not_ready'')))"

section \<open>Lemmas\<close>

lemma challenges_are_header_values:
  "list_all (\<lambda>e. case ae_www_authenticate e of None \<Rightarrow> True | Some c \<Rightarrow> header_text_ok c)
     [unauthorized, invalid_token, insufficient_scope (lit ''users:read''), insufficient_scope (lit ''users:write''),
      authentication_unavailable]"
  by (simp add: unauthorized_def invalid_token_def insufficient_scope_def authentication_unavailable_def
        authentication_error_def header_text_ok_def)

lemma bearer_token_Some:
  "bearer_token hs = Some t \<Longrightarrow> \<exists>v. map_of hs (lit ''authorization'') = Some v \<and> header_text_ok v \<and> t \<noteq> [] \<and>
     (\<exists>scheme. v = scheme @ 32 # t \<and> eq_ignore_ascii_case scheme (lit ''Bearer'') \<and> (\<forall>c \<in> set t. \<not> is_whitespace c))"
  by (auto simp: bearer_token_def header_str_def split_once_Some list_ex_iff split: option.splits if_splits
        simp del: lit_simps)

lemma require_scope_Inr:
  "require_scope verifier scope hs st = (Inr p, st') \<Longrightarrow>
     \<exists>t. bearer_token hs = Some t \<and> verifier t st = (Inr p, st') \<and> has_scope p scope"
  by (auto simp: require_scope_def op_simps result_simps split: if_splits)

lemma first_untrusted_append:
  "first_untrusted A cidrs es = Some ip \<Longrightarrow> first_untrusted A cidrs (es @ fs) = Some ip"
  by (induction es) (auto split: option.splits if_splits)

lemma first_untrusted_SomeD:
  "first_untrusted A cidrs es = Some ip \<Longrightarrow>
     \<exists>nearer e farther. es = nearer @ e # farther \<and> parse_ip A e = Some ip \<and> \<not> is_trusted A cidrs ip \<and>
        (\<forall>n \<in> set nearer. \<exists>i. parse_ip A n = Some i \<and> is_trusted A cidrs i)"
proof (induction es)
  case (Cons e es)
  then obtain i where i: "parse_ip A e = Some i" by (auto split: option.splits)
  show ?case
  proof (cases "is_trusted A cidrs i")
    case True
    with Cons i obtain nearer b farther where "es = nearer @ b # farther" "parse_ip A b = Some ip"
      "\<not> is_trusted A cidrs ip" "\<forall>n \<in> set nearer. \<exists>i. parse_ip A n = Some i \<and> is_trusted A cidrs i"
      by auto
    with True i show ?thesis by (intro exI [of _ "e # nearer"] exI [of _ b] exI [of _ farther]) simp
  next
    case False
    with Cons i show ?thesis by (intro exI [of _ "[]"] exI [of _ e] exI [of _ es]) simp
  qed
qed simp

lemma split_on_comma_append: "split_on c (s @ c # t) = split_on c s @ split_on c t"
  by (induction s) (auto split: list.splits)

section \<open>Properties\<close>

definition forwarded_for :: "'ip request \<Rightarrow> rstring \<Rightarrow> 'ip request" where
  "forwarded_for r v = r\<lparr> rq_headers := (lit ''x-forwarded-for'', v) # rq_headers r \<rparr>"

lemma peer_of_forwarded [simp]: "peer_of A (forwarded_for r v) = peer_of A r"
  by (simp add: forwarded_for_def peer_of_def split: option.split)

text \<open>
  The rate-limit key cannot be chosen by a client behind proxies that append.  A peer that is not a trusted proxy is
  counted by its own address, whatever it sends.  Behind trusted proxies the key is the first
  address from the right that is not a trusted proxy, with only trusted proxies after it; once
  the proxies have appended it, nothing the client put further left changes the key.
\<close>

theorem rate_limit_key_unforgeable:
  "(\<not> is_trusted A cidrs (peer_of A r) \<longrightarrow> extract_key A cidrs (forwarded_for r v) = peer_of A r) \<and>
   (extract_key A cidrs r \<noteq> peer_of A r \<longrightarrow>
      is_trusted A cidrs (peer_of A r) \<and> \<not> is_trusted A cidrs (extract_key A cidrs r) \<and>
      (\<exists>v nearer e farther. header_str (rq_headers r) (lit ''x-forwarded-for'') = Some v \<and>
         map trim (split_on 44 v) = farther @ e # nearer \<and> parse_ip A e = Some (extract_key A cidrs r) \<and>
         (\<forall>n \<in> set nearer. \<exists>i. parse_ip A n = Some i \<and> is_trusted A cidrs i))) \<and>
   (is_trusted A cidrs (peer_of A r) \<and> header_text_ok forged \<and> header_text_ok v \<and>
      first_untrusted A cidrs (map trim (rev (split_on 44 v))) = Some ip \<longrightarrow>
      extract_key A cidrs (forwarded_for r (forged @ 44 # v)) = ip)"
proof (intro conjI impI)
  assume "\<not> is_trusted A cidrs (peer_of A r)"
  then show "extract_key A cidrs (forwarded_for r v) = peer_of A r"
    by (simp add: extract_key_def Let_def)
next
  assume key: "extract_key A cidrs r \<noteq> peer_of A r"
  then show "is_trusted A cidrs (peer_of A r)" by (auto simp: extract_key_def Let_def split: if_splits)
  from key obtain v where v: "header_str (rq_headers r) (lit ''x-forwarded-for'') = Some v"
    and f: "first_untrusted A cidrs (map trim (rev (split_on 44 v))) = Some (extract_key A cidrs r)"
    by (auto simp: extract_key_def Let_def split: if_splits option.splits simp del: lit_simps)
  from first_untrusted_SomeD [OF f] obtain nearer e farther where
    e: "map trim (rev (split_on 44 v)) = nearer @ e # farther" "parse_ip A e = Some (extract_key A cidrs r)"
      "\<not> is_trusted A cidrs (extract_key A cidrs r)"
      "\<forall>n \<in> set nearer. \<exists>i. parse_ip A n = Some i \<and> is_trusted A cidrs i" by blast
  from e(3) show "\<not> is_trusted A cidrs (extract_key A cidrs r)" .
  from arg_cong [OF e(1), of rev] have "map trim (split_on 44 v) = rev farther @ e # rev nearer"
    by (simp add: rev_map [symmetric])
  with v e(2,4) show "\<exists>v nearer e farther. header_str (rq_headers r) (lit ''x-forwarded-for'') = Some v \<and>
         map trim (split_on 44 v) = farther @ e # nearer \<and> parse_ip A e = Some (extract_key A cidrs r) \<and>
         (\<forall>n \<in> set nearer. \<exists>i. parse_ip A n = Some i \<and> is_trusted A cidrs i)"
    by (metis set_rev)
next
  assume a: "is_trusted A cidrs (peer_of A r) \<and> header_text_ok forged \<and> header_text_ok v \<and>
      first_untrusted A cidrs (map trim (rev (split_on 44 v))) = Some ip"
  then have "header_text_ok (forged @ 44 # v)" by (simp add: header_text_ok_def)
  moreover from a have "first_untrusted A cidrs (map trim (rev (split_on 44 (forged @ 44 # v)))) = Some ip"
    by (simp add: split_on_comma_append first_untrusted_append)
  ultimately show "extract_key A cidrs (forwarded_for r (forged @ 44 # v)) = ip"
    using a by (simp add: extract_key_def header_str_def Let_def) (simp add: forwarded_for_def)
qed

definition sample_addresses :: "(rchar, rstring) addresses" where
  "sample_addresses = \<lparr> net_contains = (\<lambda>n ip. take 1 ip = [n]),
     parse_ip = (\<lambda>s. if s = [] then None else Some s), localhost = [49] \<rparr>"

definition sample_request :: "rstring request" where
  "sample_request = \<lparr> rq_method = GET, rq_path = [], rq_headers = [(lit ''x-forwarded-for'', lit ''8, 7, 1'')],
     rq_query = [], rq_body = [], rq_connect_info = Some (lit ''1''), rq_socket_addr = None \<rparr>"

theorem rate_limit_key_unforgeable_witness:
  "extract_key sample_addresses [49] (forwarded_for sample_request (lit ''6, 5'' @ 44 # lit ''7, 1'')) = lit ''7'' \<and>
   \<not> is_trusted sample_addresses [49] (extract_key sample_addresses [49] sample_request)"
proof -
  have k: "extract_key sample_addresses [49] sample_request = lit ''7''"
    "is_trusted sample_addresses [49] (peer_of sample_addresses sample_request)"
    "peer_of sample_addresses sample_request = lit ''1''"
    "first_untrusted sample_addresses [49] (map trim (rev (split_on 44 (lit ''7, 1'')))) = Some (lit ''7'')"
    by (simp_all add: extract_key_def peer_of_def sample_request_def sample_addresses_def is_trusted_def
          header_str_def header_text_ok_def string_eval)
  have t: "header_text_ok (lit ''6, 5'')" "header_text_ok (lit ''7, 1'')" by (simp_all add: header_text_ok_def)
  have ne: "extract_key sample_addresses [49] sample_request \<noteq> peer_of sample_addresses sample_request"
    unfolding k by simp
  note r = rate_limit_key_unforgeable [where A = sample_addresses and cidrs = "[49]" and r = sample_request]
  from r [where forged = "lit ''6, 5''" and v = "lit ''7, 1''" and ip = "lit ''7''"] k(2,4) t ne
  show ?thesis by blast
qed

lemma first_untrusted_trusted:
  assumes "\<forall>n \<in> set es. \<exists>i. parse_ip A n = Some i \<and> is_trusted A cidrs i"
  shows "first_untrusted A cidrs (es @ fs) = first_untrusted A cidrs fs"
  using assms by (induction es) auto

lemma key_of_chain:
  assumes "is_trusted A cidrs (peer_of A r)" and "header_str (rq_headers r) (lit ''x-forwarded-for'') = Some v"
    and "map trim (split_on 44 v) = xs @ e # es"
    and "\<forall>n \<in> set es. \<exists>i. parse_ip A n = Some i \<and> is_trusted A cidrs i"
  shows "extract_key A cidrs r =
    (case first_untrusted A cidrs (e # rev xs) of Some ip \<Rightarrow> ip | None \<Rightarrow> peer_of A r)"
proof -
  have "map trim (rev (split_on 44 v)) = rev es @ e # rev xs"
    using arg_cong [OF assms(3), of rev] by (simp add: rev_map)
  moreover have "first_untrusted A cidrs (rev es @ e # rev xs) = first_untrusted A cidrs (e # rev xs)"
    by (rule first_untrusted_trusted) (use assms(4) in simp)
  ultimately show ?thesis using assms(1,2) unfolding extract_key_def Let_def by simp
qed

text \<open>
  C34. The rate-limit key is the documented one.  A peer outside the trusted proxies is counted by its own
  address, whatever headers it sends, and so is a trusted peer without a readable forwarding
  header.  Behind trusted proxies that overwrite the header, a fully valid chain (the client's
  address, then trusted proxies only) gives its first address, and a malformed address followed
  by trusted proxies only falls back to the peer.
\<close>

theorem rate_limit_key_documented:
  "(\<not> is_trusted A cidrs (peer_of A r) \<longrightarrow> extract_key A cidrs r = peer_of A r) \<and>
   (is_trusted A cidrs (peer_of A r) \<longrightarrow>
     (case header_str (rq_headers r) (lit ''x-forwarded-for'') of
        None \<Rightarrow> extract_key A cidrs r = peer_of A r
      | Some v \<Rightarrow>
          (\<forall>xs e es. map trim (split_on 44 v) = xs @ e # es \<and>
             (\<forall>n \<in> set es. \<exists>i. parse_ip A n = Some i \<and> is_trusted A cidrs i) \<longrightarrow>
             (parse_ip A e = None \<longrightarrow> extract_key A cidrs r = peer_of A r) \<and>
             (\<forall>ip. xs = [] \<and> parse_ip A e = Some ip \<and> \<not> is_trusted A cidrs ip \<longrightarrow> extract_key A cidrs r = ip))))"
proof (cases "is_trusted A cidrs (peer_of A r)")
  case False
  then show ?thesis by (simp add: extract_key_def Let_def)
next
  case True
  show ?thesis
  proof (cases "header_str (rq_headers r) (lit ''x-forwarded-for'')")
    case None
    with True show ?thesis by (simp add: extract_key_def Let_def)
  next
    case (Some v)
    have "(parse_ip A e = None \<longrightarrow> extract_key A cidrs r = peer_of A r) \<and>
        (\<forall>ip. xs = [] \<and> parse_ip A e = Some ip \<and> \<not> is_trusted A cidrs ip \<longrightarrow> extract_key A cidrs r = ip)"
      if "map trim (split_on 44 v) = xs @ e # es"
        "\<forall>n \<in> set es. \<exists>i. parse_ip A n = Some i \<and> is_trusted A cidrs i" for xs e es
      using key_of_chain [OF True Some that] by simp
    with True Some show ?thesis by auto
  qed
qed

text \<open>A client \<open>7\<close> behind two proxies, and the same with an address that cannot be read.\<close>

theorem rate_limit_key_documented_witness:
  "extract_key sample_addresses [49]
     (sample_request\<lparr> rq_headers := [(lit ''x-forwarded-for'', lit ''7, 1, 12'')] \<rparr>) = lit ''7'' \<and>
   extract_key sample_addresses [49]
     (sample_request\<lparr> rq_headers := [(lit ''x-forwarded-for'', lit '', 1'')] \<rparr>) = lit ''1''"
proof -
  let ?r = "\<lambda>v. sample_request\<lparr> rq_headers := [(lit ''x-forwarded-for'', v)] \<rparr>"
  have peer: "peer_of sample_addresses (?r v) = lit ''1''" for v by (simp add: peer_of_def sample_request_def)
  have trusted: "is_trusted sample_addresses [49] (lit ''1'')" "is_trusted sample_addresses [49] (lit ''12'')"
    "\<not> is_trusted sample_addresses [49] (lit ''7'')" by (simp_all add: is_trusted_def sample_addresses_def)
  have parse: "parse_ip sample_addresses (lit ''7'') = Some (lit ''7'')" "parse_ip sample_addresses (lit ''1'') = Some (lit ''1'')"
    "parse_ip sample_addresses (lit ''12'') = Some (lit ''12'')" "parse_ip sample_addresses [] = None"
    by (simp_all add: sample_addresses_def)
  have h: "header_str (rq_headers (?r (lit ''7, 1, 12''))) (lit ''x-forwarded-for'') = Some (lit ''7, 1, 12'')"
    "header_str (rq_headers (?r (lit '', 1''))) (lit ''x-forwarded-for'') = Some (lit '', 1'')"
    by (simp_all add: header_str_def header_text_ok_def)
  have c: "map trim (split_on 44 (lit ''7, 1, 12'')) = [] @ lit ''7'' # [lit ''1'', lit ''12'']"
    "map trim (split_on 44 (lit '', 1'')) = [] @ [] # [lit ''1'']" by (simp_all add: string_eval)
  have t1: "\<forall>n \<in> set [lit ''1'', lit ''12'']. \<exists>i. parse_ip sample_addresses n = Some i \<and> is_trusted sample_addresses [49] i"
    and t2: "\<forall>n \<in> set [lit ''1'']. \<exists>i. parse_ip sample_addresses n = Some i \<and> is_trusted sample_addresses [49] i"
    using trusted parse by (auto simp del: lit_simps)
  have peer_ok: "is_trusted sample_addresses [49] (peer_of sample_addresses (?r v))" for v unfolding peer by (rule trusted(1))
  note doc = rate_limit_key_documented [where A = sample_addresses and cidrs = "[49]", THEN conjunct2, rule_format, OF peer_ok]
  from doc [of "lit ''7, 1, 12''"] have "extract_key sample_addresses [49] (?r (lit ''7, 1, 12'')) = lit ''7''"
    unfolding h option.case using c(1) t1 parse(1) trusted(3) by blast
  moreover from doc [of "lit '', 1''"] have "extract_key sample_addresses [49] (?r (lit '', 1'')) = lit ''1''"
    unfolding h option.case using c(2) t2 parse(4) peer by metis
  ultimately show ?thesis by blast
qed

end
