(* ===== verification/Http_Api.thy ===== *)
theory Http_Api
  imports Http User_Service
begin

text \<open>
  The user API (\<open>src/presentation/http/user\<close>) and the router (\<open>router.rs\<close>): request and
  response types, one handler per route, the routing table with the scope of each route, and the
  order of the layers around a handler: rate limiter, scope check, handler.

  Body and query decoding (serde), the limiter's decisions, the UUID and time formats are
  functions of the environment record.  The tracing, timeout, body-limit and request-id layers
  are not modelled.
\<close>

section \<open>Requests and responses of the user API\<close>

record user_request =
  uq_email :: rstring
  uq_display_name :: rstring

definition user_input_from :: "user_request \<Rightarrow> user_input" where
  "user_input_from v = \<lparr> ui_email = uq_email v, ui_display_name = uq_display_name v \<rparr>"

definition default_page :: u32 where
  "default_page = 1"

definition default_per_page :: u32 where
  "default_per_page = 20"

text \<open>The decoded query: what is missing takes its default.\<close>

definition list_users_query :: "u32 option \<times> u32 option \<Rightarrow> list_users_input" where
  "list_users_query q =
     \<lparr> li_page = (case fst q of None \<Rightarrow> default_page | Some p \<Rightarrow> p),
       li_per_page = (case snd q of None \<Rightarrow> default_per_page | Some n \<Rightarrow> n) \<rparr>"

definition list_users_input_from :: "list_users_input \<Rightarrow> list_users_input" where
  "list_users_input_from q = normalized q"

record ('d, 'c, 'k, 'net, 'ip) app_env =
  e_repository :: "'d user_repository"
  e_cache :: "'c user_cache"
  e_unicode :: unicode
  e_cache_ttl :: u64
  e_max_attempts :: u32
  e_verifier :: "'k token_verifier"
  e_uuid_text :: "uuid \<Rightarrow> rstring"
  e_parse_uuid :: "rstring \<Rightarrow> uuid option"
  e_rfc3339 :: "timestamp \<Rightarrow> rstring"
  e_json_body :: "'ip request \<Rightarrow> rejection + user_request"
  e_query :: "rstring \<Rightarrow> rejection + u32 option \<times> u32 option"
  e_fresh :: uuid
  e_now :: timestamp
  e_addresses :: "('net, 'ip) addresses"
  e_cidrs :: "'net list"
  e_limiter :: "'ip \<Rightarrow> governor_error option"
  e_ready :: bool
  e_metrics_token :: "rstring option"
  e_fallback_scope :: rstring
  e_metrics :: "(unit + rstring) option"

definition user_response :: "('d, 'c, 'k, 'net, 'ip) app_env \<Rightarrow> user \<Rightarrow> json" where
  "user_response E user = JObject
     [(lit ''id'', JString (user_id_display (e_uuid_text E) (u_id user))),
      (lit ''email'', JString (email_str (u_email user))),
      (lit ''display_name'', JString (name_str (u_display_name user))),
      (lit ''created_at'', JString (e_rfc3339 E (u_created_at user))),
      (lit ''updated_at'', JString (e_rfc3339 E (u_updated_at user)))]"

definition user_envelope :: "('d, 'c, 'k, 'net, 'ip) app_env \<Rightarrow> user \<Rightarrow> body" where
  "user_envelope E user = Json (JObject [(lit ''data'', user_response E user)])"

definition user_list_envelope :: "('d, 'c, 'k, 'net, 'ip) app_env \<Rightarrow> list_users_input \<Rightarrow> user list \<Rightarrow> body" where
  "user_list_envelope E input us = Json (JObject
     [(lit ''data'', JArray (map (user_response E) us)),
      (lit ''page'', JNumber (decimal (unat (li_page input)))),
      (lit ''per_page'', JNumber (decimal (unat (li_per_page input))))])"

section \<open>Handlers\<close>

definition parse_id :: "('d, 'c, 'k, 'net, 'ip) app_env \<Rightarrow> rstring \<Rightarrow> api_error + user_id" where
  "parse_id E v = ok_or invalid_id (user_id_try_from (e_parse_uuid E) v)"

definition handle_create :: "('d, 'c, 'k, 'net, 'ip) app_env \<Rightarrow> 'ip request \<Rightarrow> ('d \<times> 'c, api_error, http_response) op" where
  "handle_create E r =
     op_bind (lift_result (map_err from_json_rejection (e_json_body E r))) (\<lambda>request.
     op_bind (op_map_err from_application_error
       (create_user (e_unicode E) (e_repository E) (e_cache E) (e_cache_ttl E) (e_max_attempts E)
          (e_uuid_text E) (e_fresh E) (e_now E) (user_input_from request))) (\<lambda>user.
     lift_result (Inr (plain_response 201 (user_envelope E user)))))"

definition handle_get :: "('d, 'c, 'k, 'net, 'ip) app_env \<Rightarrow> rstring \<Rightarrow> ('d \<times> 'c, api_error, http_response) op" where
  "handle_get E i =
     op_bind (lift_result (parse_id E i)) (\<lambda>i.
     op_bind (op_map_err from_application_error (get_user (e_repository E) (e_cache E) (e_cache_ttl E) i)) (\<lambda>user.
     lift_result (Inr (plain_response 200 (user_envelope E user)))))"

definition handle_list :: "('d, 'c, 'k, 'net, 'ip) app_env \<Rightarrow> 'ip request \<Rightarrow> ('d \<times> 'c, api_error, http_response) op" where
  "handle_list E r =
     op_bind (lift_result (map_err from_query_rejection (e_query E (rq_query r)))) (\<lambda>query.
     let input = list_users_input_from (list_users_query query) in
     op_bind (op_map_err from_application_error (list_users (e_repository E) input)) (\<lambda>us.
     lift_result (Inr (plain_response 200 (user_list_envelope E input us)))))"

definition handle_update :: "('d, 'c, 'k, 'net, 'ip) app_env \<Rightarrow> rstring \<Rightarrow> 'ip request
    \<Rightarrow> ('d \<times> 'c, api_error, http_response) op" where
  "handle_update E i r =
     op_bind (lift_result (map_err from_json_rejection (e_json_body E r))) (\<lambda>request.
     op_bind (lift_result (parse_id E i)) (\<lambda>i.
     op_bind (op_map_err from_application_error
       (update_user (e_unicode E) (e_repository E) (e_cache E) (e_cache_ttl E) i (user_input_from request))) (\<lambda>user.
     lift_result (Inr (plain_response 200 (user_envelope E user))))))"

definition handle_delete :: "('d, 'c, 'k, 'net, 'ip) app_env \<Rightarrow> rstring \<Rightarrow> ('d \<times> 'c, api_error, http_response) op" where
  "handle_delete E i =
     op_bind (lift_result (parse_id E i)) (\<lambda>i.
     op_bind (op_map_err from_application_error (delete_user (e_repository E) (e_cache E) i)) (\<lambda>_.
     lift_result (Inr (plain_response 204 Empty))))"

section \<open>The router\<close>

datatype route =
    ListUsers | CreateUser | GetUser rstring | UpdateUser rstring | DeleteUser rstring
  | NotAllowed rstring | HealthLive | HealthReady | Metrics rstring

definition users_route :: "rstring \<Rightarrow> http_method \<Rightarrow> route" where
  "users_route fallback_scope m = (case m of
     GET \<Rightarrow> ListUsers | HEAD \<Rightarrow> ListUsers | POST \<Rightarrow> CreateUser | _ \<Rightarrow> NotAllowed fallback_scope)"

definition user_route :: "rstring \<Rightarrow> rstring \<Rightarrow> http_method \<Rightarrow> route" where
  "user_route fallback_scope i m = (case m of
     GET \<Rightarrow> GetUser i | HEAD \<Rightarrow> GetUser i | PUT \<Rightarrow> UpdateUser i | DELETE \<Rightarrow> DeleteUser i
   | _ \<Rightarrow> NotAllowed fallback_scope)"

definition get_only :: "route \<Rightarrow> http_method \<Rightarrow> nat + route" where
  "get_only r m = (case m of GET \<Rightarrow> Inr r | HEAD \<Rightarrow> Inr r | _ \<Rightarrow> Inl 405)"

text \<open>
  The routing table; \<open>get\<close> also serves \<open>HEAD\<close> and an unknown path is 404.  Another method is 405.
  On the health and metrics paths no layer of the API is in its way.  On a user path it is the
  fallback of the method router, and \<open>Router::route_layer\<close> wraps that fallback like the handlers:
  limiter and scope check come first.  When the read and the write router are merged axum keeps one
  of their two fallbacks, so its scope is an argument; axum's \<open>Allow\<close> header is left out.
\<close>

definition route_of :: "rstring option \<Rightarrow> rstring \<Rightarrow> http_method \<Rightarrow> rstring list \<Rightarrow> nat + route" where
  "route_of metrics_token fallback_scope m path =
     (if path = [lit ''health''] \<or> path = [lit ''health'', lit ''live''] then get_only HealthLive m
      else if path = [lit ''health'', lit ''ready''] then get_only HealthReady m
      else if path = [lit ''metrics''] then (case metrics_token of None \<Rightarrow> Inl 404 | Some t \<Rightarrow> get_only (Metrics t) m)
      else if path = [lit ''api'', lit ''v1'', lit ''users''] then Inr (users_route fallback_scope m)
      else if length path = 4 \<and> take 3 path = [lit ''api'', lit ''v1'', lit ''users''] \<and> last path \<noteq> []
      then Inr (user_route fallback_scope (last path) m)
      else Inl 404)"

definition route_scope :: "route \<Rightarrow> rstring option" where
  "route_scope rt = (case rt of
     ListUsers \<Rightarrow> Some (lit ''users:read'') | GetUser _ \<Rightarrow> Some (lit ''users:read'')
   | CreateUser \<Rightarrow> Some (lit ''users:write'') | UpdateUser _ \<Rightarrow> Some (lit ''users:write'')
   | DeleteUser _ \<Rightarrow> Some (lit ''users:write'')
   | NotAllowed scope \<Rightarrow> Some scope
   | _ \<Rightarrow> None)"

definition handle :: "('d, 'c, 'k, 'net, 'ip) app_env \<Rightarrow> route \<Rightarrow> 'ip request \<Rightarrow> ('d \<times> 'c, api_error, http_response) op" where
  "handle E rt r = (case rt of
     ListUsers \<Rightarrow> handle_list E r
   | CreateUser \<Rightarrow> handle_create E r
   | GetUser i \<Rightarrow> handle_get E i
   | UpdateUser i \<Rightarrow> handle_update E i r
   | DeleteUser i \<Rightarrow> handle_delete E i
   | NotAllowed _ \<Rightarrow> lift_result (Inr (plain_response 405 Empty))
   | HealthLive \<Rightarrow> lift_result (Inr live)
   | HealthReady \<Rightarrow> lift_result (Inr (ready (e_ready E)))
   | Metrics t \<Rightarrow> lift_result (Inr (metrics_endpoint t (e_metrics E) (rq_headers r))))"

record ('d, 'c, 'k) app_state =
  as_db :: 'd
  as_cache :: 'c
  as_keys :: 'k

definition run_handler :: "('d, 'c, 'k, 'net, 'ip) app_env \<Rightarrow> route \<Rightarrow> 'ip request \<Rightarrow> ('d, 'c, 'k) app_state
    \<Rightarrow> http_response \<times> ('d, 'c, 'k) app_state" where
  "run_handler E rt r st =
     (case handle E rt r (as_db st, as_cache st) of
        (res, d, c) \<Rightarrow> ((case res of Inl e \<Rightarrow> error_into_response e | Inr rsp \<Rightarrow> rsp), st\<lparr> as_db := d, as_cache := c \<rparr>))"

definition serve_route :: "('d, 'c, 'k, 'net, 'ip) app_env \<Rightarrow> route \<Rightarrow> 'ip request \<Rightarrow> ('d, 'c, 'k) app_state
    \<Rightarrow> http_response \<times> ('d, 'c, 'k) app_state" where
  "serve_route E rt r st = (case route_scope rt of
     None \<Rightarrow> run_handler E rt r st
   | Some scope \<Rightarrow>
       (case e_limiter E (extract_key (e_addresses E) (e_cidrs E) r) of
          Some e \<Rightarrow> (rate_limit_response e, st)
        | None \<Rightarrow>
            (case require_scope (e_verifier E) scope (rq_headers r) (as_keys st) of
               (Inl e, ks) \<Rightarrow> (error_into_response e, st\<lparr> as_keys := ks \<rparr>)
             | (Inr who, ks) \<Rightarrow> run_handler E rt r (st\<lparr> as_keys := ks \<rparr>))))"

definition serve :: "('d, 'c, 'k, 'net, 'ip) app_env \<Rightarrow> 'ip request \<Rightarrow> ('d, 'c, 'k) app_state
    \<Rightarrow> http_response \<times> ('d, 'c, 'k) app_state" where
  "serve E r st =
     (case route_of (e_metrics_token E) (e_fallback_scope E) (rq_method r) (rq_path r) of
        Inl status \<Rightarrow> (plain_response status Empty, st)
      | Inr rt \<Rightarrow>
          (case serve_route E rt r st of
             (rsp, st') \<Rightarrow> (if rq_method r = HEAD then rsp\<lparr> rs_body := Empty \<rparr> else rsp, st')))"

section \<open>What a request can do\<close>

lemma run_handler_db:
  "run_handler E rt r st = (rsp, st') \<Longrightarrow>
     as_db st' = fst (snd (handle E rt r (as_db st, as_cache st))) \<and>
     as_cache st' = snd (snd (handle E rt r (as_db st, as_cache st))) \<and> as_keys st' = as_keys st"
  by (auto simp: run_handler_def split: prod.splits)

lemma public_routes_change_nothing:
  "route_scope rt = None \<Longrightarrow> run_handler E rt r st = (rsp, st') \<Longrightarrow> st' = st"
  by (cases rt) (auto simp: route_scope_def run_handler_def handle_def lift_result_def)

definition may_use :: "('d, 'c, 'k, 'net, 'ip) app_env \<Rightarrow> 'ip request \<Rightarrow> 'k \<Rightarrow> rstring \<Rightarrow> bool" where
  "may_use E r ks scope \<longleftrightarrow> (case bearer_token (rq_headers r) of
     None \<Rightarrow> False
   | Some t \<Rightarrow> (case fst (e_verifier E t ks) of Inl _ \<Rightarrow> False | Inr p \<Rightarrow> has_scope p scope))"

lemma require_scope_iff:
  "is_ok (fst (require_scope (e_verifier E) scope (rq_headers r) ks)) \<longleftrightarrow> may_use E r ks scope"
proof (cases "bearer_token (rq_headers r)")
  case (Some t)
  then show ?thesis
    by (cases "e_verifier E t ks"; cases "fst (e_verifier E t ks)")
      (simp_all add: require_scope_def may_use_def op_bind_def lift_result_def op_map_err_def)
qed (simp add: require_scope_def may_use_def op_bind_def lift_result_def)

lemma from_verification_error_range: "from_verification_error d = invalid_token \<or> from_verification_error d = authentication_unavailable"
  by (cases d) (simp_all add: from_verification_error_def)

lemma require_scope_rejects:
  assumes "require_scope verifier scope hs ks = (Inl e, ks')"
  shows "ae_status e \<in> {401, 403, 503}"
proof -
  have "e \<in> {unauthorized, invalid_token, authentication_unavailable, insufficient_scope scope}"
    using assms from_verification_error_range
    by (auto simp: require_scope_def op_simps result_simps split: if_splits)
  then show ?thesis
    by (auto simp: unauthorized_def invalid_token_def authentication_unavailable_def insufficient_scope_def
        authentication_error_def)
qed

lemma serve_route_protected:
  assumes "serve_route E rt r st = (rsp, st')" and "route_scope rt = Some scope" and "\<not> may_use E r (as_keys st) scope"
  shows "as_db st' = as_db st \<and> as_cache st' = as_cache st \<and> rs_status rsp \<in> {401, 403, 429, 500, 503}"
proof (cases "e_limiter E (extract_key (e_addresses E) (e_cidrs E) r)")
  case (Some e)
  with assms(1,2) show ?thesis
    by (cases e) (auto simp: serve_route_def rate_limit_response_def plain_response_def)
next
  case None
  obtain res ks where req: "require_scope (e_verifier E) scope (rq_headers r) (as_keys st) = (res, ks)" by fastforce
  with require_scope_iff [of E scope r "as_keys st"] assms(3) obtain e where "res = Inl e" by (cases res) auto
  with None req assms(1,2) require_scope_rejects [of "e_verifier E" scope "rq_headers r" "as_keys st" e ks]
  show ?thesis by (auto simp: serve_route_def error_into_response_def plain_response_def)
qed

lemma wrong_method_changes_nothing:
  assumes "serve_route E (NotAllowed scope) r st = (rsp, st')"
  shows "as_db st' = as_db st \<and> as_cache st' = as_cache st \<and> rs_status rsp \<in> {401, 403, 405, 429, 500, 503}"
proof -
  have sc: "route_scope (NotAllowed scope) = Some scope" by (simp add: route_scope_def)
  obtain res ks where req: "require_scope (e_verifier E) scope (rq_headers r) (as_keys st) = (res, ks)" by fastforce
  show ?thesis
  proof (cases "may_use E r (as_keys st) scope")
    case True
    with require_scope_iff [of E scope r "as_keys st"] req obtain p where "res = Inr p" by (cases res) auto
    with req assms show ?thesis
      by (auto simp: serve_route_def route_scope_def run_handler_def handle_def lift_result_def plain_response_def
          rate_limit_response_def split: option.splits governor_error.splits)
  qed (use serve_route_protected [OF assms sc] in auto)
qed

lemma user_paths_have_scope:
  assumes "take 3 path = [lit ''api'', lit ''v1'', lit ''users'']" and "route_of t fs m path = Inr rt"
  shows "route_scope rt \<noteq> None"
proof -
  from assms(1) have ne: "path \<noteq> [lit ''health'']" "path \<noteq> [lit ''health'', lit ''live'']"
    "path \<noteq> [lit ''health'', lit ''ready'']" "path \<noteq> [lit ''metrics'']" by auto
  from assms(2) ne have "rt = users_route fs m \<or> rt = user_route fs (last path) m"
    by (auto simp: route_of_def simp del: lit_simps split: if_splits)
  then show ?thesis
    by (cases m) (auto simp: users_route_def user_route_def route_scope_def)
qed

lemma serve_cases:
  assumes "serve E r st = (rsp, st')"
  obtains (unrouted) status where "route_of (e_metrics_token E) (e_fallback_scope E) (rq_method r) (rq_path r) = Inl status"
      and "st' = st" and "rs_status rsp = status"
    | (routed) rt rsp' where "route_of (e_metrics_token E) (e_fallback_scope E) (rq_method r) (rq_path r) = Inr rt"
      and "serve_route E rt r st = (rsp', st')" and "rs_status rsp = rs_status rsp'"
  using assms by (fastforce simp: serve_def plain_response_def split: sum.splits prod.splits if_splits)

text \<open>
  C3. No token, no access.  A request to a path of the user API, a wrong method included, whose
  bearer token is missing, rejected or without the route's scope changes neither users nor cache
  and is answered 401, 403, 429, 500 or 503; with the scope a wrong method changes neither either,
  and adds only the answer 405.  A request outside the API changes nothing at all, and the metrics
  are only shown to the holder of the configured token.
\<close>

theorem api_is_protected:
  assumes "serve E r st = (rsp, st')"
  shows "case route_of (e_metrics_token E) (e_fallback_scope E) (rq_method r) (rq_path r) of
       Inl status \<Rightarrow> st' = st \<and> rs_status rsp = status
     | Inr rt \<Rightarrow> (case route_scope rt of
         Some scope \<Rightarrow>
           (may_use E r (as_keys st) scope \<or>
              as_db st' = as_db st \<and> as_cache st' = as_cache st \<and> rs_status rsp \<in> {401, 403, 429, 500, 503}) \<and>
           (rt = NotAllowed scope \<longrightarrow>
              as_db st' = as_db st \<and> as_cache st' = as_cache st \<and> rs_status rsp \<in> {401, 403, 405, 429, 500, 503})
       | None \<Rightarrow> st' = st \<and> take 3 (rq_path r) \<noteq> [lit ''api'', lit ''v1'', lit ''users''] \<and>
           (case rt of Metrics t \<Rightarrow> rs_status rsp = 200 \<longrightarrow> bearer_token (rq_headers r) = Some t | _ \<Rightarrow> True))"
  using assms
proof (cases rule: serve_cases)
  case (routed rt rsp')
  show ?thesis
  proof (cases "route_scope rt")
    case (Some scope)
    have "may_use E r (as_keys st) scope \<or>
        as_db st' = as_db st \<and> as_cache st' = as_cache st \<and> rs_status rsp \<in> {401, 403, 429, 500, 503}"
      using serve_route_protected [OF routed(2) Some] routed(3) by auto
    moreover have "rt = NotAllowed scope \<longrightarrow>
        as_db st' = as_db st \<and> as_cache st' = as_cache st \<and> rs_status rsp \<in> {401, 403, 405, 429, 500, 503}"
      using wrong_method_changes_nothing [of E scope r st rsp' st'] routed(2,3) by auto
    ultimately show ?thesis using routed(1) Some by simp
  next
    case None
    with routed have run: "run_handler E rt r st = (rsp', st')" by (simp add: serve_route_def)
    from user_paths_have_scope [OF _ routed(1)] None
    have "take 3 (rq_path r) \<noteq> [lit ''api'', lit ''v1'', lit ''users'']" by blast
    with public_routes_change_nothing [OF None run] run routed(1,3) None show ?thesis
      by (auto simp: run_handler_def handle_def lift_result_def metrics_endpoint_def plain_response_def
          split: route.splits if_splits option.splits sum.splits)
  qed
qed simp

section \<open>Only write tokens change users\<close>

lemma exec_keeps_users:
  assumes "\<And>d. users (snd (st d)) = users d"
  shows "users (snd (exec st db)) = users db"
  by (rule exec_cases [of st db]) (simp_all add: assms)

lemma reads_keep_users:
  "users (snd (pg_find_by_id U i db)) = users db" "users (snd (pg_list U lim off db)) = users db"
proof -
  have "users (snd (exec (select_user (as_uuid i)) db)) = users db"
    by (rule exec_keeps_users) (simp add: select_user_def)
  then show "users (snd (pg_find_by_id U i db)) = users db"
    by (auto simp: pg_find_by_id_def op_bind_def op_map_err_def lift_result_def split: prod.split sum.split)
  have "users (snd (exec (list_stmt (unat lim) (i64_offset off)) db)) = users db"
    by (rule exec_keeps_users) (simp add: list_stmt_def)
  then show "users (snd (pg_list U lim off db)) = users db"
    by (auto simp: pg_list_def op_bind_def op_map_err_def lift_result_def split: prod.split sum.split)
qed

lemma get_user_keeps_users:
  "users (fst (snd (get_user (pg_user_repository U now fj tr) C ttl i (db, c)))) = users db"
  using reads_keep_users(1) [of U i db]
  by (auto simp: use_case_runs pg_user_repository_def split: prod.split sum.split option.split)

lemma list_users_keeps_users:
  "users (fst (snd (list_users (pg_user_repository U now fj tr) input (db, c)))) = users db"
  using reads_keep_users(2) [of U "li_per_page (normalized input)" "offset (normalized input)" db]
  by (auto simp: list_users_def on_db_def op_map_err_def pg_user_repository_def Let_def split: prod.split)

lemma read_routes_keep_users:
  assumes "e_repository E = pg_user_repository U now fj tr" and "route_scope rt \<noteq> Some (lit ''users:write'')"
  shows "users (fst (snd (handle E rt r (db, c)))) = users db"
proof -
  have "users (fst (snd (handle_get E i (db, c)))) = users db" for i
    using get_user_keeps_users [of U now fj tr "e_cache E" "e_cache_ttl E" _ db c]
    by (simp add: handle_get_def op_bind_def lift_result_def op_map_err_def assms(1) split: prod.splits sum.split)
      (metis fst_conv snd_conv)
  moreover have "users (fst (snd (handle_list E r (db, c)))) = users db"
    using list_users_keeps_users [of U now fj tr _ db c]
    by (simp add: handle_list_def op_bind_def lift_result_def op_map_err_def Let_def assms(1) split: prod.splits sum.split)
      (metis fst_conv snd_conv)
  ultimately show ?thesis
    using assms(2) by (cases rt) (simp_all add: handle_def route_scope_def lift_result_def)
qed

lemma write_authorized:
  assumes "e_repository E = pg_user_repository U now' fj tr"
    and "serve E r st = (rsp, st')" and "users (as_db st') \<noteq> users (as_db st)"
  obtains t p where "bearer_token (rq_headers r) = Some t"
    and "e_verifier E t (as_keys st) = (Inr p, as_keys st')" and "has_scope p (lit ''users:write'')"
  using assms(2)
proof (cases rule: serve_cases)
  case unrouted
  with assms(3) show ?thesis by simp
next
  case (routed rt rsp')
  show ?thesis
  proof (cases "route_scope rt")
    case None
    with routed have "run_handler E rt r st = (rsp', st')" by (simp add: serve_route_def)
    from public_routes_change_nothing [OF None this] assms(3) show ?thesis by simp
  next
    case (Some scope)
    obtain res ks where req: "require_scope (e_verifier E) scope (rq_headers r) (as_keys st) = (res, ks)" by fastforce
    with routed(2) Some assms(3) obtain p where p: "res = Inr p"
      and run: "run_handler E rt r (st\<lparr> as_keys := ks \<rparr>) = (rsp', st')"
      by (cases res) (auto simp: serve_route_def split: option.splits)
    from run_handler_db [OF run] have db: "as_db st' = fst (snd (handle E rt r (as_db st, as_cache st)))"
      and keys: "as_keys st' = ks" by auto
    from read_routes_keep_users [OF assms(1), of rt r "as_db st" "as_cache st"] db assms(3) Some
    have w: "scope = lit ''users:write''" by (auto simp del: lit_simps)
    from require_scope_Inr [OF req [unfolded p]] keys w show ?thesis using that by metis
  qed
qed

text \<open>Whatever verifier is plugged into the port: a change of the users was accepted by it.\<close>

context access_token_verifier begin

lemma write_accepted:
  assumes "e_repository E = pg_user_repository U now' fj tr" and "e_verifier E = verifier"
    and "serve E r st = (rsp, st')" and "users (as_db st') \<noteq> users (as_db st)"
  shows "\<exists>token p. bearer_token (rq_headers r) = Some token \<and> accepts token p (as_keys st') \<and>
     has_scope p (lit ''users:write'')"
  using write_authorized [OF assms(1,3,4)] verified unfolding assms(2) by metis

end

text \<open>
  Only a verified write token changes users.  Over PostgreSQL and the OIDC verifier, if serving a
  request changes the user table, then the request carries a bearer token whose signature and
  registered claims were verified with a published key and an allowed algorithm and whose scopes
  include \<open>users:write\<close>.
\<close>

theorem users_change_only_by_write_token:
  assumes "decode_reads_payload L"
    and "e_repository E = pg_user_repository U now' fj tr"
    and "e_verifier E = verify L V (Some now) clock answer"
    and "serve E r st = (rsp, st')" and "users (as_db st') \<noteq> users (as_db st)"
  shows "\<exists>t alg kid k c. bearer_token (rq_headers r) = Some t \<and> decode_header L t = Some (alg, Some kid) \<and>
     alg \<in> set (vf_algorithms V) \<and> map_of (ks_index (as_keys st')) (alg, kid) = Some k \<and>
     decode_token L t k (token_validation V alg) = Some c \<and>
     lit ''users:write'' \<in> set (split_ascii_whitespace (cl_scope c))"
proof -
  from tokens.write_accepted [OF assms(2-5)] assms(1) show ?thesis
    unfolding accepted_claims_def by metis
qed

section \<open>A concrete server\<close>

definition sample_app_env :: "(pg, unit, nat key_state, rchar, rstring) app_env" where
  "sample_app_env = \<lparr>
     e_repository = pg_user_repository sample_unicode 5000 9 JNull, e_cache = noop_user_cache,
     e_unicode = sample_unicode, e_cache_ttl = 60, e_max_attempts = 5,
     e_verifier = verify sample_jose sample_verifier (Some 1010) (sample_clock 1050) NoResponse,
     e_uuid_text = sample_disp, e_parse_uuid = (\<lambda>s. case s of [d] \<Rightarrow> Some (of_nat (d - 48)) | _ \<Rightarrow> None),
     e_rfc3339 = (\<lambda>t. decimal (nat t)),
     e_json_body = (\<lambda>r. if rq_body r = [] then Inl \<lparr> rj_status = 400, rj_text = lit ''EOF'' \<rparr>
                       else Inr \<lparr> uq_email = rq_body r, uq_display_name = lit ''Bob'' \<rparr>),
     e_query = (\<lambda>s. Inr (None, None)), e_fresh = 7, e_now = 5000,
     e_addresses = sample_addresses, e_cidrs = [], e_limiter = (\<lambda>_. None), e_ready = True,
     e_metrics_token = Some (lit ''s3cret''), e_fallback_scope = lit ''users:write'', e_metrics = Some (Inr (lit ''up 1'')) \<rparr>"

definition sample_post :: "rstring \<Rightarrow> rstring \<Rightarrow> rstring request" where
  "sample_post auth content = \<lparr> rq_method = POST, rq_path = [lit ''api'', lit ''v1'', lit ''users''],
     rq_headers = [(lit ''authorization'', auth)], rq_query = [], rq_body = content,
     rq_connect_info = Some (lit ''5''), rq_socket_addr = None \<rparr>"

definition sample_app_state :: "(pg, unit, nat key_state) app_state" where
  "sample_app_state = \<lparr> as_db = sample_users, as_cache = (), as_keys = sample_key_state \<rparr>"

lemma sample_verify:
  "e_verifier sample_app_env t sample_key_state =
     (if t = lit ''t'' then (Inr \<lparr> p_subject = lit ''ada'', p_scopes = [lit ''users:read'', lit ''users:write''] \<rparr>, sample_key_state)
      else (Inl InvalidToken, sample_key_state))"
  by (simp add: sample_app_env_def verify_def sample_jose_def sample_claims_def key_eval op_bind_def lift_result_def
        saturating_add_def token_validation_def is_ascii_whitespace_def string_eval)

lemma sample_bearer:
  "bearer_token (rq_headers (sample_post (lit ''Bearer t'') content)) = Some (lit ''t'')"
  "bearer_token (rq_headers (sample_post (lit ''Basic t'') content)) = None"
  by (simp_all add: bearer_token_def header_str_def sample_post_def header_text_ok_def string_eval)

lemma sample_route:
  "route_of (e_metrics_token sample_app_env) (e_fallback_scope sample_app_env) (rq_method (sample_post auth content)) (rq_path (sample_post auth content)) = Inr CreateUser"
  by (simp add: route_of_def sample_post_def users_route_def)

theorem api_is_protected_witness:
  "as_db (snd (serve sample_app_env (sample_post (lit ''Basic t'') (lit ''d@x.org'')) sample_app_state)) = sample_users"
proof -
  let ?r = "sample_post (lit ''Basic t'') (lit ''d@x.org'')"
  have "\<not> may_use sample_app_env ?r (as_keys sample_app_state) (lit ''users:write'')"
    unfolding may_use_def sample_bearer by simp
  moreover have "route_scope CreateUser = Some (lit ''users:write'')" by (simp add: route_scope_def)
  ultimately have "as_db (snd (serve sample_app_env ?r sample_app_state)) = as_db sample_app_state"
    using api_is_protected [OF surjective_pairing, of sample_app_env ?r sample_app_state]
    unfolding sample_route by (simp del: lit_simps)
  then show ?thesis by (simp add: sample_app_state_def)
qed

section \<open>Answers of the API\<close>

lemma authorized_create:
  assumes "route_of (e_metrics_token E) (e_fallback_scope E) (rq_method r) (rq_path r) = Inr CreateUser" and "rq_method r = POST"
    and "may_use E r (as_keys st) (lit ''users:write'')"
    and "e_limiter E (extract_key (e_addresses E) (e_cidrs E) r) = None"
  shows "rs_status (fst (serve E r st)) =
    (case fst (handle_create E r (as_db st, as_cache st)) of Inl e \<Rightarrow> ae_status e | Inr rsp \<Rightarrow> rs_status rsp)"
proof -
  from assms(3) require_scope_iff obtain p ks where
    "require_scope (e_verifier E) (lit ''users:write'') (rq_headers r) (as_keys st) = (Inr p, ks)"
    by (metis is_ok_iff prod.collapse)
  with assms show ?thesis
    by (simp add: serve_def serve_route_def route_scope_def run_handler_def handle_def error_into_response_def
          plain_response_def split: prod.split sum.split del: lit_simps)
qed

text \<open>
  C26. \<open>POST /users\<close> answers as documented.  With a write token, room in the rate limit and a
  reachable database, the status is 422 for an invalid address or name, 409 for an address in use
  and 201 otherwise; an otherwise valid text with U+0000 is answered 503.
\<close>

theorem create_request_answers:
  assumes "ready_to_register (e_unicode E) (e_uuid_text E) (e_max_attempts E) tr (e_fresh E) fj (as_db st)"
    and "e_repository E = pg_user_repository (e_unicode E) now' fj tr"
    and "route_of (e_metrics_token E) (e_fallback_scope E) (rq_method r) (rq_path r) = Inr CreateUser" and "rq_method r = POST"
    and "may_use E r (as_keys st) (lit ''users:write'')"
    and "e_limiter E (extract_key (e_addresses E) (e_cidrs E) r) = None"
    and "e_json_body E r = Inr q"
  shows "rs_status (fst (serve E r st)) =
     (case email_parse (e_unicode E) (uq_email q) of Inl _ \<Rightarrow> 422
      | Inr em \<Rightarrow> (case display_name_parse (uq_display_name q) of Inl _ \<Rightarrow> 422
      | Inr n \<Rightarrow> if 0 \<in> set (email_str em) \<or> 0 \<in> set (name_str n) then 503
                else if email_in_use (as_db st) em then 409 else 201))"
proof -
  obtain res s' where run: "create_user (e_unicode E) (e_repository E) (e_cache E) (e_cache_ttl E) (e_max_attempts E)
      (e_uuid_text E) (e_fresh E) (e_now E) (user_input_from q) (as_db st, as_cache st) = (res, s')" by (metis surj_pair)
  have ui: "ui_email (user_input_from q) = uq_email q" "ui_display_name (user_input_from q) = uq_display_name q"
    by (simp_all add: user_input_from_def)
  from create_user_outcome [OF assms(1), of now' "e_cache E" "e_cache_ttl E" "e_now E" "user_input_from q" "as_cache st"] run
  have res: "res = (case email_parse (e_unicode E) (uq_email q) of Inl e \<Rightarrow> Inl (InvalidInput e)
      | Inr em \<Rightarrow> (case display_name_parse (uq_display_name q) of Inl e \<Rightarrow> Inl (InvalidInput e)
      | Inr n \<Rightarrow>
          if 0 \<in> set (email_str em) \<or> 0 \<in> set (name_str n) then Inl DependencyUnavailable
          else if email_in_use (as_db st) em then Inl EmailAlreadyExists
          else Inr (user_of_row (inserted_user (user_new (e_fresh E) (e_now E) em n)))))"
    unfolding assms(2) ui by (simp only: fst_conv)
  have "fst (handle_create E r (as_db st, as_cache st)) =
      (case res of Inl e \<Rightarrow> Inl (from_application_error e) | Inr u \<Rightarrow> Inr (plain_response 201 (user_envelope E u)))"
    by (simp add: handle_create_def op_bind_def lift_result_def op_map_err_def assms(7) run split: sum.split)
  with authorized_create [OF assms(3-6)] show ?thesis
    by (auto simp: res from_application_error_def without_challenge_def plain_response_def split: sum.split)
qed

lemma sample_ready: "ready_to_register sample_unicode sample_disp 5 JNull 7 9 sample_users"
  using sample_users_ok fresh_row [of 7 sample_users]
  by (simp add: ready_to_register_def validate_max_attempts_def sample_disp_def pg_text_ok_def
        sample_users_def sample_db_def sample_job_def sample_row_def)

theorem create_request_answers_witness:
  "rs_status (fst (serve sample_app_env (sample_post (lit ''Bearer t'') (lit ''d@x.org'')) sample_app_state)) = 201 \<and>
   rs_status (fst (serve sample_app_env (sample_post (lit ''Bearer t'') (lit ''B@x.org'')) sample_app_state)) = 409"
proof -
  have ready: "ready_to_register (e_unicode sample_app_env) (e_uuid_text sample_app_env) (e_max_attempts sample_app_env) JNull
      (e_fresh sample_app_env) 9 (as_db sample_app_state)"
    using sample_ready by (simp add: sample_app_env_def sample_app_state_def)
  have repo: "e_repository sample_app_env = pg_user_repository (e_unicode sample_app_env) 5000 9 JNull"
    by (simp add: sample_app_env_def)
  have use: "may_use sample_app_env (sample_post (lit ''Bearer t'') content) (as_keys sample_app_state) (lit ''users:write'')" for content
    unfolding may_use_def sample_bearer by (simp add: sample_app_state_def sample_verify has_scope_def)
  have lim: "e_limiter sample_app_env ip = None" for ip by (simp add: sample_app_env_def)
  have post: "rq_method (sample_post a content) = POST" for a content by (simp add: sample_post_def)
  have q: "e_json_body sample_app_env (sample_post a (lit ''d@x.org'')) = Inr \<lparr> uq_email = lit ''d@x.org'', uq_display_name = lit ''Bob'' \<rparr>"
    "e_json_body sample_app_env (sample_post a (lit ''B@x.org'')) = Inr \<lparr> uq_email = lit ''B@x.org'', uq_display_name = lit ''Bob'' \<rparr>" for a
    by (simp_all add: sample_app_env_def sample_post_def)
  note ans = create_request_answers [OF ready repo sample_route post use lim]
  show ?thesis
    unfolding ans [OF q(1)] ans [OF q(2)]
    by (simp add: sample_app_env_def sample_app_state_def email_parse_def display_name_parse_def string_eval
          email_in_use_def sample_users_def sample_row_def)
qed

definition sample_delete :: "rstring request" where
  "sample_delete = \<lparr> rq_method = DELETE, rq_path = [lit ''api'', lit ''v1'', lit ''users'', lit ''2''],
     rq_headers = [(lit ''authorization'', lit ''Bearer t'')], rq_query = [], rq_body = [],
     rq_connect_info = Some (lit ''5''), rq_socket_addr = None \<rparr>"

lemma sample_delete_runs:
  "users (as_db (snd (serve sample_app_env sample_delete sample_app_state))) =
     [sample_row 1 (lit ''a@x.org'') 1000, sample_row 3 (lit ''c@x.org'') 2000]"
proof -
  have route: "route_of (e_metrics_token sample_app_env) (e_fallback_scope sample_app_env) (rq_method sample_delete) (rq_path sample_delete) = Inr (DeleteUser (lit ''2''))"
    by (simp add: route_of_def sample_delete_def user_route_def)
  have "bearer_token (rq_headers sample_delete) = Some (lit ''t'')"
    by (simp add: bearer_token_def header_str_def sample_delete_def header_text_ok_def string_eval)
  then have scope: "require_scope (e_verifier sample_app_env) (lit ''users:write'') (rq_headers sample_delete) sample_key_state =
      (Inr \<lparr> p_subject = lit ''ada'', p_scopes = [lit ''users:read'', lit ''users:write''] \<rparr>, sample_key_state)"
    by (simp add: require_scope_def op_bind_def lift_result_def op_map_err_def sample_verify has_scope_def)
  have "users (fst (snd (handle_delete sample_app_env (lit ''2'') (sample_users, ())))) =
      [sample_row 1 (lit ''a@x.org'') 1000, sample_row 3 (lit ''c@x.org'') 2000]"
    by (simp add: handle_delete_def parse_id_def sample_app_env_def user_id_try_from_def service_eval
          noop_user_cache_def noop_delete_def)
  then obtain res d c where h: "handle_delete sample_app_env (lit ''2'') (sample_users, ()) = (res, d, c)"
      "users d = [sample_row 1 (lit ''a@x.org'') 1000, sample_row 3 (lit ''c@x.org'') 2000]"
    by (metis fst_conv snd_conv prod.exhaust)
  have lim: "e_limiter sample_app_env ip = None" for ip by (simp add: sample_app_env_def)
  from route scope h lim show ?thesis
    by (simp add: serve_def serve_route_def route_scope_def run_handler_def handle_def sample_app_state_def
          del: lit_simps)
qed

theorem users_change_only_by_write_token_witness:
  "\<exists>t. bearer_token (rq_headers sample_delete) = Some t \<and> decode_header sample_jose t \<noteq> None"
proof -
  let ?run = "serve sample_app_env sample_delete sample_app_state"
  have pay: "decode_reads_payload sample_jose"
    unfolding decode_reads_payload_def by (rule exI [of _ "\<lambda>_. sample_claims"]) (simp add: sample_jose_def)
  have repo: "e_repository sample_app_env = pg_user_repository sample_unicode 5000 9 JNull"
    by (simp add: sample_app_env_def)
  have ver: "e_verifier sample_app_env = verify sample_jose sample_verifier (Some 1010) (sample_clock 1050) NoResponse"
    by (simp add: sample_app_env_def)
  have run: "?run = (fst ?run, snd ?run)" by simp
  have "users (as_db (snd ?run)) \<noteq> users (as_db sample_app_state)"
    unfolding sample_delete_runs by (simp add: sample_app_state_def sample_users_def sample_row_def)
  from users_change_only_by_write_token [OF pay repo ver run this] show ?thesis by auto
qed

end
