(* ===== verification/Migrations.thy ===== *)
theory Migrations
  imports Prelude "HOL-Library.AList"
begin

text \<open>
  Database migrations: the ledger check behind readiness
  (\<open>src/infrastructure/database/postgres/migrations.rs\<close>, \<open>health_check.rs\<close>) and the migration
  commands (\<open>src/bootstrap/database.rs\<close>): status report, revert, and the creation of a
  migration file pair.

  The migrations compiled into the binary (\<open>sqlx::migrate!\<close>) are a list, the ledger table is
  what the two queries return, and the migration directory is a map from file names to
  contents with scripts of failures, failed clean-up included.  Running and undoing migrations is the work of \<open>sqlx\<close>.
\<close>

section \<open>The ledger\<close>

datatype migration_type = Simple | ReversibleUp | ReversibleDown

record migration =
  mg_version :: int
  mg_description :: rstring
  mg_type :: migration_type
  mg_checksum :: rstring

definition is_up_migration :: "migration \<Rightarrow> bool" where
  "is_up_migration m \<longleftrightarrow> mg_type m = Simple \<or> mg_type m = ReversibleUp"

definition is_down_migration :: "migration \<Rightarrow> bool" where
  "is_down_migration m \<longleftrightarrow> mg_type m = ReversibleDown"

record applied_migration =
  am_version :: int
  am_success :: bool
  am_checksum :: rstring

datatype migration_error =
    LedgerUnreadable
  | InvalidState
  | NotConfirmed
  | NothingToRevert
  | NotReversible int
  | EmptyName | NameTooLong | NameCharacters | NameUnderscores
  | MissingDirectory | UnreadableDirectory | UnreadableEntry | VersionOverflow
  | CreateFailed rstring | WriteFailed rstring

text \<open>The answers of the two queries.\<close>

record ledger =
  lg_table_exists :: "migration_error + bool"
  lg_rows :: "migration_error + applied_migration list"

text \<open>\<open>collect::<HashMap<_, _>>()\<close> keyed by version.\<close>

definition by_version :: "applied_migration list \<Rightarrow> (int \<times> applied_migration) list" where
  "by_version rows = foldl (\<lambda>m r. AList.update (am_version r) r m) [] rows"

definition load_applied_migrations :: "ledger \<Rightarrow> migration_error + (int \<times> applied_migration) list" where
  "load_applied_migrations g =
     and_then (lg_table_exists g) (\<lambda>exists.
     if \<not> exists then Inr []
     else and_then (lg_rows g) (\<lambda>rows. Inr (by_version (sort_key am_version rows))))"

definition migration_state_is_current :: "migration list \<Rightarrow> ledger \<Rightarrow> migration_error + bool" where
  "migration_state_is_current ms g =
     and_then (load_applied_migrations g) (\<lambda>applied.
     Inr (applied \<noteq> [] \<and> list_all (\<lambda>(v, row). am_success row) applied \<and>
          list_all (\<lambda>m. case map_of applied (mg_version m) of
              None \<Rightarrow> False
            | Some row \<Rightarrow> am_success row \<and> am_checksum row = mg_checksum m)
            (filter is_up_migration ms)))"

definition is_ready :: "migration list \<Rightarrow> ledger \<Rightarrow> bool" where
  "is_ready ms g = (case migration_state_is_current ms g of Inr b \<Rightarrow> b | Inl _ \<Rightarrow> False)"

section \<open>Status and revert\<close>

definition migration_status :: "(int \<times> applied_migration) list \<Rightarrow> migration \<Rightarrow> bool \<times> rstring" where
  "migration_status applied m = (case map_of applied (mg_version m) of
     None \<Rightarrow> (False, lit ''pending'')
   | Some row \<Rightarrow>
       if \<not> am_success row then (True, lit ''failed'')
       else if am_checksum row \<noteq> mg_checksum m then (True, lit ''checksum_mismatch'')
       else (False, lit ''applied''))"

text \<open>The printed lines, and whether the command fails.\<close>

definition info_report :: "migration list \<Rightarrow> (int \<times> applied_migration) list \<Rightarrow> rstring list \<times> bool" where
  "info_report ms applied =
     (let known = filter is_up_migration ms;
          missing = sort (filter (\<lambda>v. v \<notin> mg_version ` set known) (map (\<lambda>(v, row). am_version row) applied)) in
      ((lit ''VERSION'' @ [9] @ lit ''STATUS'' @ [9] @ lit ''DESCRIPTION'') #
       map (\<lambda>m. display_i64 (mg_version m) @ [9] @ snd (migration_status applied m) @ [9] @ mg_description m) known @
       map (\<lambda>v. display_i64 v @ [9] @ lit ''missing_from_binary'' @ [9] @ lit ''unknown'') missing,
       list_ex (\<lambda>m. fst (migration_status applied m)) known \<or> missing \<noteq> []))"

definition info :: "migration list \<Rightarrow> ledger \<Rightarrow> migration_error + rstring list" where
  "info ms g =
     and_then (load_applied_migrations g) (\<lambda>applied.
     let (lines, invalid) = info_report ms applied in
     if invalid then Inl InvalidState else Inr lines)"

text \<open>\<open>WHERE success = true ORDER BY version DESC\<close>.\<close>

definition applied_versions :: "applied_migration list \<Rightarrow> int list" where
  "applied_versions rows = rev (sort (map am_version (filter am_success rows)))"

text \<open>The version to revert and the target handed to \<open>Migrator::undo\<close>.\<close>

definition revert :: "migration list \<Rightarrow> bool \<Rightarrow> ledger \<Rightarrow> migration_error + int \<times> int" where
  "revert ms confirmed g =
     (if \<not> confirmed then Inl NotConfirmed
      else
      and_then (lg_table_exists g) (\<lambda>exists.
      if \<not> exists then Inl NothingToRevert
      else
      and_then (lg_rows g) (\<lambda>rows.
      case applied_versions rows of
        [] \<Rightarrow> Inl NothingToRevert
      | latest_version # older \<Rightarrow>
          if \<not> list_ex (\<lambda>m. mg_version m = latest_version \<and> is_down_migration m) ms
          then Inl (NotReversible latest_version)
          else Inr (latest_version, case older of [] \<Rightarrow> 0 | v # _ \<Rightarrow> v))))"

section \<open>Creating a migration\<close>

definition UP_TEMPLATE :: rstring where
  "UP_TEMPLATE = lit ''-- Write schema changes here.'' @ [10]"

definition DOWN_TEMPLATE :: rstring where
  "DOWN_TEMPLATE = lit ''-- Write rollback changes here.'' @ [10]"

definition validate_migration_name :: "rstring \<Rightarrow> migration_error + unit" where
  "validate_migration_name name =
     and_then (ensure (name \<noteq> []) EmptyName) (\<lambda>_.
     and_then (ensure (utf8_len name \<le> 64) NameTooLong) (\<lambda>_.
     and_then (ensure (list_all (\<lambda>c. is_ascii_lower c \<or> is_ascii_digit c \<or> c = 95) name) NameCharacters) (\<lambda>_.
     ensure (hd name \<noteq> 95 \<and> last name \<noteq> 95 \<and> \<not> contains (lit ''__'') name) NameUnderscores)))"

text \<open>A directory entry: an error, a name that is not UTF-8, or a name.\<close>

datatype dir_entry = EntryError | OpaqueName | EntryName rstring

fun next_version_from :: "dir_entry list \<Rightarrow> int \<Rightarrow> migration_error + int" where
  "next_version_from [] next_version = Inr next_version"
| "next_version_from (EntryError # es) next_version = Inl UnreadableEntry"
| "next_version_from (OpaqueName # es) next_version = next_version_from es next_version"
| "next_version_from (EntryName file_name # es) next_version =
     (case split_once 95 file_name of
        None \<Rightarrow> next_version_from es next_version
      | Some (prefix, _) \<Rightarrow>
          (case parse_i64 prefix of
             None \<Rightarrow> next_version_from es next_version
           | Some existing_version \<Rightarrow>
               if next_version \<le> existing_version
               then if existing_version = i64_max then Inl VersionOverflow
                    else next_version_from es (existing_version + 1)
               else next_version_from es next_version))"

text \<open>
  The directory: its files, whether it exists and can be listed, entries that are no plain
  names, and what happens to each file creation (a failed write may have written the beginning of
  the contents) and to each removal (\<open>True\<close> when it works, as it does after the script's end).
\<close>

datatype file_event = FileOk | FileCreateError | FileWriteError nat

record directory =
  d_files :: "(rstring \<times> rstring) list"
  d_exists :: bool
  d_listable :: bool
  d_odd_entries :: "dir_entry list"
  d_script :: "file_event list"
  d_removals :: "bool list"

definition read_dir :: "directory \<Rightarrow> migration_error + dir_entry list" where
  "read_dir d = (if d_listable d then Inr (map (EntryName \<circ> fst) (d_files d) @ d_odd_entries d)
                 else Inl UnreadableDirectory)"

definition next_migration_version :: "directory \<Rightarrow> int \<Rightarrow> migration_error + int" where
  "next_migration_version d version = and_then (read_dir d) (\<lambda>es. next_version_from es version)"

text \<open>\<open>let _ = fs::remove_file(path)\<close>: a failure leaves the file and is ignored.\<close>

definition remove_file :: "rstring \<Rightarrow> directory \<Rightarrow> directory" where
  "remove_file path d =
     (let works = (case d_removals d of [] \<Rightarrow> True | b # _ \<Rightarrow> b);
          d = d\<lparr> d_removals := tl (d_removals d) \<rparr> in
      if works then d\<lparr> d_files := filter (\<lambda>f. fst f \<noteq> path) (d_files d) \<rparr> else d)"

text \<open>\<open>create_new\<close> fails on an existing file; after a failed write the file is to be removed again.\<close>

definition write_new_migration_file :: "rstring \<times> rstring \<Rightarrow> (directory, migration_error, unit) op" where
  "write_new_migration_file f d =
     (let (path, contents) = f;
          event = (case d_script d of [] \<Rightarrow> FileOk | e # _ \<Rightarrow> e);
          d = d\<lparr> d_script := tl (d_script d) \<rparr> in
      if path \<in> fst ` set (d_files d) \<or> event = FileCreateError then (Inl (CreateFailed path), d)
      else
        (case event of
           FileWriteError n \<Rightarrow>
             (Inl (WriteFailed path), remove_file path (d\<lparr> d_files := d_files d @ [(path, take n contents)] \<rparr>))
         | _ \<Rightarrow> (Inr (), d\<lparr> d_files := d_files d @ [(path, contents)] \<rparr>)))"

fun write_new_migration_files_from :: "rstring list \<Rightarrow> (rstring \<times> rstring) list \<Rightarrow> (directory, migration_error, unit) op" where
  "write_new_migration_files_from created [] d = (Inr (), d)"
| "write_new_migration_files_from created (f # fs) d =
     (case write_new_migration_file f d of
        (Inl error, d') \<Rightarrow> (Inl error, fold remove_file created d')
      | (Inr _, d') \<Rightarrow> write_new_migration_files_from (created @ [fst f]) fs d')"

definition write_new_migration_files :: "(rstring \<times> rstring) list \<Rightarrow> (directory, migration_error, unit) op" where
  "write_new_migration_files files = write_new_migration_files_from [] files"

definition migration_files :: "int \<Rightarrow> rstring \<Rightarrow> (rstring \<times> rstring) list" where
  "migration_files next_version name =
     [(display_i64 next_version @ lit ''_'' @ name @ lit ''.up.sql'', UP_TEMPLATE),
      (display_i64 next_version @ lit ''_'' @ name @ lit ''.down.sql'', DOWN_TEMPLATE)]"

definition create_migration_file :: "rstring \<Rightarrow> int \<Rightarrow> (directory, migration_error, rstring list) op" where
  "create_migration_file name version d =
     (case validate_migration_name name of
        Inl e \<Rightarrow> (Inl e, d)
      | Inr _ \<Rightarrow>
          if \<not> d_exists d then (Inl MissingDirectory, d)
          else (case next_migration_version d version of
                  Inl e \<Rightarrow> (Inl e, d)
                | Inr next_version \<Rightarrow>
                    op_bind (write_new_migration_files (migration_files next_version name))
                      (\<lambda>_. lift_result (Inr (map fst (migration_files next_version name)))) d))"

section \<open>Migration names\<close>

lemma nonempty_pieces:
  "(\<forall>w \<in> set (split_on c s). w \<noteq> []) \<longleftrightarrow> s \<noteq> [] \<and> hd s \<noteq> c \<and> last s \<noteq> c \<and> \<not> contains [c, c] s"
proof (induction s rule: induct_list012)
  case (3 x y zs)
  show ?case
  proof (cases "x = c")
    case False
    show ?thesis
    proof (cases "y = c")
      case True
      with False 3 show ?thesis by (cases zs) (auto split: list.splits)
    next
      case y: False
      then obtain w ws where w: "split_on c (y # zs) = w # ws" "w \<noteq> []"
        by (cases "split_on c zs") auto
      with False y 3(2) show ?thesis by auto
    qed
  qed simp
qed auto

definition snake_case :: "rstring \<Rightarrow> bool" where
  "snake_case name \<longleftrightarrow> (\<exists>words. words \<noteq> [] \<and> name = join_with 95 words \<and>
     (\<forall>w \<in> set words. w \<noteq> [] \<and> (\<forall>c \<in> set w. is_ascii_lower c \<or> is_ascii_digit c)))"

lemma snake_case_iff:
  "snake_case name \<longleftrightarrow> name \<noteq> [] \<and> hd name \<noteq> 95 \<and> last name \<noteq> 95 \<and> \<not> contains [95, 95] name \<and>
     (\<forall>c \<in> set name. is_ascii_lower c \<or> is_ascii_digit c \<or> c = 95)"
proof
  assume "snake_case name"
  then obtain ws where ws: "ws \<noteq> []" "name = join_with 95 ws"
    "\<forall>w \<in> set ws. w \<noteq> [] \<and> (\<forall>c \<in> set w. is_ascii_lower c \<or> is_ascii_digit c)" by (auto simp: snake_case_def)
  have "\<not> is_ascii_lower 95" "\<not> is_ascii_digit 95" by (simp_all add: is_ascii_lower_def is_ascii_digit_def)
  with ws(3) have "\<forall>w \<in> set ws. 95 \<notin> set w" by blast
  with ws have split: "split_on 95 name = ws" by (simp add: split_join_with)
  have "set name \<subseteq> insert 95 (\<Union> (set ` set (split_on 95 name)))"
  proof -
    have "set (join_with c xs) \<subseteq> insert c (\<Union> (set ` set xs))" for c and xs :: "rstring list"
      by (induction c xs rule: join_with.induct) auto
    from this [of 95 ws] show ?thesis using ws(2) split by simp
  qed
  with nonempty_pieces [of 95 name] split ws(3)
  show "name \<noteq> [] \<and> hd name \<noteq> 95 \<and> last name \<noteq> 95 \<and> \<not> contains [95, 95] name \<and>
     (\<forall>c \<in> set name. is_ascii_lower c \<or> is_ascii_digit c \<or> c = 95)" by blast
next
  assume r: "name \<noteq> [] \<and> hd name \<noteq> 95 \<and> last name \<noteq> 95 \<and> \<not> contains [95, 95] name \<and>
     (\<forall>c \<in> set name. is_ascii_lower c \<or> is_ascii_digit c \<or> c = 95)"
  have sub: "w \<in> set (split_on 95 name) \<Longrightarrow> set w \<subseteq> set name" for w
  proof -
    have "w \<in> set xs \<Longrightarrow> set w \<subseteq> set (join_with c xs)" for c and xs :: "rstring list"
      by (induction c xs rule: join_with.induct) auto
    from this [of "split_on 95 name" 95] show "w \<in> set (split_on 95 name) \<Longrightarrow> set w \<subseteq> set name"
      by (simp add: join_split_on)
  qed
  show "snake_case name"
    unfolding snake_case_def
  proof (intro exI [of _ "split_on 95 name"] conjI ballI)
    fix w c assume w: "w \<in> set (split_on 95 name)"
    with r nonempty_pieces [of 95 name] show "w \<noteq> []" by blast
    assume "c \<in> set w"
    with w sub r split_on_pieces [OF w] show "is_ascii_lower c \<or> is_ascii_digit c" by blast
  qed (simp_all add: join_split_on)
qed

text \<open>
  Migration names are snake case.  A name is accepted exactly when it has at most 64 characters
  and consists of non-empty words of lowercase ASCII letters and digits joined by single
  underscores.
\<close>

theorem migration_names_are_snake_case:
  "is_ok (validate_migration_name name) \<longleftrightarrow> length name \<le> 64 \<and> snake_case name"
proof -
  have len: "utf8_len name = length name" if "\<forall>c \<in> set name. is_ascii_lower c \<or> is_ascii_digit c \<or> c = 95"
    using that by (intro utf8_len_ascii) (auto simp: is_ascii_lower_def is_ascii_digit_def)
  show ?thesis
    unfolding snake_case_iff validate_migration_name_def
    using len by (auto simp: is_ok_iff result_simps list_all_iff)
qed

section \<open>Versions\<close>

text \<open>The version an entry of the directory stands for.\<close>

definition entry_version :: "dir_entry \<Rightarrow> int option" where
  "entry_version e = (case e of
     EntryName n \<Rightarrow> Option.bind (split_once 95 n) (\<lambda>(prefix, _). parse_i64 prefix)
   | _ \<Rightarrow> None)"

lemma next_version_from_Inr:
  "next_version_from es v = Inr w \<Longrightarrow> v \<le> w \<and> (\<forall>e \<in> set es. \<forall>x. entry_version e = Some x \<longrightarrow> x < w) \<and>
     (w = v \<or> (\<exists>e \<in> set es. entry_version e = Some (w - 1)))"
proof (induction es v rule: next_version_from.induct)
  case (4 n es v)
  show ?case
  proof (cases "entry_version (EntryName n)")
    case None
    with 4 have "next_version_from es v = Inr w"
      by (auto simp: entry_version_def split: option.splits)
    with 4 None show ?thesis
      by (auto simp: entry_version_def split: option.splits)
  next
    case (Some x)
    then obtain p q where pq: "split_once 95 n = Some (p, q)" "parse_i64 p = Some x"
      by (auto simp: entry_version_def bind_eq_Some_conv)
    show ?thesis
    proof (cases "v \<le> x")
      case True
      with 4(5) pq have "next_version_from es (x + 1) = Inr w" "x \<noteq> i64_max" by (auto split: if_splits)
      with 4(3) [OF pq(1) _ pq(2) True] have "x + 1 \<le> w \<and> (\<forall>e \<in> set es. \<forall>x. entry_version e = Some x \<longrightarrow> x < w) \<and>
          (w = x + 1 \<or> (\<exists>e \<in> set es. entry_version e = Some (w - 1)))" by auto
      with True Some show ?thesis by auto
    next
      case False
      with 4(5) pq have "next_version_from es v = Inr w" by simp
      with 4(4) [OF pq(1) _ pq(2) False] have "v \<le> w \<and> (\<forall>e \<in> set es. \<forall>x. entry_version e = Some x \<longrightarrow> x < w) \<and>
          (w = v \<or> (\<exists>e \<in> set es. entry_version e = Some (w - 1)))" by auto
      with False Some show ?thesis by auto
    qed
  qed
qed (auto simp: entry_version_def)

lemma parse_i64_bound: "parse_i64 p = Some x \<Longrightarrow> x \<le> i64_max"
  by (auto simp: parse_i64_def Let_def split: option.splits if_splits prod.splits)

lemma next_version_in_range:
  "next_version_from es v = Inr w \<Longrightarrow> v \<le> i64_max \<Longrightarrow> w \<le> i64_max"
proof (induction es arbitrary: v)
  case (Cons e es)
  note IH = Cons.IH
  show ?case
  proof (cases e)
    case (EntryName n)
    have up: "x \<noteq> i64_max \<Longrightarrow> parse_i64 p = Some x \<Longrightarrow> x + 1 \<le> i64_max" for x p
      using parse_i64_bound [of p x] by simp
    from EntryName Cons.prems(1) consider "next_version_from es v = Inr w"
      | p x where "parse_i64 p = Some x" "x \<noteq> i64_max" "next_version_from es (x + 1) = Inr w"
      by (auto split: option.splits if_splits)
    then show ?thesis
    proof cases
      case 1
      then show ?thesis using IH Cons.prems(2) by blast
    next
      case 2
      then show ?thesis using IH up by blast
    qed
  qed (use Cons in auto)
qed simp

section \<open>Creating files\<close>

text \<open>The files of a list, or beginnings of them.\<close>

definition pieces_of :: "(rstring \<times> rstring) list \<Rightarrow> (rstring \<times> rstring) list \<Rightarrow> bool" where
  "pieces_of fs xs \<longleftrightarrow> (\<forall>x \<in> set xs. \<exists>t n. (fst x, t) \<in> set fs \<and> snd x = take n t)"

lemma remove_file_cases:
  obtains (kept) "d_files (remove_file p d) = d_files d" and "False \<in> set (d_removals d)"
    | (gone) "d_files (remove_file p d) = filter (\<lambda>f. fst f \<noteq> p) (d_files d)"
  by (cases "d_removals d"; cases "hd (d_removals d)") (auto simp: remove_file_def)

lemma removals_left: "set (d_removals (remove_file p d)) \<subseteq> set (d_removals d)"
  by (cases "d_removals d") (auto simp: remove_file_def Let_def)

lemma write_new_file_cases:
  assumes "write_new_migration_file f d = (r, d')"
  obtains (written) "r = Inr ()" and "fst f \<notin> fst ` set (d_files d)" and "d_files d' = d_files d @ [f]"
      and "d_removals d' = d_removals d"
    | (failed) e left where "r = Inl e" and "d_files d' = d_files d @ left" and "pieces_of [f] left"
      and "left \<noteq> [] \<longrightarrow> False \<in> set (d_removals d)" and "fst ` set left \<inter> fst ` set (d_files d) = {}"
      and "set (d_removals d') \<subseteq> set (d_removals d)"
proof (cases "fst f \<in> fst ` set (d_files d)")
  case True
  with assms show thesis
    by (intro failed [of "CreateFailed (fst f)" "[]"])
      (auto simp: write_new_migration_file_def Let_def pieces_of_def split: prod.splits)
next
  case False
  let ?d1 = "d\<lparr> d_script := tl (d_script d) \<rparr>"
  show thesis
  proof (cases "case d_script d of [] \<Rightarrow> FileOk | e # _ \<Rightarrow> e")
    case FileOk
    with assms False show thesis
      by (intro written) (auto simp: write_new_migration_file_def Let_def split: prod.splits)
  next
    case FileCreateError
    with assms show thesis
      by (intro failed [of "CreateFailed (fst f)" "[]"])
        (auto simp: write_new_migration_file_def Let_def pieces_of_def split: prod.splits)
  next
    case (FileWriteError n)
    let ?d2 = "?d1\<lparr> d_files := d_files d @ [(fst f, take n (snd f))] \<rparr>"
    from FileWriteError False assms have r: "r = Inl (WriteFailed (fst f))" "d' = remove_file (fst f) ?d2"
      by (auto simp: write_new_migration_file_def Let_def split: prod.splits)
    have rem: "set (d_removals d') \<subseteq> set (d_removals d)" using removals_left [of "fst f" ?d2] r by simp
    show thesis
    proof (cases rule: remove_file_cases [of "fst f" ?d2])
      case kept
      with r rem False show thesis
        by (intro failed [of "WriteFailed (fst f)" "[(fst f, take n (snd f))]"])
          (auto simp: pieces_of_def intro: exI [of _ "snd f"])
    next
      case gone
      from False have "filter (\<lambda>x. fst x \<noteq> fst f) (d_files d) = d_files d" by (intro filter_True) (metis image_eqI)
      with gone r rem show thesis
        by (intro failed [of "WriteFailed (fst f)" "[]"]) (auto simp: pieces_of_def)
    qed
  qed
qed

lemma fold_remove_files:
  assumes "d_files d = base @ xs" and "fst ` set base \<inter> set ps = {}"
  shows "\<exists>ys. d_files (fold remove_file ps d) = base @ ys \<and> set ys \<subseteq> set xs \<and>
    (False \<notin> set (d_removals d) \<longrightarrow> fst ` set ys \<inter> set ps = {})"
  using assms
proof (induction ps arbitrary: d xs)
  case (Cons p ps)
  have base: "filter (\<lambda>f. fst f \<noteq> p) base = base" using Cons.prems(2) by (auto simp: filter_id_conv)
  obtain zs where zs: "d_files (remove_file p d) = base @ zs" "set zs \<subseteq> set xs"
    "False \<notin> set (d_removals d) \<longrightarrow> p \<notin> fst ` set zs"
  proof (cases rule: remove_file_cases [of p d])
    case kept
    with Cons.prems(1) that show thesis by simp
  next
    case gone
    with Cons.prems(1) base that [of "filter (\<lambda>f. fst f \<noteq> p) xs"] show thesis by auto
  qed
  have "fst ` set base \<inter> set ps = {}" using Cons.prems(2) by auto
  from Cons.IH [OF zs(1) this] obtain ys where ys: "d_files (fold remove_file (p # ps) d) = base @ ys" "set ys \<subseteq> set zs"
    "False \<notin> set (d_removals (remove_file p d)) \<longrightarrow> fst ` set ys \<inter> set ps = {}" by auto
  with zs removals_left [of p d] show ?case by (intro exI [of _ ys]) auto
qed simp

lemma write_files_from:
  assumes "write_new_migration_files_from (map fst added) fs d = (r, d')"
    and "d_files d = base @ added" and "\<forall>f \<in> set added. fst f \<notin> fst ` set base"
  shows "case r of
      Inl e \<Rightarrow> (\<exists>left. d_files d' = base @ left \<and> pieces_of (added @ fs) left \<and>
        (left \<noteq> [] \<longrightarrow> False \<in> set (d_removals d)))
    | Inr _ \<Rightarrow> d_files d' = base @ added @ fs \<and> (\<forall>f \<in> set fs. fst f \<notin> fst ` set base)"
  using assms
proof (induction fs arbitrary: added d)
  case Nil
  then show ?case by auto
next
  case (Cons f fs)
  obtain r1 d1 where run: "write_new_migration_file f d = (r1, d1)" by fastforce
  then show ?case
  proof (cases rule: write_new_file_cases)
    case written
    have next_run: "write_new_migration_files_from (map fst (added @ [f])) fs d1 = (r, d')"
      using Cons.prems(1) run written by simp
    have "d_files d1 = base @ (added @ [f])" using written Cons.prems(2) by simp
    moreover have new: "fst f \<notin> fst ` set base" using written Cons.prems(2) by auto
    then have "\<forall>g \<in> set (added @ [f]). fst g \<notin> fst ` set base" using Cons.prems(3) by auto
    ultimately show ?thesis using Cons.IH [OF next_run] new written(4) by (cases r) auto
  next
    case (failed e left)
    from Cons.prems(1) run failed have r: "r = Inl e" "d' = fold remove_file (map fst added) d1" by simp_all
    have d1: "d_files d1 = base @ added @ left" using failed(2) Cons.prems(2) by simp
    have "fst ` set base \<inter> set (map fst added) = {}" using Cons.prems(3) by force
    from fold_remove_files [OF d1 this] obtain ys where ys: "d_files d' = base @ ys" "set ys \<subseteq> set (added @ left)"
      "False \<notin> set (d_removals d1) \<longrightarrow> fst ` set ys \<inter> set (map fst added) = {}" using r by auto
    have "pieces_of (added @ f # fs) ys"
    proof -
      have "\<exists>t n. (fst x, t) \<in> set (added @ f # fs) \<and> snd x = take n t" if x: "x \<in> set ys" for x
      proof (cases "x \<in> set added")
        case True
        then show ?thesis by (intro exI [of _ "snd x"] exI [of _ "length (snd x)"]) simp
      next
        case False
        with x ys(2) have "x \<in> set left" by auto
        with failed(3) show ?thesis unfolding pieces_of_def by fastforce
      qed
      then show ?thesis unfolding pieces_of_def by blast
    qed
    moreover have "ys = []" if "False \<notin> set (d_removals d)"
    proof -
      from that failed(4,6) have "left = []" "False \<notin> set (d_removals d1)" by auto
      with ys(2,3) show ?thesis by (cases ys) auto
    qed
    ultimately show ?thesis using ys(1) r by auto
  qed
qed

lemma display_i64_no_underscore: "0 \<le> w \<Longrightarrow> 95 \<notin> set (display_i64 w)"
  using decimal_digits [of "nat w"] by (auto simp: display_i64_def list_all_iff is_ascii_digit_def)

lemma migration_file_version:
  assumes "0 \<le> w" and "w \<le> i64_max" and "p \<in> fst ` set (migration_files w name)"
  shows "entry_version (EntryName p) = Some w"
proof -
  from assms(3) obtain rest where p: "p = display_i64 w @ 95 # rest" by (auto simp: migration_files_def)
  have "split_once 95 p = Some (display_i64 w, rest)"
    using display_i64_no_underscore [OF assms(1)] by (simp add: p split_once_Some)
  moreover have "parse_i64 (display_i64 w) = Some w"
    using assms(1,2) by (intro parse_display_i64) (simp_all add: i64_max_def)
  ultimately show ?thesis by (simp add: entry_version_def)
qed

text \<open>
  C30. Creating a migration is all or nothing as long as its clean-up works, and never collides.  On any
  failure the files that were there are untouched and nothing is added, unless a removal failed too:
  then what is left are files of the new pair, perhaps cut short.  On success exactly the up and down templates are added under a version that is at least
  the requested one, greater than every version in the directory, and read back from the two new
  file names as written.
\<close>

theorem migration_creation_atomic:
  assumes "create_migration_file name v d = (r, d')"
  shows "case r of
      Inl e \<Rightarrow> (\<exists>left. d_files d' = d_files d @ left \<and>
        (left \<noteq> [] \<longrightarrow> False \<in> set (d_removals d) \<and>
           (\<exists>w. next_migration_version d v = Inr w \<and> pieces_of (migration_files w name) left)))
    | Inr paths \<Rightarrow> (\<exists>w. v \<le> w \<and> snake_case name \<and> paths = map fst (migration_files w name) \<and>
        d_files d' = d_files d @ migration_files w name \<and>
        (\<forall>f \<in> set (d_files d). \<forall>x. entry_version (EntryName (fst f)) = Some x \<longrightarrow> x < w) \<and>
        (0 \<le> v \<and> v \<le> i64_max \<longrightarrow> (\<forall>p \<in> set paths. entry_version (EntryName p) = Some w)))"
proof (cases "is_ok (validate_migration_name name) \<and> d_exists d \<and> is_ok (next_migration_version d v)")
  case False
  with assms show ?thesis by (auto simp: create_migration_file_def is_ok_iff split: sum.splits if_splits)
next
  case True
  then obtain x w where ok: "validate_migration_name name = Inr x" "d_exists d" "next_migration_version d v = Inr w"
    unfolding is_ok_iff by blast
  from ok(1) have name: "snake_case name"
    unfolding snake_case_iff validate_migration_name_def by (auto simp: result_simps list_all_iff)
  from ok(3) have nv: "next_version_from (map (EntryName \<circ> fst) (d_files d) @ d_odd_entries d) v = Inr w"
    by (auto simp: next_migration_version_def read_dir_def result_simps split: if_splits)
  note w = next_version_from_Inr [OF nv]
  obtain r1 d1 where run: "write_new_migration_files (migration_files w name) d = (r1, d1)" by fastforce
  with assms ok have r: "r = (case r1 of Inl e \<Rightarrow> Inl e | Inr _ \<Rightarrow> Inr (map fst (migration_files w name)))" "d' = d1"
    by (auto simp: create_migration_file_def op_bind_def lift_result_def split: sum.splits)
  from write_files_from [where added = "[]" and base = "d_files d" and d = d and r = r1 and d' = d1] run
  have files: "case r1 of
      Inl e \<Rightarrow> (\<exists>left. d_files d1 = d_files d @ left \<and> pieces_of (migration_files w name) left \<and>
        (left \<noteq> [] \<longrightarrow> False \<in> set (d_removals d)))
    | Inr _ \<Rightarrow> d_files d1 = d_files d @ migration_files w name"
    by (auto simp: write_new_migration_files_def split: sum.splits)
  show ?thesis
  proof (cases r1)
    case (Inl e)
    with r files ok(3) show ?thesis by auto
  next
    case (Inr y)
    have versions: "\<forall>f \<in> set (d_files d). \<forall>x. entry_version (EntryName (fst f)) = Some x \<longrightarrow> x < w"
      using w by auto
    have reread: "\<forall>p \<in> set (map fst (migration_files w name)). entry_version (EntryName p) = Some w"
      if "0 \<le> v" "v \<le> i64_max"
      using that w next_version_in_range [OF nv] migration_file_version by auto
    have "case r of Inl e \<Rightarrow> False | Inr paths \<Rightarrow> paths = map fst (migration_files w name)" by (simp add: r Inr)
    with Inr r files w name versions reread show ?thesis by auto
  qed
qed

definition sample_directory :: directory where
  "sample_directory = \<lparr> d_files = [(lit ''7_a.up.sql'', []), (lit ''readme'', [])], d_exists = True, d_listable = True,
     d_odd_entries = [OpaqueName], d_script = [FileOk, FileWriteError 4], d_removals = [True, False] \<rparr>"

text \<open>The second file cannot be written, and then the first cannot be removed.\<close>

theorem migration_creation_atomic_witness:
  "d_files (snd (create_migration_file (lit ''add_x'') 5 (sample_directory\<lparr> d_removals := [] \<rparr>))) = d_files sample_directory \<and>
   d_files (snd (create_migration_file (lit ''add_x'') 5 sample_directory)) =
     d_files sample_directory @ [(lit ''8_add_x.up.sql'', UP_TEMPLATE)]"
proof -
  let ?d = "sample_directory\<lparr> d_removals := [] \<rparr>" and ?e = "WriteFailed (display_i64 8 @ lit ''_'' @ lit ''add_x'' @ lit ''.down.sql'')"
  have nv: "next_migration_version sample_directory 5 = Inr 8" "next_migration_version ?d 5 = Inr 8"
    by (simp_all add: next_migration_version_def read_dir_def sample_directory_def parse_i64_def parse_digits_def
          digits_value_def strip_plus_def is_ascii_digit_def i64_max_def)
  have ok: "validate_migration_name (lit ''add_x'') = Inr ()"
    by (simp add: validate_migration_name_def ensure_def string_eval)
  note eval = sample_directory_def write_new_migration_files_def write_new_migration_file_def migration_files_def
    op_bind_def display_i64_def decimal.simps remove_file_def
  have "fst (create_migration_file (lit ''add_x'') 5 ?d) = Inl ?e"
    unfolding create_migration_file_def ok nv by (simp add: eval)
  then have run: "create_migration_file (lit ''add_x'') 5 ?d = (Inl ?e, snd (create_migration_file (lit ''add_x'') 5 ?d))"
    by (metis prod.collapse)
  from migration_creation_atomic [OF run] have "d_files (snd (create_migration_file (lit ''add_x'') 5 ?d)) = d_files ?d"
    by auto
  moreover have "d_files (snd (create_migration_file (lit ''add_x'') 5 sample_directory)) =
      d_files sample_directory @ [(lit ''8_add_x.up.sql'', UP_TEMPLATE)]"
    unfolding create_migration_file_def ok nv by (simp add: eval)
  ultimately show ?thesis by simp
qed

section \<open>Revert\<close>

text \<open>
  Revert undoes one migration.  It needs confirmation and a matching down migration, and the
  target it hands to the migrator leaves exactly the latest successful version above it.
\<close>

theorem revert_undoes_one:
  assumes "revert ms confirmed g = Inr (latest, target)" and "lg_rows g = Inr rows"
    and "distinct (map am_version rows)" and "\<forall>r \<in> set rows. 0 < am_version r"
  shows "confirmed \<and> (\<exists>m \<in> set ms. mg_version m = latest \<and> is_down_migration m) \<and>
    filter (\<lambda>v. target < v) (applied_versions rows) = [latest] \<and>
    (\<forall>r \<in> set rows. am_success r \<longrightarrow> am_version r \<le> latest)"
proof -
  from assms(1,2) obtain older where
    c: "confirmed" "list_ex (\<lambda>m. mg_version m = latest \<and> is_down_migration m) ms"
    and av: "applied_versions rows = latest # older" and t: "target = (case older of [] \<Rightarrow> 0 | v # _ \<Rightarrow> v)"
    by (auto simp: revert_def result_simps split: if_splits list.splits)
  let ?vs = "map am_version (filter am_success rows)"
  have "distinct ?vs" using assms(3) by (rule distinct_map_filter)
  then have "distinct (sort ?vs)" by simp
  then have sorted: "sorted_wrt (\<lambda>v u. u < v) (latest # older)"
    unfolding av [symmetric] applied_versions_def sorted_wrt_rev by (simp add: strict_sorted_iff)
  have mem: "set (applied_versions rows) = set ?vs" by (simp add: applied_versions_def)
  then have pos: "\<forall>v \<in> set (latest # older). 0 < v" using assms(4) av by auto
  have "\<forall>v \<in> set older. v \<le> target" using sorted t by (cases older) (auto intro: less_imp_le)
  moreover have "target < latest" using sorted pos t by (cases older) auto
  ultimately have "filter (\<lambda>v. target < v) (latest # older) = [latest]"
    by (auto simp: filter_empty_conv not_less)
  moreover have "\<forall>r \<in> set rows. am_success r \<longrightarrow> am_version r \<le> latest"
  proof (intro ballI impI)
    fix r assume "r \<in> set rows" "am_success r"
    then have "am_version r \<in> set (latest # older)" using mem av by force
    with sorted show "am_version r \<le> latest" by (auto intro: less_imp_le)
  qed
  ultimately show ?thesis using c by (auto simp: av list_ex_iff)
qed

definition sample_migrations :: "migration list" where
  "sample_migrations = [\<lparr> mg_version = 1, mg_description = lit ''a'', mg_type = ReversibleUp, mg_checksum = [1] \<rparr>,
     \<lparr> mg_version = 1, mg_description = lit ''a'', mg_type = ReversibleDown, mg_checksum = [2] \<rparr>,
     \<lparr> mg_version = 2, mg_description = lit ''b'', mg_type = ReversibleUp, mg_checksum = [3] \<rparr>,
     \<lparr> mg_version = 2, mg_description = lit ''b'', mg_type = ReversibleDown, mg_checksum = [4] \<rparr>]"

definition sample_rows :: "applied_migration list" where
  "sample_rows = [\<lparr> am_version = 1, am_success = True, am_checksum = [1] \<rparr>,
     \<lparr> am_version = 2, am_success = True, am_checksum = [3] \<rparr>]"

definition sample_ledger :: ledger where
  "sample_ledger = \<lparr> lg_table_exists = Inr True, lg_rows = Inr sample_rows \<rparr>"

theorem revert_undoes_one_witness:
  "filter (\<lambda>v. 1 < v) (applied_versions sample_rows) = [2]"
proof -
  have r: "revert sample_migrations True sample_ledger = Inr (2, 1)"
    by (simp add: revert_def sample_ledger_def applied_versions_def sample_rows_def sample_migrations_def is_down_migration_def)
  have g: "lg_rows sample_ledger = Inr sample_rows" by (simp add: sample_ledger_def)
  have d: "distinct (map am_version sample_rows)" "\<forall>r \<in> set sample_rows. 0 < am_version r"
    by (simp_all add: sample_rows_def)
  from revert_undoes_one [OF r g d] show ?thesis by blast
qed

section \<open>Readiness\<close>

lemma by_version_distinct:
  assumes "distinct (map am_version rows)"
  shows "by_version rows = map (\<lambda>r. (am_version r, r)) rows"
proof -
  have "distinct (map fst m @ map am_version rows) \<Longrightarrow>
      foldl (\<lambda>m r. AList.update (am_version r) r m) m rows = m @ map (\<lambda>r. (am_version r, r)) rows" for m
  proof (induction rows arbitrary: m)
    case (Cons r rows)
    have "AList.update k v xs = xs @ [(k, v)]" if "k \<notin> fst ` set xs" for k :: int and v :: applied_migration and xs
      using that by (induction xs) auto
    then have "AList.update (am_version r) r m = m @ [(am_version r, r)]" using Cons.prems by auto
    with Cons show ?case by auto
  qed simp
  from this [of "[]"] assms show ?thesis by (simp add: by_version_def)
qed

lemma map_of_by_version:
  assumes "distinct (map am_version rows)"
  shows "map_of (map (\<lambda>r. (am_version r, r)) rows) v = Some r \<longleftrightarrow> r \<in> set rows \<and> am_version r = v"
proof -
  have "distinct (map fst (map (\<lambda>r. (am_version r, r)) rows))" using assms by (simp add: o_def)
  from map_of_eq_Some_iff [OF this] show ?thesis by auto
qed

text \<open>Nothing is asked of recorded versions that the binary does not know.\<close>

lemma ready_iff:
  assumes "lg_rows g = Inr rows" and "distinct (map am_version rows)"
  shows "is_ready ms g \<longleftrightarrow> lg_table_exists g = Inr True \<and> rows \<noteq> [] \<and> (\<forall>r \<in> set rows. am_success r) \<and>
    (\<forall>m \<in> set ms. is_up_migration m \<longrightarrow>
       (\<exists>r \<in> set rows. am_version r = mg_version m \<and> am_checksum r = mg_checksum m))"
proof -
  let ?rows = "sort_key am_version rows"
  have d: "distinct (map am_version ?rows)"
    using assms(2) by (simp add: distinct_map)
  have "by_version ?rows = map (\<lambda>r. (am_version r, r)) ?rows" by (rule by_version_distinct [OF d])
  moreover have "?rows = [] \<longleftrightarrow> rows = []" by (metis set_empty set_sort)
  moreover have "(case map_of (map (\<lambda>r. (am_version r, r)) ?rows) v of None \<Rightarrow> False
      | Some row \<Rightarrow> am_success row \<and> am_checksum row = k) \<longleftrightarrow>
      (\<exists>r \<in> set rows. am_version r = v \<and> am_success r \<and> am_checksum r = k)" for v k
  proof (cases "map_of (map (\<lambda>r. (am_version r, r)) ?rows) v")
    case None
    then have "r \<in> set rows \<Longrightarrow> am_version r \<noteq> v" for r
      using map_of_by_version [OF d, of v r] by auto
    with None show ?thesis by auto
  next
    case (Some a)
    then have "a = r \<longleftrightarrow> r \<in> set rows \<and> am_version r = v" for r
      using map_of_by_version [OF d, of v r] by simp
    then show ?thesis unfolding Some option.case by metis
  qed
  ultimately show ?thesis
    using assms(1)
    by (cases "lg_table_exists g")
      (auto simp: is_ready_def migration_state_is_current_def load_applied_migrations_def list_all_iff)
qed

text \<open>The documented definition of readiness: ledger and binary match exactly.\<close>

definition exactly_matches :: "migration list \<Rightarrow> applied_migration list \<Rightarrow> bool" where
  "exactly_matches ms rows \<longleftrightarrow>
     (let known = filter is_up_migration ms in
      length rows = length known \<and> am_version ` set rows = mg_version ` set known \<and> list_all am_success rows \<and>
      (\<forall>r \<in> set rows. \<forall>m \<in> set known. am_version r = mg_version m \<longrightarrow> am_checksum r = mg_checksum m))"

lemma exact_match_iff:
  assumes "distinct (map am_version rows)" and "distinct (map mg_version (filter is_up_migration ms))"
    and "am_version ` set rows \<subseteq> mg_version ` set (filter is_up_migration ms)"
  shows "exactly_matches ms rows \<longleftrightarrow> (\<forall>r \<in> set rows. am_success r) \<and>
    (\<forall>m \<in> set ms. is_up_migration m \<longrightarrow>
       (\<exists>r \<in> set rows. am_version r = mg_version m \<and> am_checksum r = mg_checksum m))" (is "_ \<longleftrightarrow> ?covers")
proof
  assume "exactly_matches ms rows"
  then have m: "am_version ` set rows = mg_version ` set (filter is_up_migration ms)" "\<forall>r \<in> set rows. am_success r"
    "\<forall>r \<in> set rows. \<forall>m \<in> set (filter is_up_migration ms). am_version r = mg_version m \<longrightarrow> am_checksum r = mg_checksum m"
    unfolding exactly_matches_def Let_def list_all_iff by blast+
  have "\<exists>r \<in> set rows. am_version r = mg_version m \<and> am_checksum r = mg_checksum m" if "m \<in> set ms" "is_up_migration m" for m
  proof -
    from that have k: "m \<in> set (filter is_up_migration ms)" by simp
    then have "mg_version m \<in> am_version ` set rows" unfolding m(1) by (rule imageI)
    then obtain r where "r \<in> set rows" "mg_version m = am_version r" by (rule imageE)
    with m(3) k show ?thesis by metis
  qed
  with m(2) show ?covers by blast
next
  assume c: ?covers
  let ?known = "filter is_up_migration ms"
  have same: "am_version ` set rows = mg_version ` set ?known" using assms(3) c by force
  have "card (am_version ` set rows) = length rows" "card (mg_version ` set ?known) = length ?known"
    using distinct_card [OF assms(1)] distinct_card [OF assms(2)] by simp_all
  with same have "length rows = length ?known" by simp
  moreover have "am_checksum r = mg_checksum m" if "r \<in> set rows" "m \<in> set ?known" "am_version r = mg_version m" for r m
  proof -
    from c that(2) obtain r' where "r' \<in> set rows" "am_version r' = mg_version m" "am_checksum r' = mg_checksum m" by auto
    with that assms(1) show ?thesis by (metis distinct_map inj_onD)
  qed
  ultimately show "exactly_matches ms rows"
    using same c unfolding exactly_matches_def Let_def list_all_iff by blast
qed

text \<open>
  C29. Readiness is an exact match.  For a binary with up migrations of distinct versions and a readable
  ledger that records no version unknown to the binary, the service is ready exactly when the
  ledger table exists and ledger and binary match: as many rows as up migrations, the same
  versions, no failed row, and every checksum the embedded one.
\<close>

theorem ready_iff_ledger_matches_binary:
  assumes "lg_rows g = Inr rows" and "distinct (map am_version rows)"
    and "distinct (map mg_version (filter is_up_migration ms))" and "filter is_up_migration ms \<noteq> []"
    and "am_version ` set rows \<subseteq> mg_version ` set (filter is_up_migration ms)"
  shows "is_ready ms g \<longleftrightarrow> lg_table_exists g = Inr True \<and> exactly_matches ms rows"
proof -
  have "rows \<noteq> []" if "exactly_matches ms rows"
    using that assms(4) by (auto simp: exactly_matches_def Let_def)
  then show ?thesis
    unfolding ready_iff [OF assms(1,2)] exact_match_iff [OF assms(2,3,5), symmetric] conj_assoc [symmetric]
    using exact_match_iff [OF assms(2,3,5)] by blast
qed

text \<open>The ledger of the binary, and the same with a failed and with a missing migration.\<close>

definition failed_rows :: "applied_migration list" where
  "failed_rows = [\<lparr> am_version = 1, am_success = True, am_checksum = [1] \<rparr>,
     \<lparr> am_version = 2, am_success = False, am_checksum = [3] \<rparr>]"

theorem ready_iff_ledger_matches_binary_witness:
  "is_ready sample_migrations sample_ledger \<and> \<not> is_ready sample_migrations (sample_ledger\<lparr> lg_rows := Inr failed_rows \<rparr>) \<and>
   \<not> is_ready sample_migrations (sample_ledger\<lparr> lg_rows := Inr (tl sample_rows) \<rparr>)"
proof -
  have up: "distinct (map mg_version (filter is_up_migration sample_migrations))" "filter is_up_migration sample_migrations \<noteq> []"
    and versions: "mg_version ` set (filter is_up_migration sample_migrations) = {1, 2}"
    by (auto simp: sample_migrations_def is_up_migration_def)
  note ready = ready_iff_ledger_matches_binary [OF _ _ up, unfolded versions]
  have known: "filter is_up_migration sample_migrations =
      [\<lparr> mg_version = 1, mg_description = lit ''a'', mg_type = ReversibleUp, mg_checksum = [1] \<rparr>,
       \<lparr> mg_version = 2, mg_description = lit ''b'', mg_type = ReversibleUp, mg_checksum = [3] \<rparr>]"
    by (simp add: sample_migrations_def is_up_migration_def)
  have t: "lg_table_exists sample_ledger = Inr True" "lg_rows sample_ledger = Inr sample_rows" by (simp_all add: sample_ledger_def)
  have "exactly_matches sample_migrations sample_rows" "\<not> exactly_matches sample_migrations failed_rows"
    "\<not> exactly_matches sample_migrations (tl sample_rows)"
    unfolding exactly_matches_def known by (simp_all add: sample_rows_def failed_rows_def)
  then show ?thesis
    using ready [OF t(2)] ready [of "sample_ledger\<lparr> lg_rows := Inr failed_rows \<rparr>" failed_rows]
      ready [of "sample_ledger\<lparr> lg_rows := Inr (tl sample_rows) \<rparr>" "tl sample_rows"] t
    by (simp add: sample_rows_def failed_rows_def)
qed

end
