(* ===== verification/Bootstrap.thy ===== *)
theory Bootstrap
  imports Worker_Process Http_Api Migrations
begin

text \<open>
  The composition root: the commands of \<open>src/cli.rs\<close>, the choice of the cache and the wiring of
  \<open>src/bootstrap/dependencies.rs\<close>, the start of the HTTP server (\<open>src/bootstrap/http.rs\<close>) and the
  dispatch and the all-in-one mode of \<open>src/bootstrap/mod.rs\<close>.  Whether a connection, a listener or a
  migration succeeds is an input.
\<close>

section \<open>Commands\<close>

datatype database_command = Migrate | Info | Revert bool

datatype command =
    RunHttp | RunWorker | RunAll bool | RunDb database_command | CreateMigration rstring

datatype boot_error =
    BadConfig config_error
  | TooFewConnections
  | DatabaseUnreachable
  | InvalidRedisUrl
  | DiscoveryFailed oidc_error
  | BindFailed
  | ServerFailed
  | MigrationFailed
  | DatabaseCommandFailed migration_error
  | TimeUnreadable

section \<open>The cache\<close>

datatype connection_outcome = Connected | ConnectionRefused | ConnectionTimedOut

datatype cache_adapter = NoOpUserCache | RedisUserCache

definition build_cache :: "(rstring \<Rightarrow> bool) \<Rightarrow> connection_outcome \<Rightarrow> ('addr, 'net) config
    \<Rightarrow> boot_error + cache_adapter" where
  "build_cache client_opens outcome c =
     (case redis_url c of
        None \<Rightarrow> Inr NoOpUserCache
      | Some url \<Rightarrow>
          if \<not> client_opens url then Inl InvalidRedisUrl
          else (case outcome of
            Connected \<Rightarrow> Inr RedisUserCache
          | ConnectionRefused \<Rightarrow> Inr NoOpUserCache
          | ConnectionTimedOut \<Rightarrow> Inr NoOpUserCache))"

text \<open>The \<open>dyn UserCache\<close> behind the choice; the no-op cache leaves the server alone.\<close>

definition on_unit :: "(unit, 'e, 'a) op \<Rightarrow> ('c, 'e, 'a) op" where
  "on_unit m c = (fst (m ()), c)"

definition dyn_cache :: "codec \<Rightarrow> unicode \<Rightarrow> cache_adapter \<Rightarrow> redis user_cache" where
  "dyn_cache K U adapter = (case adapter of
     NoOpUserCache \<Rightarrow> \<lparr> c_get = (\<lambda>i. on_unit (noop_get i)), c_set = (\<lambda>u ttl. on_unit (noop_set u ttl)),
                        c_delete = (\<lambda>i. on_unit (noop_delete i)) \<rparr>
   | RedisUserCache \<Rightarrow> redis_user_cache K U)"

definition dyn_inv :: "codec \<Rightarrow> unicode \<Rightarrow> cache_adapter \<Rightarrow> redis \<Rightarrow> bool" where
  "dyn_inv K U adapter c = (case adapter of NoOpUserCache \<Rightarrow> True | RedisUserCache \<Rightarrow> redis_cinv K U c)"

definition dyn_cached :: "codec \<Rightarrow> unicode \<Rightarrow> cache_adapter \<Rightarrow> redis \<Rightarrow> user_id \<Rightarrow> user option" where
  "dyn_cached K U adapter c i = (case adapter of NoOpUserCache \<Rightarrow> None | RedisUserCache \<Rightarrow> cached_users K U c i)"

lemma noop_contract: "user_cache_contract (dyn_cache K U NoOpUserCache) (dyn_inv K U NoOpUserCache) (dyn_cached K U NoOpUserCache) U"
  by unfold_locales
    (simp_all add: dyn_cache_def dyn_inv_def dyn_cached_def on_unit_def noop_get_def noop_set_def
      noop_delete_def lift_result_def)

lemma redis_contract: "user_cache_contract (dyn_cache K U RedisUserCache) (dyn_inv K U RedisUserCache) (dyn_cached K U RedisUserCache) U"
proof -
  have "dyn_cache K U RedisUserCache = redis_user_cache K U" "dyn_inv K U RedisUserCache = redis_cinv K U"
    "dyn_cached K U RedisUserCache = cached_users K U"
    by (simp_all add: fun_eq_iff dyn_cache_def dyn_inv_def dyn_cached_def)
  then show ?thesis using rediscache.user_cache_contract_axioms by simp
qed

interpretation dyncache: user_cache_contract "dyn_cache K U adapter" "dyn_inv K U adapter" "dyn_cached K U adapter" U
  for K U adapter
  by (cases adapter) (simp_all add: noop_contract redis_contract)

interpretation app: user_service "pg_user_repository U now fresh trace" "pg_users_ok U" stored_users U
    "dyn_cache K U adapter" "dyn_inv K U adapter" "dyn_cached K U adapter" for U now fresh trace K adapter
  by unfold_locales

section \<open>The HTTP server\<close>

text \<open>What \<open>Dependencies\<close> hands to the router: the ports and settings of the use cases, and readiness.\<close>

record dependencies =
  dp_repository :: "pg user_repository"
  dp_cache :: "redis user_cache"
  dp_cache_ttl :: u64
  dp_max_attempts :: u32
  dp_ready :: bool

definition build_dependencies :: "codec \<Rightarrow> unicode \<Rightarrow> pg user_repository \<Rightarrow> bool \<Rightarrow> bool \<Rightarrow> (rstring \<Rightarrow> bool)
    \<Rightarrow> connection_outcome \<Rightarrow> ('addr, 'net) config \<Rightarrow> boot_error + dependencies" where
  "build_dependencies K U postgres connects ready_now client_opens outcome c =
     and_then (ensure connects DatabaseUnreachable) (\<lambda>_.
     and_then (build_cache client_opens outcome c) (\<lambda>adapter.
     Inr \<lparr> dp_repository = postgres, dp_cache = dyn_cache K U adapter,
           dp_cache_ttl = user_cache_ttl_seconds c, dp_max_attempts = job_max_attempts c,
           dp_ready = ready_now \<rparr>))"

record 'net router_config =
  rc_request_timeout_seconds :: u64
  rc_max_request_body_bytes :: u64
  rc_rate_limit_requests_per_minute :: u32
  rc_rate_limit_burst :: u32
  rc_trusted_proxy_cidrs :: "'net list"
  rc_metrics_token :: "rstring option"

type_synonym ('k, 'net, 'ip) server = "(pg, redis, 'k key_state, 'net, 'ip) app_env"

text \<open>
  \<open>base\<close> holds what each request brings or a library computes; \<open>limiter\<close> is the token bucket for
  a rate and a burst.
\<close>

definition build_router :: "('k, 'net, 'ip) server \<Rightarrow> (u32 \<Rightarrow> u32 \<Rightarrow> 'ip \<Rightarrow> governor_error option)
    \<Rightarrow> dependencies \<Rightarrow> 'k key_state token_verifier \<Rightarrow> 'net router_config \<Rightarrow> ('k, 'net, 'ip) server" where
  "build_router base limiter deps verifier rc =
     base\<lparr> e_repository := dp_repository deps, e_cache := dp_cache deps, e_cache_ttl := dp_cache_ttl deps,
           e_max_attempts := dp_max_attempts deps, e_ready := dp_ready deps, e_verifier := verifier,
           e_cidrs := rc_trusted_proxy_cidrs rc, e_metrics_token := rc_metrics_token rc,
           e_limiter := limiter (rc_rate_limit_requests_per_minute rc) (rc_rate_limit_burst rc) \<rparr>"

definition router_config_from :: "('addr, 'net) config \<Rightarrow> telemetry_config \<Rightarrow> 'net router_config" where
  "router_config_from c tele =
     \<lparr> rc_request_timeout_seconds = request_timeout_seconds c,
       rc_max_request_body_bytes = max_request_body_bytes c,
       rc_rate_limit_requests_per_minute = rate_limit_requests_per_minute c,
       rc_rate_limit_burst = rate_limit_burst c,
       rc_trusted_proxy_cidrs = trusted_proxy_cidrs c,
       rc_metrics_token = prometheus_bearer_token tele \<rparr>"

record ('m, 'k) http_world =
  hw_jose :: "('m, 'k) jose"
  hw_web :: "rstring \<Rightarrow> response"
  hw_started :: instant
  hw_postgres_connects :: bool
  hw_is_ready :: bool
  hw_client_opens :: "rstring \<Rightarrow> bool"
  hw_redis :: connection_outcome
  hw_binds :: bool

text \<open>
  \<open>http::run\<close> up to \<open>axum::serve\<close>: the router with the verifier's first state.  The verifier of a
  request is given its clock readings and the provider's answer.
\<close>

definition http_run :: "('m, 'k) http_world \<Rightarrow> codec \<Rightarrow> unicode \<Rightarrow> pg user_repository
    \<Rightarrow> (u32 \<Rightarrow> u32 \<Rightarrow> 'ip \<Rightarrow> governor_error option) \<Rightarrow> u64 option \<Rightarrow> key_clock \<Rightarrow> response
    \<Rightarrow> ('k, 'net, 'ip) server \<Rightarrow> ('addr, 'net) config \<Rightarrow> oidc_config \<Rightarrow> telemetry_config
    \<Rightarrow> boot_error + ('k, 'net, 'ip) server \<times> 'k key_state" where
  "http_run W K U postgres limiter now clock answer base c oidc tele =
     and_then (map_err DiscoveryFailed (discover (hw_jose W) (hw_web W) (hw_started W) oidc)) (\<lambda>(V, keys).
     and_then (build_dependencies K U postgres (hw_postgres_connects W) (hw_is_ready W) (hw_client_opens W) (hw_redis W) c) (\<lambda>deps.
     let server = build_router base limiter deps (verify (hw_jose W) V now clock answer) (router_config_from c tele) in
     and_then (ensure (hw_binds W) BindFailed) (\<lambda>_. Inr (server, keys))))"

section \<open>One process for both\<close>

definition split_all_mode_connections :: "u32 \<Rightarrow> boot_error + u32 \<times> u32" where
  "split_all_mode_connections n = and_then (ensure (2 \<le> n) TooFewConnections) (\<lambda>_. Inr (n - 1, 1))"

fun result_and :: "'e + 'a \<Rightarrow> 'e + 'b \<Rightarrow> 'e + 'b" where
  "result_and (Inl e) y = Inl e"
| "result_and (Inr a) y = y"

datatype boot_event =
    MigrationsRun | HttpStarted u32 | WorkerStarted u32 | HttpEnded | WorkerEnded | ShutdownSent

text \<open>
  \<open>http\<close> and \<open>worker\<close> are the results of the two parts on their configurations, \<open>http_first\<close> says
  which of them ends first; the other is awaited after the shutdown was sent.
\<close>

definition run_all :: "('addr, 'net) address_parsers \<Rightarrow> env \<Rightarrow> boot_error + unit
    \<Rightarrow> (('addr, 'net) config \<Rightarrow> oidc_config \<Rightarrow> boot_error + unit) \<Rightarrow> (('addr, 'net) config \<Rightarrow> boot_error + unit)
    \<Rightarrow> bool \<Rightarrow> bool \<Rightarrow> (boot_error + unit) \<times> boot_event list" where
  "run_all P E migrate http worker http_first run_migrations =
     (case config_from_env P E of
        Inl e \<Rightarrow> (Inl (BadConfig e), [])
      | Inr c \<Rightarrow>
     (case split_all_mode_connections (database_max_connections c) of
        Inl e \<Rightarrow> (Inl e, [])
      | Inr (http_connections, worker_connections) \<Rightarrow>
     let migrated = (if run_migrations then [MigrationsRun] else []) in
     (case (if run_migrations then migrate else Inr ()) of
        Inl e \<Rightarrow> (Inl e, migrated)
      | Inr _ \<Rightarrow>
     (case oidc_from_env E of
        Inl e \<Rightarrow> (Inl (BadConfig e), migrated)
      | Inr oidc \<Rightarrow>
          let h = http (c\<lparr> database_max_connections := http_connections \<rparr>) oidc;
              w = worker (c\<lparr> database_max_connections := worker_connections \<rparr>);
              started = migrated @ [HttpStarted http_connections, WorkerStarted worker_connections]
          in if http_first then (result_and h w, started @ [HttpEnded, ShutdownSent, WorkerEnded])
             else (result_and w h, started @ [WorkerEnded, ShutdownSent, HttpEnded])))))"

definition run_http :: "('addr, 'net) address_parsers \<Rightarrow> env
    \<Rightarrow> (('addr, 'net) config \<Rightarrow> oidc_config \<Rightarrow> boot_error + unit) \<Rightarrow> boot_error + unit" where
  "run_http P E http =
     and_then (map_err BadConfig (config_from_env P E)) (\<lambda>c.
     and_then (map_err BadConfig (oidc_from_env E)) (\<lambda>oidc. http c oidc))"

definition run_worker :: "('addr, 'net) address_parsers \<Rightarrow> env
    \<Rightarrow> (('addr, 'net) config \<Rightarrow> boot_error + unit) \<Rightarrow> boot_error + unit" where
  "run_worker P E worker = and_then (map_err BadConfig (config_from_env P E)) worker"

text \<open>
  \<open>run\<close>: the telemetry settings first, then the command.  \<open>http\<close> and \<open>worker\<close> are the results of the
  long-running parts, \<open>db\<close> and \<open>create\<close> those of the database commands;
  \<open>TelemetryGuard::shutdown\<close> runs on success and failure alike and has no result.
\<close>

definition bootstrap_run :: "('addr, 'net) address_parsers \<Rightarrow> env \<Rightarrow> (telemetry_config \<Rightarrow> boot_error + unit)
    \<Rightarrow> (telemetry_config \<Rightarrow> ('addr, 'net) config \<Rightarrow> oidc_config \<Rightarrow> boot_error + unit)
    \<Rightarrow> (('addr, 'net) config \<Rightarrow> boot_error + unit) \<Rightarrow> bool \<Rightarrow> (database_command \<Rightarrow> boot_error + unit)
    \<Rightarrow> (rstring \<Rightarrow> boot_error + unit) \<Rightarrow> command \<Rightarrow> boot_error + unit" where
  "bootstrap_run P E init http worker http_first db create cmd =
     and_then (map_err BadConfig (telemetry_from_env E)) (\<lambda>tele.
     and_then (init tele) (\<lambda>_. case cmd of
       RunHttp \<Rightarrow> run_http P E (http tele)
     | RunWorker \<Rightarrow> run_worker P E worker
     | RunAll run_migrations \<Rightarrow> fst (run_all P E (db Migrate) (http tele) worker http_first run_migrations)
     | RunDb c \<Rightarrow> db c
     | CreateMigration name \<Rightarrow> create name))"

section \<open>Starting up\<close>

text \<open>The cache a server uses by the documents: Redis when configured and reached in time.\<close>

definition cache_in_use :: "('m, 'k) http_world \<Rightarrow> ('addr, 'net) config \<Rightarrow> cache_adapter" where
  "cache_in_use W c = (if redis_url c \<noteq> None \<and> hw_redis W = Connected then RedisUserCache else NoOpUserCache)"

lemma build_cache_choice:
  "build_cache (hw_client_opens W) (hw_redis W) c = Inr adapter \<Longrightarrow> adapter = cache_in_use W c"
  by (auto simp: build_cache_def cache_in_use_def split: option.splits if_splits connection_outcome.splits)

lemma build_cache_fails_iff:
  "is_ok (build_cache opens outcome c) \<longleftrightarrow> (\<forall>url. redis_url c = Some url \<longrightarrow> opens url)"
  by (auto simp: build_cache_def split: option.split connection_outcome.split)

lemma and_then_ok: "is_ok (and_then x f) \<longleftrightarrow> (\<exists>a. x = Inr a \<and> is_ok (f a))"
  by (cases x) simp_all

lemma http_run_ok:
  "is_ok (http_run W K U postgres limiter now clock answer base c oidc tele) \<longleftrightarrow>
     is_ok (discover (hw_jose W) (hw_web W) (hw_started W) oidc) \<and> hw_postgres_connects W \<and>
     is_ok (build_cache (hw_client_opens W) (hw_redis W) c) \<and> hw_binds W"
proof -
  have e: "(\<exists>a. map_err f x = Inr a \<and> P a) \<longleftrightarrow> (\<exists>a. x = Inr a \<and> P a)" for f x P by (cases x) simp_all
  show ?thesis
    by (auto simp: http_run_def build_dependencies_def and_then_ok e Let_def result_simps is_ok_iff split: prod.splits)
qed

text \<open>What a started server is made of.\<close>

lemma http_run_Inr:
  assumes "http_run W K U postgres limiter now clock answer base c oidc tele = Inr (E, keys)"
  obtains V adapter where "discover (hw_jose W) (hw_web W) (hw_started W) oidc = Inr (V, keys)"
    and "build_cache (hw_client_opens W) (hw_redis W) c = Inr adapter"
    and "e_repository E = postgres" and "e_cache E = dyn_cache K U adapter"
    and "e_verifier E = verify (hw_jose W) V now clock answer"
    and "e_max_attempts E = job_max_attempts c" and "e_cidrs E = trusted_proxy_cidrs c"
    and "e_metrics_token E = prometheus_bearer_token tele"
  using assms
  by (force simp: http_run_def build_dependencies_def build_router_def router_config_from_def Let_def
      result_simps)

lemma read_available:
  assumes "pg_users_ok U db" and "faults db = []" and "dyn_inv K U adapter s"
    and "coherent (stored_users db) (dyn_cached K U adapter s)"
  shows "fst (get_user (pg_user_repository U now fj trace) (dyn_cache K U adapter) ttl i (db, s)) =
     (case stored_users db i of None \<Rightarrow> Inl NotFound | Some u \<Rightarrow> Inr u)"
proof -
  let ?run = "get_user (pg_user_repository U now fj trace) (dyn_cache K U adapter) ttl i (db, s)"
  have "fst ?run \<noteq> Inl DependencyUnavailable"
    using find_available [OF assms(1,2), of i]
    by (auto simp: use_case_runs pg_user_repository_def split: prod.split sum.split option.split)
  moreover have "?run = (fst ?run, fst (snd ?run), snd (snd ?run))" by simp
  from app.get_user_sound [OF assms(1,3,4) this] have
    "fst ?run = Inl DependencyUnavailable \<or> fst ?run = (case stored_users db i of None \<Rightarrow> Inl NotFound | Some u \<Rightarrow> Inr u)"
    by blast
  ultimately show ?thesis by blast
qed

text \<open>
  C1. What a started server lets a client change.  From any later state of its key cache: if a request
  changes the user table, it carries a bearer token signed with a key of the provider's key set
  under an algorithm the operator allowed and that is not symmetric; the token's audience is the
  configured one, its issuer the configured one up to trailing slashes; it was not issued in the
  future, lives no longer than the configured maximum, and its scopes include \<open>users:write\<close>.
\<close>

theorem started_server_authorizes_writes:
  assumes "decode_reads_payload (hw_jose W)"
    and "http_run W K U (pg_user_repository U now' fj tr) limiter (Some now) clock answer base c oidc tele = Inr (E, keys)"
    and "serve E r st = (rsp, st')" and "users (as_db st') \<noteq> users (as_db st)"
  shows "\<exists>t alg kid k v cl. bearer_token (rq_headers r) = Some t \<and>
     decode_header (hw_jose W) t = Some (alg, Some kid) \<and> \<not> is_hmac alg \<and>
     Some alg \<in> algorithm_from_str (hw_jose W) ` set (allowed_algorithms oidc) \<and>
     map_of (ks_index (as_keys st')) (alg, kid) = Some k \<and> decode_token (hw_jose W) t k v = Some cl \<and>
     vd_signature v \<and> vd_algorithm v = alg \<and> vd_audience v = [audience oidc] \<and>
     map without_slashes (vd_issuer v) = [without_slashes (issuer_url oidc)] \<and>
     unat (cl_iat cl) \<le> unat now + unat (clock_skew_seconds oidc) \<and>
     unat (cl_exp cl) - unat (cl_iat cl) \<le> unat (max_token_lifetime_seconds oidc) \<and>
     lit ''users:write'' \<in> set (split_ascii_whitespace (cl_scope cl))"
proof -
  obtain V adapter where disc: "discover (hw_jose W) (hw_web W) (hw_started W) oidc = Inr (V, keys)"
    and repo: "e_repository E = pg_user_repository U now' fj tr"
    and ver: "e_verifier E = verify (hw_jose W) V (Some now) clock answer"
    using assms(2) by (rule http_run_Inr)
  from tokens.write_accepted [OF repo ver assms(3,4)] assms(1) obtain t p where
    t: "bearer_token (rq_headers r) = Some t" and v: "accepted_claims (hw_jose W) V now t p (as_keys st')"
    and scope: "has_scope p (lit ''users:write'')" by blast
  from v [unfolded accepted_claims_def] obtain alg kid k cl where
    a: "decode_header (hw_jose W) t = Some (alg, Some kid)" "alg \<in> set (vf_algorithms V)"
      "map_of (ks_index (as_keys st')) (alg, kid) = Some k"
      "decode_token (hw_jose W) t k (token_validation V alg) = Some cl"
    and b: "unat (cl_iat cl) \<le> unat now + unat (vf_clock_skew V)"
      "unat (cl_exp cl) - unat (cl_iat cl) \<le> unat (vf_max_lifetime V)"
      "\<forall>s. has_scope p s \<longleftrightarrow> s \<in> set (split_ascii_whitespace (cl_scope cl))" by blast
  note d = discover_sound [OF disc]
  have V: "vf_audience V = audience oidc" "vf_clock_skew V = clock_skew_seconds oidc"
    "vf_max_lifetime V = max_token_lifetime_seconds oidc"
    using discover_settings [OF disc] by simp_all
  have "vd_signature (token_validation V alg)" "vd_algorithm (token_validation V alg) = alg"
    "vd_audience (token_validation V alg) = [audience oidc]"
    "map without_slashes (vd_issuer (token_validation V alg)) = [without_slashes (issuer_url oidc)]"
    using d by (simp_all add: token_validation_def V)
  moreover have "\<not> is_hmac alg" "Some alg \<in> algorithm_from_str (hw_jose W) ` set (allowed_algorithms oidc)"
    using d a(2) by auto
  moreover have "lit ''users:write'' \<in> set (split_ascii_whitespace (cl_scope cl))" using scope b(3) by blast
  ultimately show ?thesis using t a(1,3,4) b(1,2) unfolding V
    by - (rule exI [of _ t], rule exI [of _ alg], rule exI [of _ kid], rule exI [of _ k],
      rule exI [of _ "token_validation V alg"], rule exI [of _ cl], intro conjI)
qed

text \<open>A server without Redis that starts at 1000 and serves a \<open>DELETE\<close> shortly afterwards.\<close>

definition sample_world :: "(nat, nat) http_world" where
  "sample_world = \<lparr> hw_jose = sample_jose, hw_web = (\<lambda>_. Response 200 None [Chunk [2]]), hw_started = 1000,
     hw_postgres_connects = True, hw_is_ready = True, hw_client_opens = (\<lambda>_. True), hw_redis = ConnectionRefused,
     hw_binds = True \<rparr>"

definition sample_base :: "(nat, rchar, rstring) server" where
  "sample_base = \<lparr>
     e_repository = pg_user_repository sample_unicode 5000 9 JNull, e_cache = redis_user_cache sample_codec sample_unicode,
     e_unicode = sample_unicode, e_cache_ttl = 0, e_max_attempts = 0, e_verifier = (\<lambda>t k. (Inl InvalidToken, k)),
     e_uuid_text = sample_disp, e_parse_uuid = (\<lambda>s. case s of [d] \<Rightarrow> Some (of_nat (d - 48)) | _ \<Rightarrow> None),
     e_rfc3339 = (\<lambda>t. []), e_json_body = (\<lambda>r. Inl \<lparr> rj_status = 400, rj_text = [] \<rparr>),
     e_query = (\<lambda>s. Inr (None, None)), e_fresh = 7, e_now = 5000,
     e_addresses = sample_addresses, e_cidrs = [], e_limiter = (\<lambda>_. None), e_ready = False,
     e_metrics_token = None, e_fallback_scope = lit ''users:write'', e_metrics = None \<rparr>"

definition sample_server_settings :: "(rstring, rchar) config" where
  "sample_server_settings = \<lparr> server_address = [], database_url = [], database_max_connections = 10,
     redis_url = None, redis_connect_timeout_seconds = 3, user_cache_ttl_seconds = 300,
     request_timeout_seconds = 10, max_request_body_bytes = 65536, job_poll_interval_milliseconds = 1000,
     job_lease_timeout_seconds = 300, job_retry_base_seconds = 5, job_retry_max_seconds = 300,
     job_max_attempts = 5, job_worker_id = None, job_completed_retention_seconds = 86400,
     job_dead_retention_seconds = 2592000, job_cleanup_interval_seconds = 3600,
     rate_limit_requests_per_minute = 120, rate_limit_burst = 30, trusted_proxy_cidrs = [] \<rparr>"

abbreviation sample_start :: "boot_error + (nat, rchar, rstring) server \<times> nat key_state" where
  "sample_start \<equiv> http_run sample_world sample_codec sample_unicode (pg_user_repository sample_unicode 5000 9 JNull)
     (\<lambda>rate burst ip. None) (Some 1010) (sample_clock 1050) NoResponse sample_base sample_server_settings
     sample_oidc_config \<lparr> log_filter = [], otlp_endpoint = None, service_name = [], prometheus_bearer_token = None \<rparr>"

definition sample_started :: verifier where
  "sample_started = \<lparr> vf_issuer = lit ''https://issuer/'', vf_audience = lit ''users-api'', vf_algorithms = [RS256],
     vf_jwks_uri = lit ''https://issuer/jwks'', vf_https_only = True, vf_refresh_interval = 60000000000,
     vf_jwks_max_age = 300000000000, vf_clock_skew = 30, vf_max_lifetime = 3600 \<rparr>"

lemma sample_discovers:
  "discover sample_jose (\<lambda>_. Response 200 None [Chunk [2]]) 1000 sample_oidc_config = Inr (sample_started, sample_key_state)"
  by (simp add: discover_def sample_oidc_config_def oidc_validate_def ensure_def parse_algorithms_def
      sample_jose_def is_hmac_def validate_issuer_url_def validate_url_scheme_def parse_url_def
      fetch_json_def client_get_def MAX_METADATA_RESPONSE_BYTES_def string_eval Let_def
      index_keys_def key_is_usable_def sample_jwk_def algorithm_debug_def sample_started_def seconds_def
      sample_key_state_def)

lemma sample_starts:
  "sample_start = Inr (build_router sample_base (\<lambda>rate burst ip. None)
     \<lparr> dp_repository = pg_user_repository sample_unicode 5000 9 JNull,
       dp_cache = dyn_cache sample_codec sample_unicode NoOpUserCache, dp_cache_ttl = 300,
       dp_max_attempts = 5, dp_ready = True \<rparr>
     (verify sample_jose sample_started (Some 1010) (sample_clock 1050) NoResponse)
     (router_config_from sample_server_settings
       \<lparr> log_filter = [], otlp_endpoint = None, service_name = [], prometheus_bearer_token = None \<rparr>), sample_key_state)"
  by (simp add: http_run_def sample_world_def sample_discovers build_dependencies_def build_cache_def
      sample_server_settings_def ensure_def Let_def)

lemma sample_started_verifies:
  "verify sample_jose sample_started (Some 1010) (sample_clock 1050) NoResponse (lit ''t'') sample_key_state =
     (Inr \<lparr> p_subject = lit ''ada'', p_scopes = [lit ''users:read'', lit ''users:write''] \<rparr>, sample_key_state)"
  by (simp add: verify_def sample_jose_def sample_claims_def key_eval op_bind_def lift_result_def
        saturating_add_def token_validation_def is_ascii_whitespace_def string_eval sample_started_def)

abbreviation sample_started_server :: "(nat, rchar, rstring) server" where
  "sample_started_server \<equiv> fst (projr sample_start)"

lemma sample_started_deletes:
  "users (as_db (snd (serve sample_started_server sample_delete
     \<lparr> as_db = sample_users, as_cache = sample_redis, as_keys = sample_key_state \<rparr>))) =
     [sample_row 1 (lit ''a@x.org'') 1000, sample_row 3 (lit ''c@x.org'') 2000]"
proof -
  define E where "E = sample_started_server"
  have f: "e_metrics_token E = None" "e_limiter E = (\<lambda>ip. None)"
    "e_verifier E = verify sample_jose sample_started (Some 1010) (sample_clock 1050) NoResponse"
    "e_repository E = pg_user_repository sample_unicode 5000 9 JNull"
    "e_cache E = dyn_cache sample_codec sample_unicode NoOpUserCache"
    "e_parse_uuid E = (\<lambda>s. case s of [d] \<Rightarrow> Some (of_nat (d - 48)) | _ \<Rightarrow> None)"
    unfolding E_def sample_starts
    by (simp_all add: build_router_def router_config_from_def sample_server_settings_def sample_base_def)
  have route: "route_of (e_metrics_token E) (e_fallback_scope E) (rq_method sample_delete) (rq_path sample_delete) = Inr (DeleteUser (lit ''2''))"
    by (simp add: route_of_def sample_delete_def user_route_def)
  have "bearer_token (rq_headers sample_delete) = Some (lit ''t'')"
    by (simp add: bearer_token_def header_str_def sample_delete_def header_text_ok_def string_eval)
  then have scope: "require_scope (e_verifier E) (lit ''users:write'') (rq_headers sample_delete) sample_key_state =
      (Inr \<lparr> p_subject = lit ''ada'', p_scopes = [lit ''users:read'', lit ''users:write''] \<rparr>, sample_key_state)"
    by (simp add: require_scope_def op_bind_def lift_result_def op_map_err_def f sample_started_verifies has_scope_def
        del: lit_simps)
  have "users (fst (snd (handle_delete E (lit ''2'') (sample_users, sample_redis)))) =
      [sample_row 1 (lit ''a@x.org'') 1000, sample_row 3 (lit ''c@x.org'') 2000]"
    by (simp add: handle_delete_def parse_id_def f user_id_try_from_def service_eval dyn_cache_def on_unit_def noop_delete_def)
  then obtain res d c where h: "handle_delete E (lit ''2'') (sample_users, sample_redis) = (res, d, c)"
      "users d = [sample_row 1 (lit ''a@x.org'') 1000, sample_row 3 (lit ''c@x.org'') 2000]"
    by (metis fst_conv snd_conv prod.exhaust)
  from route scope h f(2) show ?thesis
    unfolding E_def [symmetric]
    by (simp add: serve_def serve_route_def route_scope_def run_handler_def handle_def del: lit_simps)
qed

theorem started_server_authorizes_writes_witness:
  "\<exists>t. bearer_token (rq_headers sample_delete) = Some t \<and> decode_header sample_jose t \<noteq> None"
proof -
  have pay: "decode_reads_payload (hw_jose sample_world)"
    unfolding decode_reads_payload_def by (rule exI [of _ "\<lambda>_. sample_claims"]) (simp add: sample_jose_def sample_world_def)
  have start: "sample_start = Inr (sample_started_server, sample_key_state)" by (simp add: sample_starts)
  let ?st = "\<lparr> as_db = sample_users, as_cache = sample_redis, as_keys = sample_key_state \<rparr>"
  let ?run = "serve sample_started_server sample_delete ?st"
  have run: "?run = (fst ?run, snd ?run)" by simp
  have "users (as_db (snd ?run)) \<noteq> users (as_db ?st)"
    unfolding sample_started_deletes by (simp add: sample_users_def sample_row_def)
  from started_server_authorizes_writes [OF pay start run this] show ?thesis
    by (auto simp: sample_world_def)
qed

section \<open>Redis is optional\<close>

text \<open>
  C24. Redis is optional.  With an unset or well-formed address the server starts exactly when it
  starts without Redis, whatever becomes of the connection; only a malformed address stops it.  The
  started server uses Redis exactly when an address is configured and the connection was made
  in time, and with either cache, whose later commands may all fail, a read over a working database
  answers what the table holds.
\<close>

theorem redis_is_optional:
  assumes "pg_users_ok U db" and "faults db = []" and "dyn_inv K U (cache_in_use W c) s"
    and "coherent (stored_users db) (dyn_cached K U (cache_in_use W c) s)"
  shows "(is_ok (http_run W K U (pg_user_repository U now' fj tr) limiter now clock answer base c oidc tele) \<longleftrightarrow>
       (\<forall>url. redis_url c = Some url \<longrightarrow> hw_client_opens W url) \<and>
       is_ok (http_run (W\<lparr> hw_redis := outcome \<rparr>) K U (pg_user_repository U now' fj tr) limiter now clock answer base
         (c\<lparr> redis_url := None \<rparr>) oidc tele)) \<and>
     (case http_run W K U (pg_user_repository U now' fj tr) limiter now clock answer base c oidc tele of
        Inl _ \<Rightarrow> True
      | Inr (E, keys) \<Rightarrow>
          e_cache E = dyn_cache K U (cache_in_use W c) \<and>
          fst (get_user (e_repository E) (e_cache E) (e_cache_ttl E) i (db, s)) =
            (case stored_users db i of None \<Rightarrow> Inl NotFound | Some u \<Rightarrow> Inr u))"
proof
  show "is_ok (http_run W K U (pg_user_repository U now' fj tr) limiter now clock answer base c oidc tele) \<longleftrightarrow>
       (\<forall>url. redis_url c = Some url \<longrightarrow> hw_client_opens W url) \<and>
       is_ok (http_run (W\<lparr> hw_redis := outcome \<rparr>) K U (pg_user_repository U now' fj tr) limiter now clock answer base
         (c\<lparr> redis_url := None \<rparr>) oidc tele)"
    by (auto simp: http_run_ok build_cache_fails_iff)
  show "case http_run W K U (pg_user_repository U now' fj tr) limiter now clock answer base c oidc tele of
        Inl _ \<Rightarrow> True
      | Inr (E, keys) \<Rightarrow>
          e_cache E = dyn_cache K U (cache_in_use W c) \<and>
          fst (get_user (e_repository E) (e_cache E) (e_cache_ttl E) i (db, s)) =
            (case stored_users db i of None \<Rightarrow> Inl NotFound | Some u \<Rightarrow> Inr u)"
  proof (cases "http_run W K U (pg_user_repository U now' fj tr) limiter now clock answer base c oidc tele")
    case (Inr b)
    obtain E keys where b: "b = (E, keys)" by fastforce
    from Inr [unfolded b] obtain adapter where "build_cache (hw_client_opens W) (hw_redis W) c = Inr adapter"
      and E: "e_repository E = pg_user_repository U now' fj tr" "e_cache E = dyn_cache K U adapter"
      by (rule http_run_Inr)
    with build_cache_choice have "adapter = cache_in_use W c" by blast
    with E Inr b read_available [OF assms] show ?thesis by simp
  qed simp
qed

text \<open>A server whose Redis refuses the connection.\<close>

theorem redis_is_optional_witness:
  "is_ok (http_run sample_world sample_codec sample_unicode (pg_user_repository sample_unicode 5000 9 JNull)
     (\<lambda>rate burst ip. None) (Some 1010) (sample_clock 1050) NoResponse sample_base
     (sample_server_settings\<lparr> redis_url := Some (lit ''redis://x'') \<rparr>)
     sample_oidc_config \<lparr> log_filter = [], otlp_endpoint = None, service_name = [], prometheus_bearer_token = None \<rparr>)"
proof -
  let ?c = "sample_server_settings\<lparr> redis_url := Some (lit ''redis://x'') \<rparr>"
  have none: "cache_in_use sample_world ?c = NoOpUserCache" by (simp add: cache_in_use_def sample_world_def)
  have ok: "dyn_inv sample_codec sample_unicode (cache_in_use sample_world ?c) sample_redis"
    "coherent (stored_users sample_users) (dyn_cached sample_codec sample_unicode (cache_in_use sample_world ?c) sample_redis)"
    unfolding none by (simp_all add: dyn_inv_def coherent_def dyn_cached_def)
  have f: "faults sample_users = []" by (simp add: sample_users_def sample_db_def)
  have same: "sample_world\<lparr> hw_redis := ConnectionRefused \<rparr> = sample_world" "sample_server_settings\<lparr> redis_url := None \<rparr> = sample_server_settings"
    by (simp_all add: sample_world_def sample_server_settings_def)
  have "hw_client_opens sample_world url" for url by (simp add: sample_world_def)
  moreover have "is_ok sample_start" by (simp add: sample_starts)
  ultimately show ?thesis
    using redis_is_optional [OF sample_users_ok f ok, where outcome = ConnectionRefused and now' = 5000 and fj = 9 and tr = JNull
        and limiter = "\<lambda>rate burst ip. None" and now = "Some 1010" and clock = "sample_clock 1050" and answer = NoResponse
        and base = sample_base and oidc = sample_oidc_config
        and tele = "\<lparr> log_filter = [], otlp_endpoint = None, service_name = [], prometheus_bearer_token = None \<rparr>" and i = "UserId 2"]
    by (simp add: same)
qed

section \<open>Connections and the all-in-one mode\<close>

lemma split_connections:
  "split_all_mode_connections n = Inr (h, w) \<longleftrightarrow> 2 \<le> n \<and> h = n - 1 \<and> w = 1"
  by (auto simp: split_all_mode_connections_def result_simps)

lemma split_connections_sum:
  assumes "split_all_mode_connections n = Inr (h, w)"
  shows "0 < h \<and> 0 < w \<and> unat h + unat w = unat n"
proof -
  from assms have "2 \<le> n" "h = n - 1" "w = 1" by (simp_all add: split_connections)
  then show ?thesis by (simp add: word_le_nat_alt word_less_nat_alt unat_sub)
qed

lemma result_and_ok: "is_ok (result_and x y) \<longleftrightarrow> is_ok x \<and> is_ok y"
  by (cases x) (simp_all add: is_ok_iff)

lemma result_and_Inr: "result_and x y = Inr b \<longleftrightarrow> (\<exists>a. x = Inr a) \<and> y = Inr b"
  by (cases x) simp_all

text \<open>
  The all-in-one mode starts both parts or neither.  When something was started, both parts were,
  on connections that add up to the configured pool with at least one each; the settings had been
  loaded and the migrations, if asked for, had succeeded before; the part that ends first sends the
  other the shutdown; and the process succeeds exactly when both parts do.
\<close>

theorem all_mode_starts_both_or_neither:
  assumes "run_all P E migrate http worker http_first m = (r, happened)"
  shows "(HttpStarted h \<in> set happened \<longrightarrow> (\<exists>c oidc w. config_from_env P E = Inr c \<and> oidc_from_env E = Inr oidc \<and>
        WorkerStarted w \<in> set happened \<and> unat h + unat w = unat (database_max_connections c) \<and> 0 < h \<and> 0 < w \<and>
        (m \<longrightarrow> is_ok migrate \<and> hd happened = MigrationsRun) \<and> ShutdownSent \<in> set happened \<and>
        (is_ok r \<longleftrightarrow> is_ok (http (c\<lparr> database_max_connections := h \<rparr>) oidc) \<and>
           is_ok (worker (c\<lparr> database_max_connections := w \<rparr>))))) \<and>
     ((\<forall>n. HttpStarted n \<notin> set happened) \<longrightarrow> (\<forall>n. WorkerStarted n \<notin> set happened) \<and> \<not> is_ok r)"
  using assms
  by (auto simp: run_all_def Let_def result_and_Inr is_ok_iff dest!: split_connections_sum
      split: sum.splits if_splits prod.splits)

end
