(* ===== verification/Telemetry.thy ===== *)
theory Telemetry
  imports Worker_Process Http_Api
begin

text \<open>
  \<open>src/telemetry/mod.rs\<close> and the metrics layer of \<open>src/presentation/http/router.rs\<close>: which exporters
  are installed, the measurements each event records, the span of a request and of a job, and the
  trace context that travels with a job.

  Exporters, instruments and the W3C propagator belong to OpenTelemetry.  An instrument is the
  list of the measurements made with it; whether an exporter can be built, and the propagator's
  \<open>inject\<close> and \<open>extract\<close>, are parameters.
\<close>

section \<open>Exporters\<close>

datatype signal = MetricSignal | SpanSignal | LogSignal

record telemetry_guard =
  tg_filter :: rstring
  tg_tracer_provider :: bool
  tg_logger_provider :: bool
  tg_otlp_metrics :: bool
  tg_prometheus :: bool
  tg_metrics :: bool

definition telemetry_init :: "(rstring \<Rightarrow> bool) \<Rightarrow> (signal \<Rightarrow> bool) \<Rightarrow> telemetry_config \<Rightarrow> signal + telemetry_guard" where
  "telemetry_init filter_parses builds config =
     (let filter_text = (if filter_parses (log_filter config) then log_filter config
                         else lit ''base_skeleton_rust=info,tower_http=info'');
          prometheus_enabled = (prometheus_bearer_token config \<noteq> None);
          otlp = (otlp_endpoint config \<noteq> None) in
      and_then (ensure (otlp \<longrightarrow> builds MetricSignal) MetricSignal) (\<lambda>_.
      and_then (ensure (otlp \<longrightarrow> builds SpanSignal) SpanSignal) (\<lambda>_.
      and_then (ensure (otlp \<longrightarrow> builds LogSignal) LogSignal) (\<lambda>_.
      Inr \<lparr> tg_filter = filter_text, tg_tracer_provider = otlp, tg_logger_provider = otlp,
            tg_otlp_metrics = otlp, tg_prometheus = prometheus_enabled, tg_metrics = prometheus_enabled \<or> otlp \<rparr>))))"

datatype provider = MeterProvider | LoggerProvider | TracerProvider

text \<open>\<open>TelemetryGuard::shutdown\<close>: what is flushed, in order; a failure is only printed.\<close>

definition shutdown_order :: "telemetry_guard \<Rightarrow> provider list" where
  "shutdown_order g =
     MeterProvider # (if tg_logger_provider g then [LoggerProvider] else []) @
     (if tg_tracer_provider g then [TracerProvider] else [])"

text \<open>\<open>exported\<close> is the answer of the exporter, text or an error.\<close>

definition prometheus_text :: "telemetry_guard \<Rightarrow> unit + rstring \<Rightarrow> (unit + rstring) option" where
  "prometheus_text g exported = (if tg_prometheus g then Some exported else None)"

section \<open>Measurements\<close>

datatype instrument =
    HttpRequests | HttpDuration | HttpActive | RateLimitRejections
  | JobOutcomes | JobDuration | CleanupCount | WorkerErrors

datatype attribute = AText rstring | AInt nat

datatype measurement =
    Add instrument int "(rstring \<times> attribute) list"
  | Record instrument duration "(rstring \<times> attribute) list"

text \<open>\<open>METRICS\<close>: unset, or the instruments with their measurements.\<close>

type_synonym metrics = "measurement list option"

definition measure :: "measurement list \<Rightarrow> metrics \<Rightarrow> metrics" where
  "measure ms = map_option (\<lambda>old. old @ ms)"

definition request_attributes :: "rstring \<Rightarrow> rstring \<Rightarrow> (rstring \<times> attribute) list" where
  "request_attributes verb route =
     [(lit ''http.request.method'', AText verb), (lit ''http.route'', AText route)]"

definition response_attributes :: "rstring \<Rightarrow> rstring \<Rightarrow> nat \<Rightarrow> (rstring \<times> attribute) list" where
  "response_attributes verb route status =
     request_attributes verb route @ [(lit ''http.response.status_code'', AInt status)]"

definition http_request_started :: "rstring \<Rightarrow> rstring \<Rightarrow> metrics \<Rightarrow> metrics" where
  "http_request_started verb route = measure [Add HttpActive 1 (request_attributes verb route)]"

definition http_request_finished :: "rstring \<Rightarrow> rstring \<Rightarrow> nat \<Rightarrow> duration \<Rightarrow> metrics \<Rightarrow> metrics" where
  "http_request_finished verb route status elapsed =
     (let attributes = response_attributes verb route status in
      measure [Add HttpActive (-1) (take 2 attributes), Add HttpRequests 1 attributes,
               Record HttpDuration elapsed attributes])"

definition record_rate_limit_rejection :: "rstring \<Rightarrow> rstring \<Rightarrow> nat \<Rightarrow> metrics \<Rightarrow> metrics" where
  "record_rate_limit_rejection verb route status =
     measure [Add RateLimitRejections 1 (response_attributes verb route status)]"

definition record_job_outcome :: "rstring \<Rightarrow> rstring \<Rightarrow> duration \<Rightarrow> metrics \<Rightarrow> metrics" where
  "record_job_outcome job_type outcome elapsed =
     (let attributes = [(lit ''job.type'', AText job_type), (lit ''job.outcome'', AText outcome)] in
      measure [Add JobOutcomes 1 attributes, Record JobDuration elapsed attributes])"

definition record_cleanup_count :: "u64 \<Rightarrow> metrics \<Rightarrow> metrics" where
  "record_cleanup_count count = measure [Add CleanupCount (uint count) []]"

definition record_worker_error :: "rstring \<Rightarrow> metrics \<Rightarrow> metrics" where
  "record_worker_error operation = measure [Add WorkerErrors 1 [(lit ''operation'', AText operation)]]"

definition initialize_metrics :: metrics where
  "initialize_metrics = Some []"

section \<open>Spans\<close>

record 'c propagator =
  pr_inject :: "'c \<Rightarrow> (rstring \<times> rstring) list"
  pr_extract :: "(rstring \<Rightarrow> rstring option) \<Rightarrow> 'c"
  pr_ids :: "'c \<Rightarrow> (rstring \<times> rstring) option"
  pr_child :: "'c \<Rightarrow> 'c"

record 'c span =
  sp_name :: rstring
  sp_fields :: "(rstring \<times> attribute) list"
  sp_parent :: 'c

definition current_trace_context :: "'c propagator \<Rightarrow> 'c \<Rightarrow> json" where
  "current_trace_context P context = JObject (map (\<lambda>(k, v). (k, JString v)) (pr_inject P context))"

definition trace_carrier :: "json \<Rightarrow> (rstring \<times> rstring) list" where
  "trace_carrier value =
     (case value of
        JObject kvs \<Rightarrow> List.map_filter (\<lambda>(k, v). case v of JString s \<Rightarrow> Some (k, s) | _ \<Rightarrow> None) kvs
      | _ \<Rightarrow> [])"

text \<open>
  \<open>record_trace_ids\<close> records the ids of the span itself, and only of a valid span context;
  \<open>pr_child\<close> is the context the library gives to a new span with that parent, its new id included.
\<close>

definition record_trace_ids :: "'c propagator \<Rightarrow> 'c span \<Rightarrow> 'c span" where
  "record_trace_ids P s =
     (case pr_ids P (pr_child P (sp_parent s)) of
        Some (trace, span) \<Rightarrow> s\<lparr> sp_fields := sp_fields s @ [(lit ''trace_id'', AText trace), (lit ''span_id'', AText span)] \<rparr>
      | None \<Rightarrow> s)"

definition job_span :: "'c propagator \<Rightarrow> (uuid \<Rightarrow> rstring) \<Rightarrow> claimed_job \<Rightarrow> 'c span" where
  "job_span P print_uuid job =
     (let parent = pr_extract P (map_of (trace_carrier (cj_trace_context job))) in
      record_trace_ids P
        \<lparr> sp_name = lit ''job.process'',
          sp_fields = [(lit ''otel.kind'', AText (lit ''consumer'')), (lit ''job.id'', AText (print_uuid (cj_id job))),
            (lit ''job.type'', AText (cj_job_type job)), (lit ''job.attempt'', AInt (unat (cj_attempts job)))],
          sp_parent = parent \<rparr>)"

text \<open>\<open>HeaderCarrier\<close>: header values that are not visible ASCII are not seen.\<close>

definition header_carrier_get :: "(rstring \<times> rstring) list \<Rightarrow> rstring \<Rightarrow> rstring option" where
  "header_carrier_get headers key = header_str headers key"

definition header_carrier_keys :: "(rstring \<times> rstring) list \<Rightarrow> rstring list" where
  "header_carrier_keys headers = remdups (map fst headers)"

fun method_text :: "http_method \<Rightarrow> rstring" where
  "method_text GET = lit ''GET''"
| "method_text HEAD = lit ''HEAD''"
| "method_text POST = lit ''POST''"
| "method_text PUT = lit ''PUT''"
| "method_text DELETE = lit ''DELETE''"
| "method_text (OtherMethod m) = m"

text \<open>\<open>MatchedPath\<close>: the pattern of the route whose path matched, whatever the method.\<close>

definition matched_path :: "rstring option \<Rightarrow> rstring list \<Rightarrow> rstring option" where
  "matched_path metrics_token path =
     (if path = [lit ''health''] then Some (lit ''/health'')
      else if path = [lit ''health'', lit ''live''] then Some (lit ''/health/live'')
      else if path = [lit ''health'', lit ''ready''] then Some (lit ''/health/ready'')
      else if path = [lit ''metrics''] then (if metrics_token = None then None else Some (lit ''/metrics''))
      else if path = [lit ''api'', lit ''v1'', lit ''users''] then Some (lit ''/api/v1/users'')
      else if length path = 4 \<and> take 3 path = [lit ''api'', lit ''v1'', lit ''users''] \<and> last path \<noteq> []
      then Some (lit ''/api/v1/users/{id}'')
      else None)"

definition route_label :: "rstring option \<Rightarrow> rstring list \<Rightarrow> rstring" where
  "route_label metrics_token path = (case matched_path metrics_token path of Some p \<Rightarrow> p | None \<Rightarrow> lit ''unmatched'')"

definition http_span :: "'c propagator \<Rightarrow> rstring option \<Rightarrow> 'ip request \<Rightarrow> 'c span" where
  "http_span P metrics_token r =
     (let parent = pr_extract P (header_carrier_get (rq_headers r));
          verb = method_text (rq_method r);
          route = route_label metrics_token (rq_path r) in
      record_trace_ids P
        \<lparr> sp_name = lit ''http.request'',
          sp_fields = [(lit ''otel.name'', AText (verb @ [32] @ route)), (lit ''otel.kind'', AText (lit ''server'')),
            (lit ''http.request.method'', AText verb), (lit ''http.route'', AText route)],
          sp_parent = parent \<rparr>)"

text \<open>The closure of \<open>on_response\<close>; \<open>print_status\<close> prints a status code.\<close>

definition on_response :: "(nat \<Rightarrow> rstring) \<Rightarrow> http_response \<Rightarrow> 'c span \<Rightarrow> 'c span" where
  "on_response print_status rsp s =
     s\<lparr> sp_fields := sp_fields s @ (lit ''http.response.status_code'', AInt (rs_status rsp)) #
       (if 500 \<le> rs_status rsp \<and> rs_status rsp < 600
        then [(lit ''otel.status_code'', AText (lit ''ERROR'')),
              (lit ''otel.status_description'', AText (print_status (rs_status rsp)))]
        else []) \<rparr>"

section \<open>The metrics layer\<close>

text \<open>
  \<open>record_http_metrics\<close> around the rest of the service.  The timeout layer lies outside of it, and a
  connection may close: then the layer's future is dropped where it waits, and nothing after the
  \<open>await\<close> runs.
\<close>

datatype 'a awaited = Ready 'a duration | Dropped

definition finish_request :: "rstring \<Rightarrow> rstring \<Rightarrow> http_response \<Rightarrow> duration \<Rightarrow> metrics \<Rightarrow> metrics" where
  "finish_request verb route response elapsed m =
     (let m' = http_request_finished verb route (rs_status response) elapsed m in
      if rs_rate_limited response then record_rate_limit_rejection verb route (rs_status response) m' else m')"

definition record_http_metrics :: "rstring option \<Rightarrow> 'ip request \<Rightarrow> http_response awaited \<Rightarrow> metrics \<Rightarrow> http_response option \<times> metrics" where
  "record_http_metrics metrics_token r next_run m =
     (let verb = method_text (rq_method r);
          route = route_label metrics_token (rq_path r);
          m1 = http_request_started verb route m
      in case next_run of
        Dropped \<Rightarrow> (None, m1)
      | Ready response elapsed \<Rightarrow> (Some response, finish_request verb route response elapsed m1))"

section \<open>The label of a request is its route\<close>

lemma matched_routes: "matched_path t path \<noteq> None \<Longrightarrow> \<exists>rt. route_of t fs GET path = Inr rt"
  by (auto simp: route_of_def matched_path_def get_only_def users_route_def user_route_def
      simp del: lit_simps split: if_splits option.split)

lemma unmatched_routes: "matched_path t path = None \<Longrightarrow> route_of t fs m path = Inl 404"
  by (auto simp: route_of_def matched_path_def simp del: lit_simps split: if_splits)

lemma unmatched_is_404: "matched_path t path = None \<longleftrightarrow> (\<forall>m. route_of t fs m path = Inl 404)"
  using matched_routes [of t path fs] unmatched_routes [of t path fs] by (metis sum.distinct(1))

section \<open>The gauge of active requests\<close>

text \<open>
  Requests interleave: each arrives, and later is answered or dropped.  The lists of answered and
  dropped requests are kept for the statement.
\<close>

record http_load =
  hl_inflight :: "(nat \<times> rstring \<times> rstring) list"
  hl_answered :: "(rstring \<times> rstring) list"
  hl_dropped :: "(rstring \<times> rstring) list"
  hl_metrics :: metrics

definition without :: "nat \<Rightarrow> (nat \<times> 'a) list \<Rightarrow> (nat \<times> 'a) list" where
  "without i = filter (\<lambda>x. fst x \<noteq> i)"

inductive http_step :: "http_load \<Rightarrow> http_load \<Rightarrow> bool" where
  arrive: "i \<notin> fst ` set (hl_inflight s) \<Longrightarrow>
     http_step s (s\<lparr> hl_inflight := (i, verb, route) # hl_inflight s,
                     hl_metrics := http_request_started verb route (hl_metrics s) \<rparr>)"
| answer: "(i, verb, route) \<in> set (hl_inflight s) \<Longrightarrow>
     http_step s (s\<lparr> hl_inflight := without i (hl_inflight s), hl_answered := (verb, route) # hl_answered s,
                     hl_metrics := finish_request verb route response elapsed (hl_metrics s) \<rparr>)"
| drop: "(i, verb, route) \<in> set (hl_inflight s) \<Longrightarrow>
     http_step s (s\<lparr> hl_inflight := without i (hl_inflight s), hl_dropped := (verb, route) # hl_dropped s \<rparr>)"

definition http_idle :: http_load where
  "http_idle = \<lparr> hl_inflight = [], hl_answered = [], hl_dropped = [], hl_metrics = initialize_metrics \<rparr>"

abbreviation http_reachable :: "http_load \<Rightarrow> bool" where
  "http_reachable \<equiv> http_step\<^sup>*\<^sup>* http_idle"

text \<open>What the gauge and the request counter show for a label.\<close>

fun active_of :: "rstring \<times> rstring \<Rightarrow> measurement \<Rightarrow> int" where
  "active_of k (Add HttpActive n attrs) = (if attrs = request_attributes (fst k) (snd k) then n else 0)"
| "active_of k _ = 0"

fun answered_of :: "rstring \<times> rstring \<Rightarrow> measurement \<Rightarrow> int" where
  "answered_of k (Add HttpRequests n attrs) = (if take 2 attrs = request_attributes (fst k) (snd k) then n else 0)"
| "answered_of k _ = 0"

definition active_requests :: "rstring \<times> rstring \<Rightarrow> metrics \<Rightarrow> int" where
  "active_requests k m = (case m of Some ms \<Rightarrow> sum_list (map (active_of k) ms) | None \<Rightarrow> 0)"

definition counted_requests :: "rstring \<times> rstring \<Rightarrow> metrics \<Rightarrow> int" where
  "counted_requests k m = (case m of Some ms \<Rightarrow> sum_list (map (answered_of k) ms) | None \<Rightarrow> 0)"

lemma request_attributes_eq: "request_attributes v r = request_attributes v' r' \<longleftrightarrow> v = v' \<and> r = r'"
  by (simp add: request_attributes_def)

lemma take_response_attributes: "take 2 (response_attributes v r n) = request_attributes v r"
  by (simp add: response_attributes_def request_attributes_def)

lemma started_counts:
  assumes "m \<noteq> None"
  shows "http_request_started v r m \<noteq> None"
    and "active_requests k (http_request_started v r m) = active_requests k m + (if k = (v, r) then 1 else 0)"
    and "counted_requests k (http_request_started v r m) = counted_requests k m"
  using assms by (auto simp: http_request_started_def measure_def active_requests_def counted_requests_def request_attributes_eq)

lemma finished_counts:
  assumes "m \<noteq> None"
  shows "finish_request v r rsp d m \<noteq> None"
    and "active_requests k (finish_request v r rsp d m) = active_requests k m - (if k = (v, r) then 1 else 0)"
    and "counted_requests k (finish_request v r rsp d m) = counted_requests k m + (if k = (v, r) then 1 else 0)"
  using assms
  by (auto simp: finish_request_def http_request_finished_def record_rate_limit_rejection_def measure_def Let_def
      active_requests_def counted_requests_def request_attributes_eq take_response_attributes)

lemma without_count:
  assumes "distinct (map fst xs)" and "(i, y) \<in> set xs"
  shows "int (count_list (map snd (without i xs)) k) = int (count_list (map snd xs) k) - (if k = y then 1 else 0)"
  using assms
proof (induction xs)
  case (Cons x xs)
  show ?case
  proof (cases "fst x = i")
    case True
    then have "i \<notin> fst ` set xs" "x = (i, y)" using Cons.prems by (auto simp: image_iff)
    then have "without i xs = xs" by (auto simp: without_def intro!: filter_True)
    with \<open>x = (i, y)\<close> show ?thesis by (simp add: without_def)
  qed (use Cons in \<open>auto simp: without_def\<close>)
qed simp

definition load_inv :: "http_load \<Rightarrow> bool" where
  "load_inv s \<longleftrightarrow> hl_metrics s \<noteq> None \<and> distinct (map fst (hl_inflight s)) \<and>
     (\<forall>k. active_requests k (hl_metrics s) =
        int (count_list (map snd (hl_inflight s)) k) + int (count_list (hl_dropped s) k)) \<and>
     (\<forall>k. counted_requests k (hl_metrics s) = int (count_list (hl_answered s) k))"

lemma load_inv_step: "http_step s s' \<Longrightarrow> load_inv s \<Longrightarrow> load_inv s'"
proof (induction rule: http_step.induct)
  case (arrive i s verb route)
  then show ?case by (simp add: load_inv_def started_counts)
next
  case (answer i verb route s response elapsed)
  then show ?case
    by (simp add: load_inv_def finished_counts without_count [OF _ answer(1)] distinct_map_filter without_def [of i, symmetric])
      (simp add: without_def distinct_map_filter)
next
  case (drop i verb route s)
  then show ?case
    by (simp add: load_inv_def without_count [OF _ drop(1)]) (simp add: without_def distinct_map_filter)
qed

lemma load_inv_reachable: "http_reachable s \<Longrightarrow> load_inv s"
  by (induction rule: rtranclp_induct)
    (auto simp: load_inv_step, simp add: load_inv_def http_idle_def initialize_metrics_def active_requests_def counted_requests_def)

text \<open>
  C35. What the HTTP metrics count.  In every interleaving of requests, the request counter of a label
  is the number of answered requests, and the gauge of active requests is the number of requests in
  flight plus the number of requests that were ever dropped (by the timeout or by the client):
  without drops it returns to zero when the server is idle, and each drop raises it for good.
\<close>

theorem active_requests_gauge:
  assumes "http_reachable s"
  shows "active_requests k (hl_metrics s) =
      int (count_list (map snd (hl_inflight s)) k) + int (count_list (hl_dropped s) k) \<and>
    counted_requests k (hl_metrics s) = int (count_list (hl_answered s) k)"
  using load_inv_reachable [OF assms] unfolding load_inv_def by blast

text \<open>One request that timed out: nothing is in flight, and the gauge stays at one.\<close>

theorem active_requests_gauge_witness:
  "\<exists>s. http_reachable s \<and> hl_inflight s = [] \<and> active_requests (lit ''GET'', lit ''/api/v1/users'') (hl_metrics s) = 1"
proof -
  let ?k = "(lit ''GET'', lit ''/api/v1/users'')"
  define s1 where "s1 = http_idle\<lparr> hl_inflight := [(0, ?k)], hl_metrics := http_request_started (fst ?k) (snd ?k) (hl_metrics http_idle) \<rparr>"
  define s2 where "s2 = s1\<lparr> hl_inflight := without 0 (hl_inflight s1), hl_dropped := [?k] \<rparr>"
  have "http_step http_idle s1"
    using http_step.arrive [of 0 http_idle "fst ?k" "snd ?k"] by (simp add: s1_def http_idle_def)
  moreover have "http_step s1 s2"
    using http_step.drop [of 0 "fst ?k" "snd ?k" s1] by (simp add: s2_def s1_def http_idle_def)
  ultimately have r: "http_reachable s2" by (meson rtranclp.simps)
  moreover have e: "hl_inflight s2 = []" "hl_dropped s2 = [?k]" by (simp_all add: s2_def s1_def without_def)
  moreover have "active_requests ?k (hl_metrics s2) = 1" using active_requests_gauge [OF r, of ?k] unfolding e by simp
  ultimately show ?thesis by blast
qed

section \<open>The trace of a registration\<close>

lemma trace_carrier_current: "trace_carrier (current_trace_context P c) = pr_inject P c"
  by (simp add: trace_carrier_def current_trace_context_def List.map_filter_def comp_def case_prod_unfold)

text \<open>
  C36. A job runs in the trace of the request that caused it.  If the propagator can extract what it
  injected, the job stored with a registration is, whoever claims it, decoded into a job whose span
  has the registering request's context as its parent.
\<close>

theorem trace_follows_the_job:
  assumes "\<forall>c. pr_extract P (map_of (pr_inject P c)) = c"
    and "pg_create_with_job U new_id (current_trace_context P ctx) u job db = (r, db')" and "jobs db' \<noteq> jobs db"
  shows "\<exists>row. jobs db' = jobs db @ [row] \<and> jr_id row = new_id \<and>
     (\<exists>j. into_application (take_row w now row) = Inr j \<and> cj_id j = new_id \<and> sp_parent (job_span P print_uuid j) = ctx)"
  using assms(2)
proof (cases rule: pg_create_cases)
  case (committed fs m)
  define nj where "nj = with_trace_context (current_trace_context P ctx)
    (new_job_new new_id (uj_job_type job) (uj_payload job) (uj_max_attempts job))"
  define row where "row = inserted_job nj m (pg_now db)"
  have "0 < m" using validate_max_attempts_range [OF committed(2)] by simp
  then obtain j where j: "into_application (take_row w now row) = Inr j" "cj_id j = new_id"
    "cj_trace_context j = current_trace_context P ctx"
    by (simp add: into_application_def take_row_def row_def inserted_job_def u32_try_from_i32_def nj_def
        with_trace_context_def new_job_new_def)
  have "sp_parent (record_trace_ids P s) = sp_parent s" for s :: "'a span"
    by (simp add: record_trace_ids_def split: option.split)
  then have "sp_parent (job_span P print_uuid j) = ctx"
    using assms(1) by (simp add: job_span_def Let_def j(3) trace_carrier_current)
  moreover have "jobs db' = jobs db @ [row]" using committed(1) by (simp add: row_def nj_def)
  moreover have "jr_id row = new_id" by (simp add: row_def nj_def inserted_job_def with_trace_context_def new_job_new_def)
  ultimately show ?thesis using j by blast
qed (use assms(3) in simp)

definition sample_propagator :: "rstring propagator" where
  "sample_propagator = \<lparr> pr_inject = \<lambda>c. [(lit ''traceparent'', c)],
     pr_extract = \<lambda>f. (case f (lit ''traceparent'') of Some c \<Rightarrow> c | None \<Rightarrow> []), pr_ids = \<lambda>c. None, pr_child = \<lambda>c. c @ lit ''-1'' \<rparr>"

theorem trace_follows_the_job_witness:
  "\<exists>row j. jobs (snd (pg_create_with_job sample_unicode 9 (current_trace_context sample_propagator (lit ''00-7'')) sample_new_user
       sample_creation_job sample_users)) = jobs sample_users @ [row] \<and>
     into_application (take_row (lit ''w'') 6000 row) = Inr j \<and> sp_parent (job_span sample_propagator (\<lambda>_. []) j) = lit ''00-7''"
proof -
  let ?run = "pg_create_with_job sample_unicode 9 (current_trace_context sample_propagator (lit ''00-7'')) sample_new_user
       sample_creation_job sample_users"
  have P: "\<forall>c. pr_extract sample_propagator (map_of (pr_inject sample_propagator c)) = c" by (simp add: sample_propagator_def)
  have "jobs (snd ?run) \<noteq> jobs sample_users"
    by (simp add: pg_create_with_job_def sample_creation_job_def validate_max_attempts_def service_eval
          begin_stmt_def insert_user_stmt_def inserted_user_def sample_new_user_def user_new_def
          insert_job_def inserted_job_def new_job_new_def with_trace_context_def job_checks_def btrim_def
          USER_CREATED_JOB_def commit_stmt_def rolled_back_def string_eval sample_job_def
          current_trace_context_def sample_propagator_def)
  from trace_follows_the_job [OF P prod.collapse [symmetric, of ?run] this, of "lit ''w''" 6000 "\<lambda>_. []"]
  show ?thesis by blast
qed

section \<open>The metrics endpoint\<close>

lemma telemetry_init_Inr:
  "telemetry_init parses builds c = Inr g \<Longrightarrow>
     (tg_prometheus g \<longleftrightarrow> prometheus_bearer_token c \<noteq> None) \<and>
     (tg_metrics g \<longleftrightarrow> prometheus_bearer_token c \<noteq> None \<or> otlp_endpoint c \<noteq> None) \<and>
     (tg_tracer_provider g \<longleftrightarrow> otlp_endpoint c \<noteq> None) \<and> (tg_logger_provider g \<longleftrightarrow> otlp_endpoint c \<noteq> None)"
  by (auto simp: telemetry_init_def result_simps Let_def)

text \<open>
  With a configured token the exporter is installed, so the endpoint answers 200 to the holder of the
  token unless the export fails; without a token there is no such route.
\<close>

theorem metrics_are_served:
  assumes "telemetry_init parses builds c = Inr g" and "e_metrics_token E = prometheus_bearer_token c"
    and "e_metrics E = prometheus_text g exported" and "rq_path r = [lit ''metrics'']" and "rq_method r = GET"
  shows "rs_status (fst (serve E r st)) =
     (case prometheus_bearer_token c of
        None \<Rightarrow> 404
      | Some t \<Rightarrow> if bearer_token (rq_headers r) \<noteq> Some t then 401 else if is_ok exported then 200 else 503)"
  using telemetry_init_Inr [OF assms(1)] assms(2-)
  by (auto simp: serve_def route_of_def get_only_def serve_route_def route_scope_def run_handler_def handle_def lift_result_def
      metrics_endpoint_def prometheus_text_def plain_response_def split: option.split sum.split)

theorem metrics_are_served_witness:
  "rs_status (fst (serve (sample_app_env\<lparr> e_metrics_token := None, e_metrics := None \<rparr>)
     ((sample_post [] [])\<lparr> rq_method := GET, rq_path := [lit ''metrics''] \<rparr>) sample_app_state)) = 404"
proof -
  let ?c = "\<lparr> log_filter = [], otlp_endpoint = None, service_name = [], prometheus_bearer_token = None \<rparr>"
  obtain g where g: "telemetry_init (\<lambda>_. True) (\<lambda>_. True) ?c = Inr g" by (simp add: telemetry_init_def result_simps)
  show ?thesis
    using metrics_are_served [OF g, of "sample_app_env\<lparr> e_metrics_token := None, e_metrics := None \<rparr>" "Inl ()"
        "(sample_post [] [])\<lparr> rq_method := GET, rq_path := [lit ''metrics''] \<rparr>" sample_app_state]
      telemetry_init_Inr [OF g]
    by (simp add: prometheus_text_def)
qed

end
