(* ===== verification/Scaffold_Names.thy ===== *)
theory Scaffold_Names
  imports Prelude
begin

text \<open>
  The names of the project generator: \<open>scaffold/src/name.rs\<close>, and the renamer of
  \<open>scaffold/src/lib.rs\<close>.  The replacement of several patterns at once belongs to the
  \<open>aho-corasick\<close> crate and is a parameter; what its documentation says of leftmost-longest
  matching is the predicate \<open>leftmost_longest_replacer\<close>.
\<close>

section \<open>Project names\<close>

definition MAX_LENGTH :: nat where
  "MAX_LENGTH = 64"

definition RESERVED :: "rstring list" where
  "RESERVED = map lit [
     ''abstract'', ''alloc'', ''as'', ''async'', ''await'', ''become'', ''box'', ''break'', ''const'',
     ''continue'', ''core'', ''crate'', ''do'', ''dyn'', ''else'', ''enum'', ''extern'', ''false'', ''final'',
     ''fn'', ''for'', ''gen'', ''if'', ''impl'', ''in'', ''let'', ''loop'', ''macro'', ''match'', ''mod'', ''move'',
     ''mut'', ''override'', ''priv'', ''proc_macro'', ''pub'', ''ref'', ''return'', ''self'', ''static'', ''std'',
     ''struct'', ''super'', ''test'', ''trait'', ''true'', ''try'', ''type'', ''typeof'', ''unsafe'', ''unsized'',
     ''use'', ''virtual'', ''where'', ''while'', ''yield'']"

datatype project_name = ProjectName (as_str: rstring)

datatype name_error = EmptyName | NameTooLong | BadFirstCharacter | InvalidCharacter rchar | ReservedName rstring

text \<open>\<open>str::replace\<close> of one character by another.\<close>

definition replace_char :: "rchar \<Rightarrow> rchar \<Rightarrow> rstring \<Rightarrow> rstring" where
  "replace_char a b s = map (\<lambda>c. if c = a then b else c) s"

definition snake :: "project_name \<Rightarrow> rstring" where
  "snake n = replace_char 45 95 (as_str n)"

definition kebab :: "project_name \<Rightarrow> rstring" where
  "kebab n = replace_char 95 45 (as_str n)"

definition name_char :: "rchar \<Rightarrow> bool" where
  "name_char c \<longleftrightarrow> is_ascii_lower c \<or> is_ascii_digit c \<or> c = 45 \<or> c = 95"

definition project_name_parse :: "rstring \<Rightarrow> name_error + project_name" where
  "project_name_parse s =
     (case s of
        [] \<Rightarrow> Inl EmptyName
      | first # rest \<Rightarrow>
          if MAX_LENGTH < utf8_len s then Inl NameTooLong
          else if \<not> is_ascii_lower first then Inl BadFirstCharacter
          else (case find (\<lambda>c. \<not> name_char c) rest of
            Some invalid \<Rightarrow> Inl (InvalidCharacter invalid)
          | None \<Rightarrow>
              let name = ProjectName s in
              if snake name \<in> set RESERVED then Inl (ReservedName s) else Inr name))"

section \<open>What a name may be\<close>

lemma ascii_name_char: "name_char c \<Longrightarrow> c < 128"
  by (auto simp: name_char_def is_ascii_lower_def is_ascii_digit_def)

lemma project_name_parse_Inr:
  "project_name_parse s = Inr n \<longleftrightarrow> n = ProjectName s \<and> s \<noteq> [] \<and> utf8_len s \<le> 64 \<and> is_ascii_lower (hd s) \<and>
     list_all name_char (tl s) \<and> snake n \<notin> set RESERVED"
  by (cases s) (auto simp: project_name_parse_def MAX_LENGTH_def Let_def find_None_iff list_all_iff
      find_Some_iff split: option.split)

lemma name_char_separators [simp]: "name_char 45" "name_char 95"
  by (simp_all add: name_char_def)

lemma set_replace_char: "x \<in> set (replace_char a b s) \<longleftrightarrow> x = b \<and> a \<in> set s \<or> x \<in> set s \<and> x \<noteq> a"
  by (auto simp: replace_char_def)

lemma length_forms [simp]: "length (snake n) = length (as_str n)" "length (kebab n) = length (as_str n)"
  by (simp_all add: snake_def kebab_def replace_char_def)

lemma hd_snake: "is_ascii_lower (hd (snake n)) \<longleftrightarrow> is_ascii_lower (hd (as_str n))" if "as_str n \<noteq> []"
  using that by (cases "as_str n") (auto simp: snake_def replace_char_def is_ascii_lower_def)

lemma project_name_chars:
  assumes "project_name_parse s = Inr n"
  shows "as_str n = s" and "list_all name_char s" and "list_all (\<lambda>c. name_char c \<and> c \<noteq> 45) (snake n)"
    and "list_all (\<lambda>c. name_char c \<and> c \<noteq> 95) (kebab n)"
proof -
  have s: "as_str n = s" "s \<noteq> []" "is_ascii_lower (hd s)" "list_all name_char (tl s)"
    using assms by (simp_all add: project_name_parse_Inr)
  then show "as_str n = s" "list_all name_char s"
    by (cases s; simp add: name_char_def)+
  then have "\<forall>c \<in> set (as_str n). name_char c" using s(1) by (simp add: list_all_iff)
  then show "list_all (\<lambda>c. name_char c \<and> c \<noteq> 45) (snake n)" "list_all (\<lambda>c. name_char c \<and> c \<noteq> 95) (kebab n)"
    by (auto simp: snake_def kebab_def list_all_iff set_replace_char)
qed

text \<open>What the other tools accept: a Rust crate name, and a path that stays in its directory.\<close>

definition crate_name :: "rstring \<Rightarrow> bool" where
  "crate_name s \<longleftrightarrow> s \<noteq> [] \<and> is_ascii_lower (hd s) \<and>
     list_all (\<lambda>c. is_ascii_lower c \<or> is_ascii_digit c \<or> c = 95) s \<and> s \<notin> set RESERVED"

definition plain_component :: "rstring \<Rightarrow> bool" where
  "plain_component s \<longleftrightarrow> s \<noteq> [] \<and> list_all (\<lambda>c. c \<noteq> 47 \<and> c \<noteq> 92 \<and> c \<noteq> 46) s"

text \<open>
  C39. Project names are exactly the safe ones.  A name is accepted if and only if it has at most 64
  characters, all of them lower-case letters, digits, \<open>-\<close> and \<open>_\<close>, starting with a letter, and its
  snake form is not reserved; then the snake form is a crate name, the kebab form has no \<open>_\<close>, both
  are as long as the name, and the name is a path component that cannot leave its parent directory.
\<close>

theorem project_name_exact:
  "case project_name_parse s of
     Inr n \<Rightarrow> n = ProjectName s \<and> length s \<le> 64 \<and> list_all name_char s \<and> crate_name (snake n) \<and>
       95 \<notin> set (kebab n) \<and> length (snake n) = length s \<and> length (kebab n) = length s \<and> plain_component (as_str n)
   | Inl e \<Rightarrow> \<not> (length s \<le> 64 \<and> list_all name_char s \<and> crate_name (snake (ProjectName s)))"
proof (cases "project_name_parse s")
  case (Inr n)
  note c = project_name_chars [OF Inr]
  have ascii: "utf8_len s = length s" using c(2) ascii_name_char by (simp add: utf8_len_ascii list_all_iff)
  have n: "n = ProjectName s" "s \<noteq> []" "utf8_len s \<le> 64" "is_ascii_lower (hd s)" "snake n \<notin> set RESERVED"
    using Inr unfolding project_name_parse_Inr by blast+
  have "snake n \<noteq> []" using n(1,2) by (simp add: snake_def replace_char_def)
  moreover have "list_all (\<lambda>c. is_ascii_lower c \<or> is_ascii_digit c \<or> c = 95) (snake n)"
    using c(3) by (auto simp: list_all_iff name_char_def)
  ultimately have "crate_name (snake n)" using n hd_snake [of n] by (simp add: crate_name_def)
  moreover have "plain_component s"
    using n(2) c(2) by (fastforce simp: plain_component_def list_all_iff name_char_def is_ascii_lower_def is_ascii_digit_def)
  moreover have "95 \<notin> set (kebab n)" using c(4) by (auto simp: list_all_iff)
  moreover have "length s \<le> 64" using ascii n(3) by simp
  ultimately show ?thesis using Inr n(1) c(2) by simp
next
  case (Inl e)
  have False if a: "length s \<le> 64" "list_all name_char s" "crate_name (snake (ProjectName s))"
  proof -
    have "utf8_len s = length s" using a(2) ascii_name_char by (simp add: utf8_len_ascii list_all_iff)
    moreover have s: "s \<noteq> []" using a(3) by (auto simp: crate_name_def snake_def replace_char_def)
    moreover have "is_ascii_lower (hd s)" using a(3) hd_snake [of "ProjectName s"] s by (simp add: crate_name_def)
    moreover have "list_all name_char (tl s)" using a(2) by (cases s) simp_all
    ultimately have "project_name_parse s = Inr (ProjectName s)"
      using a by (simp add: project_name_parse_Inr crate_name_def)
    with Inl show False by simp
  qed
  with Inl show ?thesis by auto
qed

section \<open>The renamer\<close>

definition SKELETON_SNAKE :: rstring where
  "SKELETON_SNAKE = lit ''base_skeleton''"

definition SKELETON_KEBAB :: rstring where
  "SKELETON_KEBAB = lit ''base-skeleton''"

definition SKELETON_CRATE :: rstring where
  "SKELETON_CRATE = lit ''base_skeleton_rust''"

definition SKELETON_IMAGE :: rstring where
  "SKELETON_IMAGE = lit ''base-skeleton-rust''"

type_synonym replacer = "rstring list \<Rightarrow> rstring list \<Rightarrow> rstring \<Rightarrow> rstring"

record renamer =
  patterns :: "rstring list"
  replacements :: "rstring list"

definition renamer_new :: "project_name \<Rightarrow> renamer" where
  "renamer_new n =
     \<lparr> patterns = [SKELETON_CRATE, SKELETON_IMAGE, SKELETON_SNAKE, SKELETON_KEBAB],
       replacements = [snake n, kebab n, snake n, kebab n] \<rparr>"

definition renamer_apply :: "replacer \<Rightarrow> renamer \<Rightarrow> rstring \<Rightarrow> rstring" where
  "renamer_apply replace_all r text = replace_all (patterns r) (replacements r) text"

text \<open>
  The documented meaning of a leftmost-longest replacement: going through the text, at each
  position the longest pattern that occurs there is replaced, and the search goes on behind it; a
  character where no pattern starts is kept.
\<close>

definition occurs_at :: "rstring \<Rightarrow> rstring \<Rightarrow> bool" where
  "occurs_at p s \<longleftrightarrow> take (length p) s = p"

fun longest :: "(rstring \<times> rstring) list \<Rightarrow> rstring \<Rightarrow> (rstring \<times> rstring) option" where
  "longest [] s = None"
| "longest ((p, r) # rules) s =
     (if occurs_at p s \<and> p \<noteq> [] then
        (case longest rules s of
           Some (p', r') \<Rightarrow> if length p < length p' then Some (p', r') else Some (p, r)
         | None \<Rightarrow> Some (p, r))
      else longest rules s)"

lemma longest_Some: "longest rules s = Some (p, r) \<Longrightarrow> (p, r) \<in> set rules \<and> occurs_at p s \<and> p \<noteq> []"
  by (induction rules s rule: longest.induct) (auto split: if_splits option.splits)

function rewrite :: "(rstring \<times> rstring) list \<Rightarrow> rstring \<Rightarrow> rstring" where
  "rewrite rules [] = []"
| "rewrite rules (c # s) =
     (case longest rules (c # s) of
        Some (p, r) \<Rightarrow> r @ rewrite rules (drop (length p) (c # s))
      | None \<Rightarrow> c # rewrite rules s)"
  by pat_completeness auto

termination
  by (relation "measure (\<lambda>(rules, s). length s)") (auto dest: longest_Some)

definition leftmost_longest_replacer :: "replacer \<Rightarrow> bool" where
  "leftmost_longest_replacer f \<longleftrightarrow> (\<forall>ps rs s. [] \<notin> set ps \<longrightarrow> length ps = length rs \<longrightarrow> f ps rs s = rewrite (zip ps rs) s)"

section \<open>Renaming word by word\<close>

lemma occurs_at_separator: "c \<notin> set p \<Longrightarrow> occurs_at p (a @ c # b) \<longleftrightarrow> occurs_at p a"
proof -
  assume c: "c \<notin> set p"
  show ?thesis
  proof (cases "length p \<le> length a")
    case False
    then obtain k where k: "length p - length a = Suc k" by (cases "length p - length a") auto
    from False have "occurs_at p a \<Longrightarrow> False" by (auto simp: occurs_at_def)
    moreover have "occurs_at p (a @ c # b) \<Longrightarrow> False"
    proof -
      assume "occurs_at p (a @ c # b)"
      then have "p = a @ c # take k b" using False k by (simp add: occurs_at_def)
      with c show False by (metis in_set_conv_decomp)
    qed
    ultimately show ?thesis by blast
  qed (simp add: occurs_at_def)
qed

lemma longest_separator:
  "\<forall>(p, r) \<in> set rules. c \<notin> set p \<Longrightarrow> longest rules (a @ c # b) = longest rules a"
  by (induction rules a rule: longest.induct) (auto simp: occurs_at_separator)

lemma longest_starts: "\<forall>(p, r) \<in> set rules. c \<notin> set p \<Longrightarrow> longest rules (c # b) = None"
  using longest_separator [of rules c "[]" b] longest_Some [of rules "[]"]
  by (cases "longest rules []") (auto simp: occurs_at_def)

lemma rewrite_separator:
  assumes "\<forall>(p, r) \<in> set rules. c \<notin> set p"
  shows "rewrite rules (a @ c # b) = rewrite rules a @ c # rewrite rules b"
  using assms
proof (induction rules a rule: rewrite.induct)
  case (1 rules)
  then show ?case using longest_starts by simp
next
  case (2 rules d a)
  have same: "longest rules (d # a @ c # b) = longest rules (d # a)"
    using longest_separator [OF 2(3), of "d # a" b] by simp
  show ?case
  proof (cases "longest rules (d # a)")
    case None
    with 2 same show ?thesis by simp
  next
    case (Some pr)
    obtain p r where pr: "pr = (p, r)" by fastforce
    with longest_Some Some have "occurs_at p (d # a)" by blast
    then have "length p \<le> length (d # a)" unfolding occurs_at_def by (metis length_take min.cobounded1)
    then have "drop (length p) ((d # a) @ c # b) = drop (length p) (d # a) @ c # b"
      using drop_append [of "length p" "d # a" "c # b"] by simp
    with 2(2) [OF Some pr [symmetric] 2(3)] same Some pr show ?thesis by simp
  qed
qed

lemma rewrite_absent: "\<forall>(p, r) \<in> set rules. p \<noteq> [] \<longrightarrow> \<not> contains p s \<Longrightarrow> rewrite rules s = s"
proof (induction s)
  case (Cons c s)
  have "longest rules (c # s) = None"
  proof (rule ccontr)
    assume "longest rules (c # s) \<noteq> None"
    then obtain p r where "longest rules (c # s) = Some (p, r)" by auto
    with longest_Some have "(p, r) \<in> set rules" "occurs_at p (c # s)" "p \<noteq> []" by blast+
    with Cons.prems show False by (auto simp: occurs_at_def)
  qed
  moreover have "rewrite rules s = s" using Cons by fastforce
  ultimately show ?case by simp
qed simp

abbreviation rules_of :: "project_name \<Rightarrow> (rstring \<times> rstring) list" where
  "rules_of n \<equiv> [(SKELETON_CRATE, snake n), (SKELETON_IMAGE, kebab n), (SKELETON_SNAKE, snake n), (SKELETON_KEBAB, kebab n)]"

lemmas skeleton_names = SKELETON_CRATE_def SKELETON_IMAGE_def SKELETON_SNAKE_def SKELETON_KEBAB_def

lemma renamer_apply_eq:
  "leftmost_longest_replacer f \<Longrightarrow> renamer_apply f (renamer_new n) s = rewrite (rules_of n) s"
  by (simp add: leftmost_longest_replacer_def renamer_apply_def renamer_new_def skeleton_names)

lemma rewrite_names:
  "rewrite (rules_of n) (SKELETON_CRATE @ s) = snake n @ rewrite (rules_of n) s"
  "rewrite (rules_of n) (SKELETON_IMAGE @ s) = kebab n @ rewrite (rules_of n) s"
  "\<not> occurs_at (lit ''_rust'') s \<Longrightarrow> rewrite (rules_of n) (SKELETON_SNAKE @ s) = snake n @ rewrite (rules_of n) s"
  "\<not> occurs_at (lit ''-rust'') s \<Longrightarrow> rewrite (rules_of n) (SKELETON_KEBAB @ s) = kebab n @ rewrite (rules_of n) s"
  by (simp_all add: skeleton_names occurs_at_def)

lemma no_skeleton_name:
  assumes "\<not> contains SKELETON_SNAKE s" and "\<not> contains SKELETON_KEBAB s"
  shows "rewrite (rules_of n) s = s"
proof (rule rewrite_absent)
  have "contains (p @ q) s \<Longrightarrow> contains p s" for p q
  proof (induction s)
    case (Cons c s)
    have "occurs_at (p @ q) (c # s) \<Longrightarrow> occurs_at p (c # s)"
      unfolding occurs_at_def by (metis append_eq_conv_conj append_take_drop_id append_assoc)
    with Cons show ?case by (auto simp: occurs_at_def)
  qed simp
  from this [of SKELETON_SNAKE "lit ''_rust''"] this [of SKELETON_KEBAB "lit ''-rust''"] assms
  have "\<not> contains SKELETON_CRATE s" "\<not> contains SKELETON_IMAGE s"
    by (auto simp: skeleton_names)
  with assms show "\<forall>(p, r) \<in> set (rules_of n). p \<noteq> [] \<longrightarrow> \<not> contains p s" by auto
qed

text \<open>The characters of the skeleton's names: everything else separates words.\<close>

definition separates :: "rchar \<Rightarrow> bool" where
  "separates c \<longleftrightarrow> \<not> is_ascii_lower c \<and> c \<noteq> 45 \<and> c \<noteq> 95"

lemma separates_names: "separates c \<Longrightarrow> \<forall>(p, r) \<in> set (rules_of n). c \<notin> set p"
  by (auto simp: separates_def skeleton_names is_ascii_lower_def)

text \<open>
  Renaming is a single pass over words.  Text between two separating characters (anything but
  lower-case letters, \<open>-\<close> and \<open>_\<close>) is renamed on its own; a text without a skeleton name is kept;
  each of the four spellings becomes the form of the project name in its own style, whatever
  follows, so \<open>base_skeleton_rust\<close> never leaves a stray \<open>_rust\<close>; and what was put in is not
  searched again.
\<close>

theorem renaming_is_wordwise:
  assumes "leftmost_longest_replacer f"
  shows "(separates c \<longrightarrow> renamer_apply f (renamer_new n) (a @ c # b) =
       renamer_apply f (renamer_new n) a @ c # renamer_apply f (renamer_new n) b) \<and>
     (\<not> contains SKELETON_SNAKE s \<and> \<not> contains SKELETON_KEBAB s \<longrightarrow> renamer_apply f (renamer_new n) s = s) \<and>
     renamer_apply f (renamer_new n) (SKELETON_CRATE @ s) = snake n @ renamer_apply f (renamer_new n) s \<and>
     renamer_apply f (renamer_new n) (SKELETON_IMAGE @ s) = kebab n @ renamer_apply f (renamer_new n) s \<and>
     (\<not> occurs_at (lit ''_rust'') s \<longrightarrow>
       renamer_apply f (renamer_new n) (SKELETON_SNAKE @ s) = snake n @ renamer_apply f (renamer_new n) s) \<and>
     (\<not> occurs_at (lit ''-rust'') s \<longrightarrow>
       renamer_apply f (renamer_new n) (SKELETON_KEBAB @ s) = kebab n @ renamer_apply f (renamer_new n) s)"
  unfolding renamer_apply_eq [OF assms]
  by (intro conjI impI) (simp_all add: rewrite_separator [OF separates_names] no_skeleton_name rewrite_names)

theorem renaming_is_wordwise_witness:
  "renamer_apply (\<lambda>ps rs. rewrite (zip ps rs)) (renamer_new (ProjectName (lit ''base-skeleton-x'')))
     (lit ''base_skeleton_rust base_skeleton_test'') = lit ''base_skeleton_x base_skeleton_x_test''"
proof -
  let ?f = "\<lambda>ps rs. rewrite (zip ps rs)" and ?n = "ProjectName (lit ''base-skeleton-x'')"
  have f: "leftmost_longest_replacer ?f" by (simp add: leftmost_longest_replacer_def)
  have "separates 32" by (simp add: separates_def is_ascii_lower_def)
  note word = renaming_is_wordwise [OF f, where n = ?n]
  let ?r = "renamer_apply ?f (renamer_new ?n)"
  have "?r (SKELETON_CRATE @ 32 # SKELETON_SNAKE @ lit ''_test'') = ?r (SKELETON_CRATE @ []) @ 32 # ?r (SKELETON_SNAKE @ lit ''_test'')"
    using word [THEN conjunct1] \<open>separates 32\<close> unfolding append_Nil2 by (rule mp)
  also have "?r (SKELETON_CRATE @ []) = snake ?n @ ?r []" using word by blast
  also have "?r (SKELETON_SNAKE @ lit ''_test'') = snake ?n @ ?r (lit ''_test'')"
    using word [where s = "lit ''_test''"] by (simp add: occurs_at_def)
  also have "?r [] = []" using word [where s = "[]"] by (simp add: skeleton_names)
  also have "?r (lit ''_test'') = lit ''_test''" using word [where s = "lit ''_test''"] by (simp add: skeleton_names)
  finally show ?thesis by (simp add: skeleton_names snake_def replace_char_def)
qed

end
