(* ===== verification/Scaffold_Lock.thy ===== *)
theory Scaffold_Lock
  imports Scaffold_Names "HOL-Library.List_Lexorder" "HOL-Library.Multiset"
begin

text \<open>
  The lock file of a generated project, \<open>scaffold/src/lockfile.rs\<close>: the renamed root package is moved
  to where Cargo sorts it.  Offsets count characters where the code counts bytes; the slices they
  cut are the same.  Strings are compared by the lexicographic order of their characters, which is
  the order of their UTF-8 bytes.
\<close>

section \<open>String searching\<close>

fun find_str :: "rstring \<Rightarrow> rstring \<Rightarrow> nat option" where
  "find_str p [] = (if p = [] then Some 0 else None)"
| "find_str p (c # s) = (if occurs_at p (c # s) then Some 0 else map_option Suc (find_str p s))"

text \<open>\<open>match_indices\<close>: the offsets of the non-overlapping occurrences, counted from \<open>i\<close>.\<close>

function match_indices :: "rstring \<Rightarrow> nat \<Rightarrow> rstring \<Rightarrow> nat list" where
  "match_indices p i [] = []"
| "match_indices p i (c # s) =
     (if p \<noteq> [] \<and> occurs_at p (c # s) then i # match_indices p (i + length p) (drop (length p) (c # s))
      else match_indices p (Suc i) s)"
  by pat_completeness auto

termination
  by (relation "measure (\<lambda>(p, i, s). length s)") auto

fun position :: "('a \<Rightarrow> bool) \<Rightarrow> 'a list \<Rightarrow> nat option" where
  "position P [] = None"
| "position P (x # xs) = (if P x then Some 0 else map_option Suc (position P xs))"

text \<open>\<open>str::lines\<close>: a carriage return before the line feed goes with it.\<close>

definition strip_cr :: "rstring \<Rightarrow> rstring" where
  "strip_cr s = (if s \<noteq> [] \<and> last s = 13 then butlast s else s)"

definition lines :: "rstring \<Rightarrow> rstring list" where
  "lines s = (let ps = split_on 10 s in map strip_cr (butlast ps) @ (if last ps = [] then [] else [last ps]))"

definition slice :: "nat \<Rightarrow> nat \<Rightarrow> 'a list \<Rightarrow> 'a list" where
  "slice a b xs = take (b - a) (drop a xs)"

fun join_str :: "rstring \<Rightarrow> rstring list \<Rightarrow> rstring" where
  "join_str sep [] = []"
| "join_str sep [b] = b"
| "join_str sep (b # c # bs) = b @ sep @ join_str sep (c # bs)"

text \<open>\<open>Vec::remove\<close> and \<open>Vec::insert\<close> within bounds.\<close>

definition remove_nth :: "nat \<Rightarrow> 'a list \<Rightarrow> 'a list" where
  "remove_nth n xs = take n xs @ drop (Suc n) xs"

definition insert_nth :: "nat \<Rightarrow> 'a \<Rightarrow> 'a list \<Rightarrow> 'a list" where
  "insert_nth n x xs = take n xs @ x # drop n xs"

section \<open>Repositioning the root package\<close>

definition MARKER :: rstring where
  "MARKER = lit ''[[package]]'' @ [10]"

datatype lock_error = NoPackages | NoRootPackage rstring | SizeChanged

definition package_name :: "rstring \<Rightarrow> rstring option" where
  "package_name block =
     (case lines block of
        _ # line # _ \<Rightarrow> Option.bind (strip_prefix (lit ''name = '' @ [34]) line) (strip_suffix [34])
      | _ \<Rightarrow> None)"

definition package_blocks :: "rstring \<Rightarrow> rstring list" where
  "package_blocks packages =
     (let starts = match_indices MARKER 0 packages in
      map (\<lambda>n. trim_end (slice (starts ! n)
             (if Suc n < length starts then starts ! Suc n else length packages) packages)) [0..<length starts])"

definition is_root :: "rstring \<Rightarrow> rstring \<Rightarrow> bool" where
  "is_root root block \<longleftrightarrow> package_name block = Some root \<and> \<not> contains (10 # lit ''source = '') block"

definition comes_after :: "rstring \<Rightarrow> rstring \<Rightarrow> bool" where
  "comes_after root block \<longleftrightarrow> (case package_name block of Some name \<Rightarrow> root < name | None \<Rightarrow> False)"

definition reposition_root_package :: "rstring \<Rightarrow> rstring \<Rightarrow> lock_error + rstring" where
  "reposition_root_package lock root =
     (case find_str MARKER lock of
        None \<Rightarrow> Inl NoPackages
      | Some first \<Rightarrow>
          let header = take first lock;
              packages = drop first lock;
              blocks = package_blocks packages
          in case position (is_root root) blocks of
               None \<Rightarrow> Inl (NoRootPackage root)
             | Some current \<Rightarrow>
                 let root_block = blocks ! current;
                     others = remove_nth current blocks;
                     target = (case position (comes_after root) others of Some n \<Rightarrow> n | None \<Rightarrow> length others);
                     output = header @ join_str [10, 10] (insert_nth target root_block others) @ [10]
                 in if utf8_len output = utf8_len lock then Inr output else Inl SizeChanged)"

section \<open>Cutting a well-formed lock file\<close>

text \<open>A lock file as Cargo writes it: a header, then the packages with a blank line between them.\<close>

definition render_blocks :: "rstring list \<Rightarrow> rstring" where
  "render_blocks bs = join_str [10, 10] bs @ [10]"

definition clean_block :: "rstring \<Rightarrow> bool" where
  "clean_block b \<longleftrightarrow> (let u = drop (length MARKER) b in
     b = MARKER @ u \<and> u \<noteq> [] \<and> \<not> is_whitespace (last u) \<and> \<not> contains MARKER (u @ [10]))"

lemma render_simps:
  "render_blocks [] = [10]"
  "render_blocks [b] = b @ [10]"
  "render_blocks (b # c # bs) = b @ 10 # 10 # render_blocks (c # bs)"
  by (simp_all add: render_blocks_def)

lemma marker_simps: "length MARKER = 12" "MARKER \<noteq> []" "occurs_at MARKER (MARKER @ s)" "\<not> occurs_at MARKER (10 # s)"
  by (simp_all add: MARKER_def occurs_at_def)

text \<open>The marker ends with its only line feed, so it never reaches across one.\<close>

lemma occurs_at_iff: "occurs_at p s \<longleftrightarrow> (\<exists>w. s = p @ w)"
  unfolding occurs_at_def by (metis append_eq_conv_conj append_take_drop_id)

lemma marker_across:
  assumes "occurs_at MARKER (v @ 10 # w)"
  shows "occurs_at MARKER (v @ [10])"
proof -
  define m where "m = lit ''[[package]]''"
  have m: "MARKER = m @ [10]" "10 \<notin> set m" by (simp_all add: MARKER_def m_def)
  obtain z where "v @ 10 # w = m @ 10 # z" using assms by (auto simp: occurs_at_iff m)
  then obtain us where us: "v = m @ us \<and> us @ 10 # w = 10 # z \<or> v @ us = m \<and> 10 # w = us @ 10 # z"
    unfolding append_eq_append_conv2 by blast
  have "us = []" if "v @ us = m" "10 # w = us @ 10 # z"
    using that m(2) by (cases us) auto
  with us have "\<exists>vs. v @ [10] = m @ 10 # vs" by (cases us) auto
  then show ?thesis by (auto simp: occurs_at_iff m)
qed

lemma match_indices_quiet:
  "\<not> contains MARKER (u @ [10]) \<Longrightarrow> match_indices MARKER i (u @ 10 # w) = match_indices MARKER (i + length u + 1) w"
proof (induction u arbitrary: i)
  case (Cons c u)
  have "\<not> occurs_at MARKER (c # u @ 10 # w)"
    using marker_across [of "c # u" w] Cons.prems by (auto simp: occurs_at_def)
  moreover have "\<not> contains MARKER (u @ [10])" using Cons.prems by simp
  ultimately show ?case using Cons.IH [of "Suc i"] by simp
qed (simp add: marker_simps)

lemma match_indices_hit: "p \<noteq> [] \<Longrightarrow> match_indices p i (p @ s) = i # match_indices p (i + length p) s"
  by (cases p) (simp_all add: occurs_at_def)

lemma match_indices_block:
  assumes "clean_block b"
  shows "match_indices MARKER i (b @ 10 # w) = i # match_indices MARKER (i + length b + 1) w"
proof -
  define u where "u = drop (length MARKER) b"
  have b: "b = MARKER @ u" and u: "\<not> contains MARKER (u @ [10])"
    using assms by (simp_all add: clean_block_def Let_def u_def)
  have "match_indices MARKER i (MARKER @ u @ 10 # w) = i # match_indices MARKER (i + 12) (u @ 10 # w)"
    using match_indices_hit [OF marker_simps(2)] by (simp add: marker_simps)
  with match_indices_quiet [OF u, of "i + 12" w] show ?thesis by (simp add: b marker_simps add.assoc add.commute)
qed

fun starts_of :: "nat \<Rightarrow> rstring list \<Rightarrow> nat list" where
  "starts_of i [] = []"
| "starts_of i (b # bs) = i # starts_of (i + length b + 2) bs"

lemma match_indices_render:
  "list_all clean_block bs \<Longrightarrow> match_indices MARKER i (render_blocks bs) = starts_of i bs"
proof (induction i bs rule: starts_of.induct)
  case (1 i)
  then show ?case by (simp add: render_simps marker_simps)
next
  case (2 i b bs)
  then show ?case
    by (cases bs) (simp_all add: render_simps match_indices_block marker_simps)
qed

lemma clean_block_last: "clean_block b \<Longrightarrow> b \<noteq> [] \<and> \<not> is_whitespace (last b)"
  unfolding clean_block_def Let_def by (metis append_is_Nil_conv last_appendR)

lemma trim_block: "clean_block b \<Longrightarrow> trim_end (b @ [10]) = b \<and> trim_end (b @ [10, 10]) = b"
  using clean_block_last [of b]
  by (cases b rule: rev_cases) (auto simp: trim_end_def is_whitespace_def)

text \<open>The pieces between consecutive offsets.\<close>

fun cuts :: "nat list \<Rightarrow> nat \<Rightarrow> (nat \<times> nat) list" where
  "cuts [] e = []"
| "cuts [a] e = [(a, e)]"
| "cuts (a # b # as) e = (a, b) # cuts (b # as) e"

lemma map_cuts:
  "map (\<lambda>n. f (as ! n) (if Suc n < length as then as ! Suc n else e)) [0..<length as] = map (\<lambda>(a, b). f a b) (cuts as e)"
proof (induction as e rule: cuts.induct)
  case (3 a b as e)
  have "[0..<length (a # b # as)] = 0 # map Suc [0..<length (b # as)]" by (simp add: map_Suc_upt upt_conv_Cons del: upt_Suc)
  then have "map (\<lambda>n. f ((a # b # as) ! n) (if Suc n < length (a # b # as) then (a # b # as) ! Suc n else e)) [0..<length (a # b # as)] =
      f a b # map (\<lambda>n. f ((b # as) ! n) (if Suc n < length (b # as) then (b # as) ! Suc n else e)) [0..<length (b # as)]"
    by (simp only: list.map map_map comp_def nth_Cons_0 nth_Cons_Suc length_Cons Suc_less_eq) simp
  with 3 show ?case by (simp only: cuts.simps list.map prod.case)
qed simp_all

lemma cut_render:
  "list_all clean_block bs \<Longrightarrow>
     map (\<lambda>(x, y). trim_end (slice x y (pre @ render_blocks bs)))
       (cuts (starts_of (length pre) bs) (length pre + length (render_blocks bs))) = bs"
proof (induction bs arbitrary: pre)
  case (Cons b bs)
  show ?case
  proof (cases bs)
    case Nil
    with Cons.prems show ?thesis by (simp add: slice_def render_simps trim_block)
  next
    case (Cons c cs)
    have "map (\<lambda>(x, y). trim_end (slice x y ((pre @ b @ [10, 10]) @ render_blocks bs)))
       (cuts (starts_of (length (pre @ b @ [10, 10])) bs) (length (pre @ b @ [10, 10]) + length (render_blocks bs))) = bs"
      using Cons.IH [of "pre @ b @ [10, 10]"] Cons.prems by (simp only: list.pred_inject)
    with Cons.prems Cons show ?thesis by (simp add: slice_def render_simps trim_block add.assoc)
  qed
qed simp

lemma package_blocks_render:
  assumes "list_all clean_block bs"
  shows "package_blocks (render_blocks bs) = bs"
  using map_cuts [of "\<lambda>a b. trim_end (slice a b (render_blocks bs))" "starts_of 0 bs" "length (render_blocks bs)"]
    cut_render [OF assms, of "[]"]
  by (simp add: package_blocks_def match_indices_render [OF assms] Let_def)

text \<open>The header ends with a line feed and has no marker.\<close>

definition clean_header :: "rstring \<Rightarrow> bool" where
  "clean_header h \<longleftrightarrow> (h = [] \<or> last h = 10) \<and> \<not> contains MARKER h"

lemma find_marker:
  assumes "clean_header h" and "occurs_at MARKER s"
  shows "find_str MARKER (h @ s) = Some (length h)"
  using assms(1)
proof (induction h)
  case Nil
  with assms(2) show ?case using marker_simps(2) by (cases s) (auto simp: occurs_at_def)
next
  case (Cons c h)
  obtain v where v: "c # h = v @ [10]" using Cons.prems by (cases "c # h" rule: rev_cases) (auto simp: clean_header_def)
  have "\<not> occurs_at MARKER (c # h)" using Cons.prems by (simp add: clean_header_def occurs_at_def)
  then have "\<not> occurs_at MARKER (v @ 10 # s)" using marker_across [of v s] v by metis
  then have "\<not> occurs_at MARKER ((c # h) @ s)" using v by simp
  moreover have "clean_header h" using Cons.prems by (auto simp: clean_header_def split: if_splits)
  ultimately show ?case using Cons.IH by simp
qed

section \<open>The file stays sorted\<close>

lemma position_None: "position P xs = None \<longleftrightarrow> (\<forall>x \<in> set xs. \<not> P x)"
  by (induction xs) auto

lemma position_Some:
  "position P xs = Some n \<Longrightarrow> \<exists>ys x zs. xs = ys @ x # zs \<and> n = length ys \<and> P x \<and> (\<forall>y \<in> set ys. \<not> P y)"
proof (induction xs arbitrary: n)
  case (Cons x xs)
  show ?case
  proof (cases "P x")
    case True
    with Cons.prems show ?thesis by (intro exI [of _ "[]"]) auto
  next
    case False
    with Cons.prems obtain m where m: "position P xs = Some m" "n = Suc m" by auto
    from Cons.IH [OF m(1)] obtain ys y zs where "xs = ys @ y # zs" "m = length ys" "P y" "\<forall>z \<in> set ys. \<not> P z"
      by blast
    with m(2) False show ?thesis by (intro exI [of _ "x # ys"]) auto
  qed
qed simp

lemma find_str_None: "find_str p s = None \<Longrightarrow> \<not> contains p s"
  by (induction p s rule: find_str.induct) (auto simp: occurs_at_def split: if_splits)

lemma utf8_len_join: "utf8_len (join_str sep bs) + utf8_len sep = (\<Sum>b \<leftarrow> bs. utf8_len b + utf8_len sep) + (if bs = [] then utf8_len sep else 0)"
  by (induction sep bs rule: join_str.induct) (simp_all add: utf8_len_def)

lemma utf8_len_render_blocks:
  "utf8_len (render_blocks bs) + 1 = (\<Sum>b \<leftarrow> bs. utf8_len b + 2) + (if bs = [] then 2 else 0)"
proof -
  have ten: "utf8_len [10] = 1" "utf8_len [10, 10] = 2" by (simp_all add: utf8_len_simps utf8_width_def)
  show ?thesis
    using utf8_len_join [of "[10, 10]" bs] unfolding ten render_blocks_def utf8_len_simps(3) by linarith
qed

lemma utf8_len_render:
  assumes "mset bs = mset bs'"
  shows "utf8_len (render_blocks bs) = utf8_len (render_blocks bs')"
proof -
  let ?f = "\<lambda>b. utf8_len b + 2"
  have "sum_mset (image_mset ?f (mset bs)) = sum_mset (image_mset ?f (mset bs'))" by (simp only: assms)
  then have "(\<Sum>b \<leftarrow> bs. ?f b) = (\<Sum>b \<leftarrow> bs'. ?f b)" by (simp only: mset_map [symmetric] sum_mset_sum_list)
  moreover have "bs = [] \<longleftrightarrow> bs' = []" using assms by (metis mset_zero_iff)
  ultimately have "utf8_len (render_blocks bs) + 1 = utf8_len (render_blocks bs') + 1"
    by (simp only: utf8_len_render_blocks)
  then show ?thesis by simp
qed

text \<open>The names of the blocks that have one, in order.\<close>

definition names_of :: "rstring list \<Rightarrow> rstring list" where
  "names_of bs = List.map_filter package_name bs"

lemma names_of_simps:
  "names_of [] = []"
  "names_of (b # bs) = (case package_name b of Some n \<Rightarrow> n # names_of bs | None \<Rightarrow> names_of bs)"
  "names_of (as @ bs) = names_of as @ names_of bs"
  by (simp_all add: names_of_def List.map_filter_def split: option.split)

lemma set_names_of: "x \<in> set (names_of bs) \<longleftrightarrow> (\<exists>b \<in> set bs. package_name b = Some x)"
  by (force simp: names_of_def List.map_filter_def)

lemma not_comes_after: "\<not> comes_after root b \<longleftrightarrow> (\<forall>n. package_name b = Some n \<longrightarrow> n \<le> root)"
  by (auto simp: comes_after_def linorder_not_less split: option.split)

lemma insert_keeps_sorted:
  assumes "sorted (names_of others)" and "package_name r = Some root"
    and "target = (case position (comes_after root) others of Some n \<Rightarrow> n | None \<Rightarrow> length others)"
  shows "sorted (names_of (insert_nth target r others))"
proof (cases "position (comes_after root) others")
  case None
  then have "\<forall>x \<in> set (names_of others). x \<le> root"
    by (auto simp: position_None not_comes_after set_names_of)
  with None assms show ?thesis by (auto simp: insert_nth_def names_of_simps sorted_append)
next
  case (Some n)
  from position_Some [OF this] obtain ys y zs where ys: "others = ys @ y # zs" "n = length ys"
    "comes_after root y" "\<forall>x \<in> set ys. \<not> comes_after root x" by blast
  have "\<forall>x \<in> set (names_of ys). x \<le> root"
    using ys(4) by (auto simp: not_comes_after set_names_of)
  moreover obtain m where m: "package_name y = Some m" "root < m"
    using ys(3) by (auto simp: comes_after_def split: option.splits)
  moreover have "sorted (names_of ys @ m # names_of zs)" using assms(1) ys(1) m(1) by (simp add: names_of_simps)
  ultimately show ?thesis using assms(2,3) Some ys(1,2)
    by (fastforce simp: insert_nth_def names_of_simps sorted_append)
qed

lemma mset_insert_nth: "mset (insert_nth n x xs) = add_mset x (mset xs)"
  using mset_append [of "take n xs" "drop n xs"] by (simp add: insert_nth_def)

lemma remove_nth_first:
  "\<lbrakk>bs = ys @ r # zs; \<forall>y \<in> set ys. \<not> P y; P r\<rbrakk> \<Longrightarrow> remove_nth (length ys) bs = remove1 r bs"
  by (auto simp: remove_nth_def remove1_append)

lemma reposition_render:
  assumes h: "clean_header h" and bs: "list_all clean_block bs" "bs \<noteq> []"
  shows "reposition_root_package (h @ render_blocks bs) root =
     (case position (is_root root) bs of
        None \<Rightarrow> Inl (NoRootPackage root)
      | Some current \<Rightarrow>
          let others = remove_nth current bs;
              target = (case position (comes_after root) others of Some n \<Rightarrow> n | None \<Rightarrow> length others)
          in Inr (h @ render_blocks (insert_nth target (bs ! current) others)))"
proof -
  obtain b cs where b: "bs = b # cs" using bs(2) by (cases bs) auto
  have "occurs_at MARKER (render_blocks bs)"
  proof -
    obtain u where "b = MARKER @ u" using bs(1) unfolding b by (auto simp: clean_block_def Let_def)
    then show ?thesis unfolding b by (cases cs) (simp_all add: render_simps marker_simps)
  qed
  from find_marker [OF h this] have first: "find_str MARKER (h @ render_blocks bs) = Some (length h)" .
  have same: "utf8_len (h @ render_blocks (insert_nth target (bs ! current) (remove_nth current bs))) =
      utf8_len (h @ render_blocks bs)"
    if "position (is_root root) bs = Some current" for current target
  proof -
    from position_Some [OF that] obtain ys x zs where "bs = ys @ x # zs" "current = length ys" by blast
    then have "mset (insert_nth target (bs ! current) (remove_nth current bs)) = mset bs"
      by (simp add: mset_insert_nth remove_nth_def)
    from utf8_len_render [OF this] show ?thesis by (simp add: utf8_len_def)
  qed
  show ?thesis
    by (auto simp: reposition_root_package_def first Let_def package_blocks_render [OF bs(1)] render_blocks_def [symmetric]
        same split: option.split)
qed

text \<open>
  Repositioning keeps a lock file's packages and its order.  For a lock file as Cargo writes it,
  whose packages apart from the root are sorted by name, the result has the same header and the
  same packages, now sorted by name with the root among them, and the same size.  It fails only
  when there is no root package, that is no block of that name without a source, or no package.
\<close>

theorem lock_is_resorted:
  assumes "clean_header h" and "list_all clean_block bs" and "bs \<noteq> []"
  shows "case reposition_root_package (h @ render_blocks bs) root of
     Inr out \<Rightarrow> \<exists>r bs'. out = h @ render_blocks bs' \<and> mset bs' = mset bs \<and> utf8_len out = utf8_len (h @ render_blocks bs) \<and>
       r \<in> set bs \<and> is_root root r \<and> (sorted (names_of (remove1 r bs)) \<longrightarrow> sorted (names_of bs'))
   | Inl e \<Rightarrow> e = NoRootPackage root \<and> (\<forall>b \<in> set bs. \<not> is_root root b)"
proof (cases "position (is_root root) bs")
  case None
  with position_None [THEN iffD1, OF None] show ?thesis by (simp add: reposition_render [OF assms])
next
  case (Some current)
  from position_Some [OF this] obtain ys r zs where r: "bs = ys @ r # zs" "current = length ys" "is_root root r"
    "\<forall>y \<in> set ys. \<not> is_root root y" by blast
  define target where "target =
    (case position (comes_after root) (remove1 r bs) of Some n \<Rightarrow> n | None \<Rightarrow> length (remove1 r bs))"
  let ?bs = "insert_nth target r (remove1 r bs)"
  have out: "reposition_root_package (h @ render_blocks bs) root = Inr (h @ render_blocks ?bs)"
  proof -
    have "remove_nth current bs = remove1 r bs" "bs ! current = r"
      using remove_nth_first [where P = "is_root root", OF r(1,4,3)] r(1,2) by simp_all
    with Some show ?thesis by (simp add: reposition_render [OF assms] target_def Let_def)
  qed
  moreover have m: "mset ?bs = mset bs" using r(1) by (simp add: mset_insert_nth)
  moreover have "sorted (names_of ?bs)" if "sorted (names_of (remove1 r bs))"
    using insert_keeps_sorted [OF that _ target_def] r(3) by (simp add: is_root_def)
  ultimately show ?thesis using r(1,3) utf8_len_render [OF m]
    by (fastforce simp: utf8_len_simps)
qed

text \<open>The lock file of the source's own test: \<open>base\<close> renamed to \<open>yankee\<close> goes between \<open>alpha\<close> and \<open>zeta\<close>.\<close>

definition sample_block :: "rstring \<Rightarrow> rstring \<Rightarrow> rstring" where
  "sample_block name rest = MARKER @ lit ''name = '' @ [34] @ name @ [34] @ rest"

theorem lock_is_resorted_witness:
  "let a = sample_block (lit ''alpha'') ([10] @ lit ''source = x'');
       b = sample_block (lit ''yankee'') [];
       z = sample_block (lit ''zeta'') ([10] @ lit ''source = x'')
   in \<exists>out. reposition_root_package (lit ''version'' @ [10, 10] @ render_blocks [b, a, z]) (lit ''yankee'') = Inr out"
proof -
  define a where "a = sample_block (lit ''alpha'') ([10] @ lit ''source = x'')"
  define b where "b = sample_block (lit ''yankee'') []"
  define z where "z = sample_block (lit ''zeta'') ([10] @ lit ''source = x'')"
  let ?h = "lit ''version'' @ [10, 10]"
  have h: "clean_header ?h" by (simp add: clean_header_def MARKER_def)
  have bs: "list_all clean_block [b, a, z]"
    by (simp add: a_def b_def z_def sample_block_def clean_block_def MARKER_def is_whitespace_def)
  have root: "is_root (lit ''yankee'') b"
    by (simp add: b_def is_root_def package_name_def sample_block_def MARKER_def lines_def strip_cr_def strip_prefix_def strip_suffix_def)
  then have "\<exists>out. reposition_root_package (?h @ render_blocks [b, a, z]) (lit ''yankee'') = Inr out"
    using lock_is_resorted [OF h bs, of "lit ''yankee''"] by (auto split: sum.splits)
  then show ?thesis by (simp only: a_def b_def z_def Let_def append_assoc)
qed

end
