(* ===== verification/Utf8.thy ===== *)
theory Utf8
  imports Prelude
begin

text \<open>
  UTF-8, as the standard library decodes it: \<open>str::from_utf8\<close>, \<open>String::from_utf8_lossy\<close> and
  \<open>String::into_bytes\<close>.  The decoder accepts the well-formed byte sequences of table 3-7 of the
  Unicode Standard; the lossy one puts U+FFFD for each maximal ill-formed part.
\<close>

type_synonym byte = "8 word"

text \<open>\<open>char\<close>: a Unicode scalar value.\<close>

definition scalar :: "rchar \<Rightarrow> bool" where
  "scalar c \<longleftrightarrow> c < 55296 \<or> 57344 \<le> c \<and> c < 1114112"

definition encode_char :: "rchar \<Rightarrow> nat list" where
  "encode_char c =
     (if c < 128 then [c]
      else if c < 2048 then [192 + c div 64, 128 + c mod 64]
      else if c < 65536 then [224 + c div 4096, 128 + c div 64 mod 64, 128 + c mod 64]
      else [240 + c div 262144, 128 + c div 4096 mod 64, 128 + c div 64 mod 64, 128 + c mod 64])"

definition into_bytes :: "rstring \<Rightarrow> byte list" where
  "into_bytes s = map word_of_nat (concat (map encode_char s))"

definition continuation :: "nat \<Rightarrow> bool" where
  "continuation b \<longleftrightarrow> 128 \<le> b \<and> b < 192"

text \<open>Which byte may follow the first one of a longer sequence.\<close>

definition second_ok :: "nat \<Rightarrow> nat \<Rightarrow> bool" where
  "second_ok a b \<longleftrightarrow> continuation b \<and> (a = 224 \<longrightarrow> 160 \<le> b) \<and> (a = 237 \<longrightarrow> b < 160) \<and>
     (a = 240 \<longrightarrow> 144 \<le> b) \<and> (a = 244 \<longrightarrow> b < 144)"

text \<open>The character that starts with byte \<open>a\<close>, or the end of the ill-formed part.\<close>

definition next_char :: "nat \<Rightarrow> nat list \<Rightarrow> rchar option \<times> nat list" where
  "next_char a bs =
     (if a < 128 then (Some a, bs)
      else if a < 194 \<or> 244 < a then (None, bs)
      else case bs of
        [] \<Rightarrow> (None, [])
      | b # r \<Rightarrow>
          if \<not> second_ok a b then (None, bs)
          else if a < 224 then (Some ((a - 192) * 64 + (b - 128)), r)
          else (case r of
            [] \<Rightarrow> (None, [])
          | c # r' \<Rightarrow>
              if \<not> continuation c then (None, r)
              else if a < 240 then (Some ((a - 224) * 4096 + (b - 128) * 64 + (c - 128)), r')
              else (case r' of
                [] \<Rightarrow> (None, [])
              | d # r'' \<Rightarrow>
                  if \<not> continuation d then (None, r')
                  else (Some ((a - 240) * 262144 + (b - 128) * 4096 + (c - 128) * 64 + (d - 128)), r''))))"

lemma next_char_shorter: "length (snd (next_char a bs)) \<le> length bs"
  by (auto simp: next_char_def split: list.split)

function decode :: "nat list \<Rightarrow> rstring option" where
  "decode [] = Some []"
| "decode (a # bs) = (case next_char a bs of (None, r) \<Rightarrow> None | (Some c, r) \<Rightarrow> map_option (Cons c) (decode r))"
  by pat_completeness auto

termination
  by (relation "measure length") (use next_char_shorter in \<open>auto simp: less_Suc_eq_le, metis snd_conv\<close>)

function decode_lossy :: "nat list \<Rightarrow> rstring" where
  "decode_lossy [] = []"
| "decode_lossy (a # bs) =
     (case next_char a bs of (c, r) \<Rightarrow> (case c of None \<Rightarrow> 65533 | Some c \<Rightarrow> c) # decode_lossy r)"
  by pat_completeness auto

termination
  by (relation "measure length") (use next_char_shorter in \<open>auto simp: less_Suc_eq_le, metis snd_conv\<close>)

definition from_utf8 :: "byte list \<Rightarrow> rstring option" where
  "from_utf8 bs = decode (map unat bs)"

definition from_utf8_lossy :: "byte list \<Rightarrow> rstring" where
  "from_utf8_lossy bs = decode_lossy (map unat bs)"

section \<open>Round trips\<close>

text \<open>Digits to base 64.\<close>

lemma digit: "z < 64 \<Longrightarrow> (q * 64 + z) div 64 = q" "z < 64 \<Longrightarrow> (q * 64 + z) mod 64 = z" for q z :: nat
  by simp_all

lemma div_4096: "c div 4096 = c div 64 div 64" and div_262144: "c div 262144 = c div 64 div 64 div 64" for c :: nat
  by (simp_all add: div_mult2_eq [symmetric])

lemma digits3:
  fixes x y z :: nat
  assumes "y < 64" and "z < 64"
  shows "(x * 4096 + y * 64 + z) div 4096 = x" "(x * 4096 + y * 64 + z) div 64 mod 64 = y" "(x * 4096 + y * 64 + z) mod 64 = z"
proof -
  have "x * 4096 + y * 64 + z = (x * 64 + y) * 64 + z" by simp
  with assms show "(x * 4096 + y * 64 + z) div 4096 = x" "(x * 4096 + y * 64 + z) div 64 mod 64 = y" "(x * 4096 + y * 64 + z) mod 64 = z"
    by (simp_all only: div_4096 digit)
qed

lemma digits4:
  fixes x y z u :: nat
  assumes "y < 64" and "z < 64" and "u < 64"
  shows "(x * 262144 + y * 4096 + z * 64 + u) div 262144 = x" "(x * 262144 + y * 4096 + z * 64 + u) div 4096 mod 64 = y"
    "(x * 262144 + y * 4096 + z * 64 + u) div 64 mod 64 = z" "(x * 262144 + y * 4096 + z * 64 + u) mod 64 = u"
proof -
  have "x * 262144 + y * 4096 + z * 64 + u = ((x * 64 + y) * 64 + z) * 64 + u" by simp
  with assms show "(x * 262144 + y * 4096 + z * 64 + u) div 262144 = x" "(x * 262144 + y * 4096 + z * 64 + u) div 4096 mod 64 = y"
    "(x * 262144 + y * 4096 + z * 64 + u) div 64 mod 64 = z" "(x * 262144 + y * 4096 + z * 64 + u) mod 64 = u"
    by (simp_all only: div_4096 div_262144 digit)
qed

lemma undigits3: "c div 4096 * 4096 + c div 64 mod 64 * 64 + c mod 64 = c" for c :: nat
  using div_mult_mod_eq [of "c div 64" 64] div_mult_mod_eq [of c 64] unfolding div_4096 by linarith

lemma undigits4: "c div 262144 * 262144 + c div 4096 mod 64 * 4096 + c div 64 mod 64 * 64 + c mod 64 = c" for c :: nat
  using div_mult_mod_eq [of "c div 64 div 64" 64] undigits3 [of c] unfolding div_4096 div_262144 by linarith

lemma encode_bytes: "scalar c \<Longrightarrow> b \<in> set (encode_char c) \<Longrightarrow> b < 256"
  by (auto simp: encode_char_def scalar_def split: if_splits)

lemma next_char_encode: "scalar c \<Longrightarrow> \<exists>a bs. encode_char c = a # bs \<and> next_char a (bs @ r) = (Some c, r)"
proof -
  assume c: "scalar c"
  consider "c < 128" | "128 \<le> c" "c < 2048" | "2048 \<le> c" "c < 65536" | "65536 \<le> c" by linarith
  then show ?thesis
  proof cases
    case 1
    then show ?thesis by (simp add: encode_char_def next_char_def)
  next
    case 2
    then have "194 \<le> 192 + c div 64" "192 + c div 64 < 224" by simp_all
    with 2 show ?thesis by (simp add: encode_char_def next_char_def second_ok_def continuation_def)
  next
    case 3
    define x y z where "x = c div 4096" and "y = c div 64 mod 64" and "z = c mod 64"
    note v = this
    have e: "encode_char c = [224 + x, 128 + y, 128 + z]" using 3 by (simp add: encode_char_def v)
    have yz: "y < 64" "z < 64" by (simp_all add: v)
    have sum: "x * 4096 + y * 64 + z = c" unfolding v by (rule undigits3)
    have "x < 16" using sum 3 by linarith
    moreover have "x = 0 \<longrightarrow> 32 \<le> y" using sum yz 3 by linarith
    moreover have "x = 13 \<longrightarrow> y < 32" using sum yz 3 c unfolding scalar_def by linarith
    moreover note sum yz
    ultimately show ?thesis unfolding e by (simp add: next_char_def second_ok_def continuation_def)
  next
    case 4
    define x y z u where "x = c div 262144" and "y = c div 4096 mod 64" and "z = c div 64 mod 64" and "u = c mod 64"
    note v = this
    have c': "c < 1114112" using c 4 by (auto simp: scalar_def)
    have e: "encode_char c = [240 + x, 128 + y, 128 + z, 128 + u]" using 4 by (simp add: encode_char_def v)
    have yz: "y < 64" "z < 64" "u < 64" by (simp_all add: v)
    have sum: "x * 262144 + y * 4096 + z * 64 + u = c" unfolding v by (rule undigits4)
    have "x < 5" using sum c' by linarith
    moreover have "x = 0 \<longrightarrow> 16 \<le> y" using sum yz 4 by linarith
    moreover have "x = 4 \<longrightarrow> y < 16" using sum c' by linarith
    moreover note sum yz
    ultimately show ?thesis unfolding e by (simp add: next_char_def second_ok_def continuation_def)
  qed
qed

lemma decode_encode_chars: "list_all scalar s \<Longrightarrow> decode (concat (map encode_char s)) = Some s"
proof (induction s)
  case (Cons c s)
  then obtain a bs where "encode_char c = a # bs" "next_char a (bs @ concat (map encode_char s)) = (Some c, concat (map encode_char s))"
    using next_char_encode [of c] by fastforce
  with Cons show ?case by simp
qed simp

lemma next_char_Some:
  assumes "next_char a bs = (Some c, r)"
  shows "scalar c \<and> a # bs = encode_char c @ r"
proof -
  have sc: "scalar c" if "c = x" "scalar x" for x using that by simp
  show ?thesis
  proof (cases "a < 128")
    case True
    with assms show ?thesis by (auto simp: next_char_def encode_char_def scalar_def)
  next
    case False
    with assms have a: "194 \<le> a" "a \<le> 244" by (auto simp: next_char_def split: if_splits)
    with assms False obtain b r1 where b: "bs = b # r1" "second_ok a b" by (auto simp: next_char_def split: list.splits if_splits)
    show ?thesis
    proof (cases "a < 224")
      case True
      with assms False a b have c: "c = (a - 192) * 64 + (b - 128)" "r = r1" by (auto simp: next_char_def)
      obtain x y where xy: "a = 192 + x" "b = 128 + y" "2 \<le> x" "x < 32" "y < 64"
        using a True b(2) by (intro that [of "a - 192" "b - 128"]) (auto simp: second_ok_def continuation_def)
      with c b show ?thesis by (simp add: encode_char_def scalar_def)
    next
      case three: False
      with assms False a b obtain d r2 where d: "r1 = d # r2" "continuation d"
        by (auto simp: next_char_def split: list.splits if_splits)
      show ?thesis
      proof (cases "a < 240")
        case True
        with assms False three a b d have c: "c = (a - 224) * 4096 + (b - 128) * 64 + (d - 128)" "r = r2" by (auto simp: next_char_def)
        obtain x y z where xy: "a = 224 + x" "b = 128 + y" "d = 128 + z" "x < 16" "y < 64" "z < 64"
          using three True b(2) d(2) by (intro that [of "a - 224" "b - 128" "d - 128"]) (auto simp: second_ok_def continuation_def)
        have "x = 0 \<longrightarrow> 32 \<le> y" "x = 13 \<longrightarrow> y < 32" using b(2) xy by (auto simp: second_ok_def)
        then have lo: "2048 \<le> x * 4096 + y * 64 + z" by (cases "x = 0") auto
        have hi: "x * 4096 + y * 64 + z < 65536" using xy(4-6) by simp
        consider "x < 13" | "x = 13" | "13 < x" by linarith
        then have "scalar (x * 4096 + y * 64 + z)"
          using xy(4-6) \<open>x = 13 \<longrightarrow> y < 32\<close> by cases (auto simp: scalar_def)
        moreover have "encode_char (x * 4096 + y * 64 + z) = [224 + x, 128 + y, 128 + z]"
          using lo hi digits3 [OF xy(5,6), of x] by (simp add: encode_char_def)
        moreover have "c = x * 4096 + y * 64 + z" "a # bs = [224 + x, 128 + y, 128 + z] @ r"
          using c b(1) d(1) xy(1-3) by simp_all
        ultimately show ?thesis by simp
      next
        case four: False
        with assms False three a b d obtain e r3 where e: "r2 = e # r3" "continuation e"
          by (auto simp: next_char_def split: list.splits if_splits)
        with assms False three four a b d have c: "c = (a - 240) * 262144 + (b - 128) * 4096 + (d - 128) * 64 + (e - 128)" "r = r3"
          by (auto simp: next_char_def)
        obtain x y z u where xy: "a = 240 + x" "b = 128 + y" "d = 128 + z" "e = 128 + u" "x < 5" "y < 64" "z < 64" "u < 64"
          using four a b(2) d(2) e(2)
          by (intro that [of "a - 240" "b - 128" "d - 128" "e - 128"]) (auto simp: second_ok_def continuation_def)
        have "x = 0 \<longrightarrow> 16 \<le> y" "x = 4 \<longrightarrow> y < 16" using b(2) xy by (auto simp: second_ok_def)
        then have lo: "65536 \<le> x * 262144 + y * 4096 + z * 64 + u" by (cases "x = 0") auto
        have "x * 262144 + y * 4096 + z * 64 + u < 1114112"
          using xy(5-8) \<open>x = 4 \<longrightarrow> y < 16\<close> by (cases "x = 4") auto
        with lo have "scalar (x * 262144 + y * 4096 + z * 64 + u)" by (simp add: scalar_def)
        moreover have "encode_char (x * 262144 + y * 4096 + z * 64 + u) = [240 + x, 128 + y, 128 + z, 128 + u]"
          using lo digits4 [OF xy(6-8), of x] by (simp add: encode_char_def)
        moreover have "c = x * 262144 + y * 4096 + z * 64 + u" "a # bs = [240 + x, 128 + y, 128 + z, 128 + u] @ r"
          using c b(1) d(1) e(1) xy(1-4) by simp_all
        ultimately show ?thesis by simp
      qed
    qed
  qed
qed

lemma decode_Some: "decode bs = Some s \<Longrightarrow> list_all scalar s \<and> concat (map encode_char s) = bs"
proof (induction bs arbitrary: s rule: decode.induct)
  case (2 a bs)
  then obtain c r t where n: "next_char a bs = (Some c, r)" "decode r = Some t" "s = c # t"
    by (auto split: prod.splits option.splits)
  with 2(1) [OF n(1) [symmetric] refl n(2)] next_char_Some [OF n(1)] show ?case by simp
qed simp

lemma from_utf8_into_bytes: "list_all scalar s \<Longrightarrow> from_utf8 (into_bytes s) = Some s"
proof -
  assume s: "list_all scalar s"
  then have "map unat (into_bytes s) = concat (map encode_char s)"
    unfolding into_bytes_def map_map
    by (intro map_idI) (auto simp: list_all_iff unat_of_nat dest!: encode_bytes intro!: mod_less)
  with decode_encode_chars [OF s] show ?thesis by (simp add: from_utf8_def)
qed

lemma into_bytes_from_utf8: "from_utf8 bs = Some s \<Longrightarrow> into_bytes s = bs \<and> list_all scalar s"
  unfolding from_utf8_def into_bytes_def by (auto dest!: decode_Some simp: comp_def)

lemma decode_lossy_valid: "decode bs = Some s \<Longrightarrow> decode_lossy bs = s"
  by (induction bs arbitrary: s rule: decode.induct) (auto split: prod.splits option.splits)

lemma from_utf8_lossy_valid: "list_all scalar s \<Longrightarrow> from_utf8_lossy (into_bytes s) = s"
  using from_utf8_into_bytes [of s] by (simp add: from_utf8_def from_utf8_lossy_def decode_lossy_valid)

end
