(* ===== verification/Scaffold_Generate.thy ===== *)
theory Scaffold_Generate
  imports Scaffold_Lock Utf8
begin

text \<open>
  Generating a project, \<open>scaffold/src/source.rs\<close> and \<open>generate\<close> of \<open>scaffold/src/lib.rs\<close>: the
  skeleton is cloned with git into a temporary directory, its tracked files are copied under the
  new names, and the temporary directory is removed.

  The file system is a table of nodes by absolute path (a list of components), without symbolic
  links.  \<open>git\<close> and \<open>cargo\<close> are external programs, parameters that read and change the table;
  the host may refuse any operation on any path for reasons of its own (permissions, space).
\<close>

section \<open>Files and the host\<close>

type_synonym path = "rstring list"

datatype node = Folder | File (content: "byte list") (mode: nat)

type_synonym files = "(path \<times> node) list"

datatype fs_op = ReadDir | CreateDir | RemoveDirAll | ReadFile | WriteFile | Metadata | SetPermissions

text \<open>\<open>Output\<close> of a command that ran.\<close>

record proc_output =
  out_success :: bool
  out_stdout :: "byte list"
  out_stderr :: "byte list"

record host =
  h_denies :: "fs_op \<Rightarrow> path \<Rightarrow> bool"
  h_new_mode :: nat
  h_temp_dir :: path
  h_process_id :: u32
  h_nanos :: nat
  h_git :: "rstring list \<Rightarrow> path option \<Rightarrow> files \<Rightarrow> proc_output option \<times> files"
  h_cargo :: "rstring list \<Rightarrow> path option \<Rightarrow> files \<Rightarrow> proc_output option \<times> files"
  h_replace_all :: replacer

datatype gen_error =
    Io fs_op path
  | TargetNotEmpty path
  | CannotRun rstring
  | CommandFailed rstring rstring
  | NoTrackedFiles
  | NothingBesidesScaffold
  | BadLockFile lock_error

record world =
  w_files :: files
  w_next :: u64

type_synonym 'a action = "(world, gen_error, 'a) op"

section \<open>File operations\<close>

definition node_at :: "files \<Rightarrow> path \<Rightarrow> node option" where
  "node_at fs p = (if p = [] then Some Folder else map_of fs p)"

definition is_file :: "node option \<Rightarrow> bool" where
  "is_file n \<longleftrightarrow> (case n of Some (File b m) \<Rightarrow> True | _ \<Rightarrow> False)"

definition put :: "path \<Rightarrow> node \<Rightarrow> files \<Rightarrow> files" where
  "put p n fs = (p, n) # fs"

definition below :: "path \<Rightarrow> path \<Rightarrow> bool" where
  "below d p \<longleftrightarrow> take (length d) p = d"

text \<open>\<open>fs::read_dir\<close>: the names of the entries, or \<open>None\<close> for a path that does not exist.\<close>

definition read_dir :: "host \<Rightarrow> path \<Rightarrow> files \<Rightarrow> gen_error + rstring list option" where
  "read_dir H d fs =
     (if h_denies H ReadDir d \<or> list_ex (\<lambda>k. is_file (node_at fs (take k d))) [0..<Suc (length d)] then Inl (Io ReadDir d)
      else case node_at fs d of
        None \<Rightarrow> Inr None
      | Some n \<Rightarrow> Inr (Some (remdups (map (\<lambda>p. p ! length d) (filter (\<lambda>p. below d p \<and> p \<noteq> d) (map fst fs))))))"

definition create_dir :: "host \<Rightarrow> path \<Rightarrow> files \<Rightarrow> (gen_error + unit) \<times> files" where
  "create_dir H d fs =
     (if h_denies H CreateDir d \<or> node_at fs d \<noteq> None \<or> node_at fs (butlast d) \<noteq> Some Folder then (Inl (Io CreateDir d), fs)
      else (Inr (), put d Folder fs))"

text \<open>\<open>fs::create_dir_all\<close>: the missing ancestors first.\<close>

fun create_dirs :: "host \<Rightarrow> path \<Rightarrow> rstring list \<Rightarrow> (files, gen_error, unit) op" where
  "create_dirs H d [] fs = (Inr (), fs)"
| "create_dirs H d (c # cs) fs =
     (case node_at fs (d @ [c]) of
        Some Folder \<Rightarrow> create_dirs H (d @ [c]) cs fs
      | Some (File b m) \<Rightarrow> (Inl (Io CreateDir (d @ [c])), fs)
      | None \<Rightarrow>
          if h_denies H CreateDir (d @ [c]) then (Inl (Io CreateDir (d @ [c])), fs)
          else create_dirs H (d @ [c]) cs (put (d @ [c]) Folder fs))"

definition create_dir_all :: "host \<Rightarrow> path \<Rightarrow> (files, gen_error, unit) op" where
  "create_dir_all H p = create_dirs H [] p"

definition read_file :: "host \<Rightarrow> path \<Rightarrow> files \<Rightarrow> gen_error + byte list" where
  "read_file H p fs =
     (case node_at fs p of
        Some (File b m) \<Rightarrow> if h_denies H ReadFile p then Inl (Io ReadFile p) else Inr b
      | _ \<Rightarrow> Inl (Io ReadFile p))"

definition write_file :: "host \<Rightarrow> path \<Rightarrow> byte list \<Rightarrow> (files, gen_error, unit) op" where
  "write_file H p b fs =
     (if h_denies H WriteFile p \<or> node_at fs (butlast p) \<noteq> Some Folder then (Inl (Io WriteFile p), fs)
      else case node_at fs p of
        None \<Rightarrow> (Inr (), put p (File b (h_new_mode H)) fs)
      | Some (File b' m) \<Rightarrow> (Inr (), put p (File b m) fs)
      | Some Folder \<Rightarrow> (Inl (Io WriteFile p), fs))"

definition permissions :: "host \<Rightarrow> path \<Rightarrow> files \<Rightarrow> gen_error + nat" where
  "permissions H p fs =
     (case node_at fs p of
        Some (File b m) \<Rightarrow> if h_denies H Metadata p then Inl (Io Metadata p) else Inr m
      | _ \<Rightarrow> Inl (Io Metadata p))"

definition set_permissions :: "host \<Rightarrow> path \<Rightarrow> nat \<Rightarrow> (files, gen_error, unit) op" where
  "set_permissions H p m fs =
     (case node_at fs p of
        Some (File b m') \<Rightarrow>
          if h_denies H SetPermissions p then (Inl (Io SetPermissions p), fs) else (Inr (), put p (File b m) fs)
      | _ \<Rightarrow> (Inl (Io SetPermissions p), fs))"

definition remove_dir_all :: "host \<Rightarrow> path \<Rightarrow> files \<Rightarrow> files" where
  "remove_dir_all H d fs = (if h_denies H RemoveDirAll d then fs else filter (\<lambda>(p, n). \<not> below d p) fs)"

text \<open>\<open>Path::join\<close> with a \<open>/\<close>-separated relative path; an absolute one replaces the base.\<close>

definition path_components :: "rstring \<Rightarrow> path" where
  "path_components s = filter (\<lambda>c. c \<noteq> [] \<and> c \<noteq> [46]) (split_on 47 s)"

definition join_path :: "path \<Rightarrow> rstring \<Rightarrow> path" where
  "join_path d s = (if s \<noteq> [] \<and> hd s = 47 then path_components s else d @ path_components s)"

definition display_path :: "path \<Rightarrow> rstring" where
  "display_path p = (if p = [] then [47] else concat (map (Cons 47) p))"

definition on_files :: "(files, gen_error, 'a) op \<Rightarrow> 'a action" where
  "on_files f w = (case f (w_files w) of (r, fs) \<Rightarrow> (r, w\<lparr> w_files := fs \<rparr>))"

definition look :: "(files \<Rightarrow> gen_error + 'a) \<Rightarrow> 'a action" where
  "look f w = (f (w_files w), w)"

lemma on_files_eq [op_simps]: "on_files f w = (r, w') \<longleftrightarrow> (\<exists>fs. f (w_files w) = (r, fs) \<and> w' = w\<lparr> w_files := fs \<rparr>)"
  by (auto simp: on_files_def split: prod.splits)

lemma look_eq [op_simps]: "look f w = (r, w') \<longleftrightarrow> f (w_files w) = r \<and> w' = w"
  by (auto simp: look_def)

section \<open>Fetching the skeleton: source.rs\<close>

record skeleton_source =
  s_repo :: rstring
  s_reference :: "rstring option"

record checkout =
  co_directory :: path
  co_revision :: rstring

definition run_command :: "(rstring list \<Rightarrow> path option \<Rightarrow> files \<Rightarrow> proc_output option \<times> files)
    \<Rightarrow> rstring list \<Rightarrow> path option \<Rightarrow> rstring \<Rightarrow> rstring action" where
  "run_command program args cwd label w =
     (case program args cwd (w_files w) of
        (None, fs) \<Rightarrow> (Inl (CannotRun label), w\<lparr> w_files := fs \<rparr>)
      | (Some out, fs) \<Rightarrow>
          (if out_success out then Inr (from_utf8_lossy (out_stdout out))
           else Inl (CommandFailed label (trim (from_utf8_lossy (out_stderr out)))), w\<lparr> w_files := fs \<rparr>))"

definition clone_args :: "skeleton_source \<Rightarrow> path \<Rightarrow> rstring list" where
  "clone_args s d =
     map lit [''clone'', ''--quiet'', ''--depth'', ''1'', ''--single-branch''] @
     (case s_reference s of Some r \<Rightarrow> [lit ''--branch='' @ r] | None \<Rightarrow> []) @
     [lit ''--'', s_repo s, display_path d]"

definition checkout_name :: "host \<Rightarrow> u64 \<Rightarrow> rstring" where
  "checkout_name H sequence =
     lit ''skeleton-new-'' @ decimal (unat (h_process_id H)) @ lit ''-'' @ decimal (unat sequence) @ lit ''-'' @ decimal (h_nanos H)"

text \<open>\<open>Drop for Checkout\<close>: a failure to remove the directory is ignored.\<close>

definition drop_checkout :: "host \<Rightarrow> path \<Rightarrow> world \<Rightarrow> world" where
  "drop_checkout H d w = w\<lparr> w_files := remove_dir_all H d (w_files w) \<rparr>"

definition checkout_fetch :: "host \<Rightarrow> skeleton_source \<Rightarrow> checkout action" where
  "checkout_fetch H s w =
     (let sequence = w_next w;
          d = h_temp_dir H @ [checkout_name H sequence];
          w0 = w\<lparr> w_next := sequence + 1 \<rparr>
      in case on_files (create_dir H d) w0 of
        (Inl e, w1) \<Rightarrow> (Inl e, w1)
      | (Inr _, w1) \<Rightarrow>
          (case run_command (h_git H) (clone_args s d) None (lit ''git clone'') w1 of
             (Inl e, w2) \<Rightarrow> (Inl e, drop_checkout H d w2)
           | (Inr _, w2) \<Rightarrow>
               (case run_command (h_git H) (map lit [''rev-parse'', ''--short'', ''HEAD'']) (Some d) (lit ''git rev-parse'') w2 of
                  (Inl e, w3) \<Rightarrow> (Inl e, drop_checkout H d w3)
                | (Inr revision, w3) \<Rightarrow> (Inr \<lparr> co_directory = d, co_revision = trim revision \<rparr>, w3))))"

definition tracked_files :: "host \<Rightarrow> checkout \<Rightarrow> rstring list action" where
  "tracked_files H c =
     op_bind (run_command (h_git H) (map lit [''ls-files'', ''-z'']) (Some (co_directory c)) (lit ''git ls-files''))
       (\<lambda>output. let names = sort (filter (\<lambda>path. path \<noteq> []) (split_on 0 output)) in
         lift_result (if names = [] then Inl NoTrackedFiles else Inr names))"

section \<open>Generating: lib.rs\<close>

definition EXCLUDED_ROOT :: rstring where
  "EXCLUDED_ROOT = lit ''scaffold''"

record generated =
  g_directory :: path
  g_files :: nat
  g_revision :: rstring

definition ensure_empty_target :: "host \<Rightarrow> path \<Rightarrow> unit action" where
  "ensure_empty_target H d w =
     ((case read_dir H d (w_files w) of
         Inr (Some (entry # entries)) \<Rightarrow> Inl (TargetNotEmpty d)
       | Inr (Some []) \<Rightarrow> Inr ()
       | Inr None \<Rightarrow> Inr ()
       | Inl e \<Rightarrow> Inl e), w)"

definition render :: "host \<Rightarrow> rstring \<Rightarrow> byte list \<Rightarrow> renamer \<Rightarrow> project_name \<Rightarrow> gen_error + byte list" where
  "render H relative bytes r n =
     (case from_utf8 bytes of
        None \<Rightarrow> Inr bytes
      | Some text \<Rightarrow>
          let renamed = renamer_apply (h_replace_all H) r text in
          if relative = lit ''Cargo.lock'' then map_ok into_bytes (map_err BadLockFile (reposition_root_package renamed (snake n)))
          else Inr (into_bytes renamed))"

definition excluded :: "rstring \<Rightarrow> bool" where
  "excluded relative \<longleftrightarrow> hd (split_on 47 relative) = EXCLUDED_ROOT"

definition copy_file :: "host \<Rightarrow> path \<Rightarrow> path \<Rightarrow> renamer \<Rightarrow> project_name \<Rightarrow> rstring \<Rightarrow> unit action" where
  "copy_file H checkout directory r n relative =
     (let source = join_path checkout relative; destination = join_path directory relative in
      op_bind (look (read_file H source)) (\<lambda>bytes.
      op_bind (on_files (create_dir_all H (butlast destination))) (\<lambda>_.
      op_bind (lift_result (render H relative bytes r n)) (\<lambda>rendered.
      op_bind (on_files (write_file H destination rendered)) (\<lambda>_.
      op_bind (look (permissions H source)) (\<lambda>m.
      on_files (set_permissions H destination m)))))))"

fun copy_files :: "host \<Rightarrow> path \<Rightarrow> path \<Rightarrow> renamer \<Rightarrow> project_name \<Rightarrow> rstring list \<Rightarrow> nat \<Rightarrow> nat action" where
  "copy_files H checkout directory r n [] copied = lift_result (Inr copied)"
| "copy_files H checkout directory r n (relative # rest) copied =
     (if excluded relative then copy_files H checkout directory r n rest copied
      else op_bind (copy_file H checkout directory r n relative)
             (\<lambda>_. copy_files H checkout directory r n rest (Suc copied)))"

definition generate :: "host \<Rightarrow> project_name \<Rightarrow> path \<Rightarrow> skeleton_source \<Rightarrow> generated action" where
  "generate H n parent source =
     (let directory = join_path parent (as_str n) in
      op_bind (ensure_empty_target H directory) (\<lambda>_.
      op_bind (checkout_fetch H source) (\<lambda>checkout w.
        (case op_bind (tracked_files H checkout)
                (\<lambda>tracked. copy_files H (co_directory checkout) directory (renamer_new n) n tracked 0) w of
           (r, w') \<Rightarrow>
             (and_then r (\<lambda>copied.
                if copied = 0 then Inl NothingBesidesScaffold
                else Inr \<lparr> g_directory = directory, g_files = copied, g_revision = co_revision checkout \<rparr>),
              drop_checkout H (co_directory checkout) w')))))"

definition format_project :: "host \<Rightarrow> path \<Rightarrow> unit action" where
  "format_project H d =
     op_bind (run_command (h_cargo H) (map lit [''fmt'', ''--all'']) (Some d) (lit ''cargo fmt'')) (\<lambda>_. lift_result (Inr ()))"

section \<open>The command: main.rs\<close>

text \<open>Parsing the command line is clap; these are its results.\<close>

record args =
  a_name :: rstring
  a_path :: path
  a_repo :: rstring
  a_branch :: "rstring option"

datatype main_error = BadName name_error | NotGenerated gen_error | NotFormatted gen_error

datatype main_answer = HelpShown | Created generated

definition main_run :: "host \<Rightarrow> args \<Rightarrow> (world, main_error, main_answer) op" where
  "main_run H a =
     (if a_name a = lit ''help'' then lift_result (Inr HelpShown)
      else
        op_bind (lift_result (map_err BadName (project_name_parse (a_name a)))) (\<lambda>name.
        op_bind (op_map_err NotGenerated (generate H name (a_path a) \<lparr> s_repo = a_repo a, s_reference = a_branch a \<rparr>)) (\<lambda>g.
        op_bind (op_map_err NotFormatted (format_project H (g_directory g))) (\<lambda>_.
        lift_result (Inr (Created g))))))"

section \<open>What the operations change\<close>

lemma node_at_put [simp]: "p \<noteq> [] \<Longrightarrow> node_at (put p n fs) q = (if q = p then Some n else node_at fs q)"
  by (simp add: node_at_def put_def)

lemma node_at_Nil [simp]: "node_at fs [] = Some Folder"
  by (simp add: node_at_def)

lemma below_append [simp]: "below d (d @ p)" and below_refl [simp]: "below d d"
  by (simp_all add: below_def)

lemma below_iff: "below d p \<longleftrightarrow> (\<exists>r. p = d @ r)"
  unfolding below_def by (metis append_eq_conv_conj append_take_drop_id)

lemma below_common: "below a p \<Longrightarrow> below b p \<Longrightarrow> below a b \<or> below b a"
  unfolding below_iff by (metis append_eq_append_conv2)

lemma below_trans: "below a b \<Longrightarrow> below b c \<Longrightarrow> below a c"
  unfolding below_iff by auto

lemma node_at_remove: "node_at (remove_dir_all H d fs) p = (if below d p \<and> p \<noteq> [] \<and> \<not> h_denies H RemoveDirAll d then None else node_at fs p)"
  unfolding node_at_def remove_dir_all_def by (induction fs) (auto simp: below_def)

text \<open>Ancestors are only added.\<close>

lemma create_dirs_adds:
  "create_dirs H d cs fs = (r, fs') \<Longrightarrow>
     node_at fs' p = node_at fs p \<or> node_at fs p = None \<and> node_at fs' p = Some Folder \<and> below p (d @ cs)"
proof (induction H d cs fs arbitrary: r fs' rule: create_dirs.induct)
  case (2 H d c cs fs)
  show ?case
  proof (cases "node_at fs (d @ [c])")
    case None
    show ?thesis
    proof (cases "h_denies H CreateDir (d @ [c])")
      case False
      with 2(1) [OF None False, of r fs'] 2(3) None show ?thesis
        by (auto simp: below_iff split: if_splits)
    qed (use 2(3) None in auto)
  next
    case (Some n)
    with 2(2) [of n r fs'] 2(3) show ?thesis by (cases n) auto
  qed
qed simp

lemma create_dir_all_adds:
  "create_dir_all H d fs = (r, fs') \<Longrightarrow>
     node_at fs' p = node_at fs p \<or> node_at fs p = None \<and> node_at fs' p = Some Folder \<and> below p d"
  unfolding create_dir_all_def using create_dirs_adds [of H "[]" d] by simp

lemma write_file_cases:
  assumes "write_file H q b fs = (r, fs')"
  obtains (refused) e where "r = Inl e" and "fs' = fs"
  | (written) m where "r = Inr ()" and "fs' = put q (File b m) fs" and "q \<noteq> []" and "node_at fs q \<noteq> Some Folder"
  using assms by (cases "q = []") (auto simp: write_file_def split: if_splits option.splits node.splits)

lemma set_permissions_cases:
  assumes "set_permissions H q m fs = (r, fs')"
  obtains (refused) e where "r = Inl e" and "fs' = fs"
  | (changed) b m' where "r = Inr ()" and "fs' = put q (File b m) fs" and "node_at fs q = Some (File b m')" and "q \<noteq> []"
  using assms by (cases "q = []") (auto simp: set_permissions_def split: if_splits option.splits node.splits)

section \<open>Nothing is overwritten\<close>

text \<open>The nodes of \<open>fs0\<close> outside a directory are still there.\<close>

definition kept :: "path \<Rightarrow> files \<Rightarrow> world \<Rightarrow> bool" where
  "kept d fs0 w \<longleftrightarrow> (\<forall>p n. node_at fs0 p = Some n \<longrightarrow> \<not> below d p \<longrightarrow> node_at (w_files w) p = Some n)"

text \<open>Outside a directory the nodes are those of \<open>fs0\<close>.\<close>

definition same_outside :: "path \<Rightarrow> files \<Rightarrow> world \<Rightarrow> bool" where
  "same_outside d fs0 w \<longleftrightarrow> (\<forall>p. \<not> below d p \<longrightarrow> node_at (w_files w) p = node_at fs0 p)"

lemma same_outside_kept: "same_outside d fs0 w \<Longrightarrow> kept d fs0 w"
  by (simp add: same_outside_def kept_def)

text \<open>
  What is relied on of git: it changes nothing outside of the checkout it is given, and lists
  relative names without empty, \<open>.\<close> or \<open>..\<close> components.
\<close>

definition git_confined :: "host \<Rightarrow> path \<Rightarrow> bool" where
  "git_confined H d \<longleftrightarrow> (\<forall>args cwd fs p. cwd = Some d \<or> cwd = None \<and> args \<noteq> [] \<and> last args = display_path d \<longrightarrow>
     \<not> below d p \<longrightarrow> node_at (snd (h_git H args cwd fs)) p = node_at fs p)"

definition plain_relative :: "rstring \<Rightarrow> bool" where
  "plain_relative s \<longleftrightarrow> (\<forall>c \<in> set (split_on 47 s). c \<noteq> [] \<and> c \<noteq> [46] \<and> c \<noteq> [46, 46])"

definition lists_plain_names :: "host \<Rightarrow> bool" where
  "lists_plain_names H \<longleftrightarrow> (\<forall>d fs out fs'. h_git H (map lit [''ls-files'', ''-z'']) (Some d) fs = (Some out, fs') \<longrightarrow>
     (\<forall>s \<in> set (split_on 0 (from_utf8_lossy (out_stdout out))). s \<noteq> [] \<longrightarrow> plain_relative s))"

lemma plain_components: "plain_relative s \<Longrightarrow> path_components s = split_on 47 s"
  by (auto simp: plain_relative_def path_components_def intro!: filter_True)

lemma plain_join: "plain_relative s \<Longrightarrow> join_path d s = d @ split_on 47 s"
  using plain_components [of s] by (cases s) (auto simp: join_path_def plain_relative_def split: if_splits)

text \<open>The target has no entries: no node lies strictly below it, and it is not a file.\<close>

definition clear_target :: "path \<Rightarrow> files \<Rightarrow> bool" where
  "clear_target d fs \<longleftrightarrow> (\<forall>p. below d p \<and> p \<noteq> d \<longrightarrow> node_at fs p = None) \<and> \<not> is_file (node_at fs d)"

lemma node_at_Some: "node_at fs p = Some n \<Longrightarrow> p = [] \<or> p \<in> set (map fst fs)"
  by (auto simp: node_at_def split: if_splits dest!: map_of_SomeD) force

definition files_ok :: "files \<Rightarrow> bool" where
  "files_ok fs \<longleftrightarrow> (\<forall>p n. p \<noteq> [] \<longrightarrow> node_at fs p = Some n \<longrightarrow> node_at fs (butlast p) = Some Folder)"

lemma files_ok_ancestor: "files_ok fs \<Longrightarrow> node_at fs (d @ r) = Some n \<Longrightarrow> r \<noteq> [] \<Longrightarrow> node_at fs d = Some Folder"
proof (induction r arbitrary: n rule: rev_induct)
  case (snoc c r)
  then have "node_at fs (d @ r) = Some Folder" unfolding files_ok_def by (metis append_is_Nil_conv butlast_snoc append_assoc not_Cons_self2)
  with snoc show ?case by (cases "r = []") auto
qed simp

lemma ensure_empty_target_ok:
  assumes "ensure_empty_target H d w = (Inr u, w')" and "files_ok (w_files w)"
  shows "w' = w \<and> clear_target d (w_files w)"
proof -
  let ?fs = "w_files w"
  from assms(1) have w: "w' = w" and e: "read_dir H d ?fs = Inr None \<or> read_dir H d ?fs = Inr (Some [])"
    by (auto simp: ensure_empty_target_def split: sum.splits option.splits list.splits)
  from e have nofile: "\<not> is_file (node_at ?fs d)"
    by (auto simp: read_dir_def split: if_splits)
  have "node_at ?fs p = None" if p: "below d p" "p \<noteq> d" for p
  proof (rule ccontr)
    assume "node_at ?fs p \<noteq> None"
    then obtain n where n: "node_at ?fs p = Some n" by auto
    obtain r where r: "p = d @ r" "r \<noteq> []" using p by (auto simp: below_iff)
    have "node_at ?fs d = Some Folder" using files_ok_ancestor [OF assms(2)] n r by blast
    with e have "filter (\<lambda>p. below d p \<and> p \<noteq> d) (map fst ?fs) = []"
      by (auto simp: read_dir_def split: if_splits)
    moreover have "p \<in> set (map fst ?fs)" using node_at_Some [OF n] r by auto
    ultimately show False using p by (metis (mono_tags, lifting) filter_empty_conv)
  qed
  with w nofile show ?thesis by (auto simp: clear_target_def)
qed

lemma keeps_look [keeps]: "op_keeps P (look f)"
  by (simp add: op_keeps_def look_def)

lemma keeps_create_dir_all: "op_keeps (kept d fs0) (on_files (create_dir_all H q))"
proof (rule op_keepsI)
  fix w assume k: "kept d fs0 w"
  obtain r fs where c: "create_dir_all H q (w_files w) = (r, fs)" by fastforce
  have "node_at fs p = Some n" if "node_at (w_files w) p = Some n" for p n
    using create_dir_all_adds [OF c, of p] that by auto
  with k show "kept d fs0 (snd (on_files (create_dir_all H q) w))"
    by (auto simp: on_files_def c kept_def)
qed

lemma kept_put: "kept d fs0 w \<Longrightarrow> q \<noteq> [] \<Longrightarrow> node_at fs0 q = None \<Longrightarrow> kept d fs0 (w\<lparr> w_files := put q n (w_files w) \<rparr>)"
  by (simp add: kept_def)

lemma keeps_write_file: "node_at fs0 q = None \<Longrightarrow> op_keeps (kept d fs0) (on_files (write_file H q b))"
proof (rule op_keepsI)
  fix w assume q: "node_at fs0 q = None" and k: "kept d fs0 w"
  obtain r fs where c: "write_file H q b (w_files w) = (r, fs)" by fastforce
  from c show "kept d fs0 (snd (on_files (write_file H q b) w))"
    by (cases rule: write_file_cases) (use k q kept_put in \<open>simp_all add: on_files_def c\<close>)
qed

lemma keeps_set_permissions: "node_at fs0 q = None \<Longrightarrow> op_keeps (kept d fs0) (on_files (set_permissions H q m))"
proof (rule op_keepsI)
  fix w assume q: "node_at fs0 q = None" and k: "kept d fs0 w"
  obtain r fs where c: "set_permissions H q m (w_files w) = (r, fs)" by fastforce
  from c show "kept d fs0 (snd (on_files (set_permissions H q m) w))"
    by (cases rule: set_permissions_cases) (use k q kept_put in \<open>simp_all add: on_files_def c\<close>)
qed

lemma keeps_copy_files:
  assumes "clear_target t fs0" and "\<forall>s \<in> set names. plain_relative s"
  shows "op_keeps (kept d fs0) (copy_files H c t r n names k)"
  using assms(2)
proof (induction names arbitrary: k)
  case (Cons s names)
  have "node_at fs0 (join_path t s) = None"
    using assms(1) Cons.prems by (auto simp: clear_target_def plain_join)
  then have "op_keeps (kept d fs0) (copy_file H c t r n s)"
    unfolding copy_file_def Let_def
    by (intro keeps keeps_create_dir_all keeps_write_file keeps_set_permissions)
  with Cons show ?case by (auto intro: keeps_bind)
qed (simp add: keeps)

lemma keeps_run_git:
  assumes "git_confined H d" and "cwd = Some d \<or> cwd = None \<and> args \<noteq> [] \<and> last args = display_path d"
  shows "op_keeps (same_outside d fs0) (run_command (h_git H) args cwd l)"
proof (rule op_keepsI)
  fix w assume k: "same_outside d fs0 w"
  obtain out fs where g: "h_git H args cwd (w_files w) = (out, fs)" by fastforce
  with assms have "\<not> below d p \<Longrightarrow> node_at fs p = node_at (w_files w) p" for p
    unfolding git_confined_def by (metis snd_conv)
  with k g show "same_outside d fs0 (snd (run_command (h_git H) args cwd l w))"
    by (auto simp: run_command_def same_outside_def split: option.splits)
qed

lemma kept_drop: "kept d fs0 w \<Longrightarrow> kept d fs0 (drop_checkout H d w)"
  by (simp add: kept_def drop_checkout_def node_at_remove)

lemma same_outside_drop: "same_outside d fs0 w \<Longrightarrow> same_outside d fs0 (drop_checkout H d w)"
  by (simp add: same_outside_def drop_checkout_def node_at_remove)

definition checkout_path :: "host \<Rightarrow> world \<Rightarrow> path" where
  "checkout_path H w = h_temp_dir H @ [checkout_name H (w_next w)]"

lemma last_clone_args: "clone_args s d \<noteq> [] \<and> last (clone_args s d) = display_path d"
  by (simp add: clone_args_def)

lemma drop_removes:
  "d \<noteq> [] \<Longrightarrow> \<not> h_denies H RemoveDirAll d \<Longrightarrow> node_at (w_files (drop_checkout H d w)) d = None"
  by (simp add: drop_checkout_def node_at_remove)

lemma checkout_fetch_cases:
  assumes "checkout_fetch H s w = (r, w')" and "git_confined H (checkout_path H w)"
  shows "same_outside (checkout_path H w) (w_files w) w'"
    and "r = Inr c \<Longrightarrow> co_directory c = checkout_path H w \<and> node_at (w_files w) (checkout_path H w) = None"
    and "r = Inl e \<Longrightarrow> \<not> h_denies H RemoveDirAll (checkout_path H w) \<Longrightarrow>
      node_at (w_files w') (checkout_path H w) = node_at (w_files w) (checkout_path H w)"
proof -
  let ?d = "checkout_path H w" and ?k = "same_outside (checkout_path H w) (w_files w)"
  define w0 where "w0 = w\<lparr> w_next := w_next w + 1 \<rparr>"
  have d: "?d \<noteq> []" by (simp add: checkout_path_def)
  obtain r1 fs where c: "create_dir H ?d (w_files w) = (r1, fs)" by fastforce
  define w1 where "w1 = w0\<lparr> w_files := fs \<rparr>"
  obtain r2 w2 where g: "run_command (h_git H) (clone_args s ?d) None (lit ''git clone'') w1 = (r2, w2)" by fastforce
  obtain r3 w3 where v: "run_command (h_git H) (map lit [''rev-parse'', ''--short'', ''HEAD'']) (Some ?d) (lit ''git rev-parse'') w2 = (r3, w3)"
    by fastforce
  have run: "(r, w') = (case r1 of Inl e \<Rightarrow> (Inl e, w1) | Inr _ \<Rightarrow>
      (case r2 of Inl e \<Rightarrow> (Inl e, drop_checkout H ?d w2) | Inr _ \<Rightarrow>
        (case r3 of Inl e \<Rightarrow> (Inl e, drop_checkout H ?d w3)
         | Inr v \<Rightarrow> (Inr \<lparr> co_directory = ?d, co_revision = trim v \<rparr>, w3))))"
    using assms(1) c g v
    by (auto simp: checkout_fetch_def checkout_path_def [symmetric] on_files_def w0_def w1_def Let_def split: sum.splits)
  have made: "(r1 = Inr () \<and> node_at (w_files w) ?d = None) \<or> (\<exists>e. r1 = Inl e \<and> fs = w_files w)"
    using c by (auto simp: create_dir_def split: if_splits)
  have k1: "?k w1"
    using c d by (auto simp: create_dir_def same_outside_def w1_def split: if_splits)
  have k2: "?k w2" using op_keeps_result [OF keeps_run_git [OF assms(2)] k1 g] last_clone_args by blast
  have k3: "?k w3" using op_keeps_result [OF keeps_run_git [OF assms(2)] k2 v] by blast
  show "?k w'"
    using run k1 k2 k3 same_outside_drop by (auto split: sum.splits)
  show "r = Inr c \<Longrightarrow> co_directory c = ?d \<and> node_at (w_files w) ?d = None"
    using run made by (auto split: sum.splits)
  show "r = Inl e \<Longrightarrow> \<not> h_denies H RemoveDirAll ?d \<Longrightarrow> node_at (w_files w') ?d = node_at (w_files w) ?d"
    using run made drop_removes [OF d] by (auto simp: w1_def split: sum.splits)
qed

lemma tracked_files_Inr:
  assumes "tracked_files H c w = (Inr names, w')"
  obtains out where "h_git H (map lit [''ls-files'', ''-z'']) (Some (co_directory c)) (w_files w) = (Some out, w_files w')"
    and "names = sort (filter (\<lambda>path. path \<noteq> []) (split_on 0 (from_utf8_lossy (out_stdout out))))"
    and "names \<noteq> []"
  using assms
  by (auto simp: tracked_files_def run_command_def op_simps Let_def split: option.splits prod.splits if_splits)

lemma tracked_plain: "lists_plain_names H \<Longrightarrow> tracked_files H c w = (Inr names, w') \<Longrightarrow> \<forall>s \<in> set names. plain_relative s"
  by (erule tracked_files_Inr) (auto simp: lists_plain_names_def)

lemma keeps_tracked: "git_confined H d \<Longrightarrow> co_directory c = d \<Longrightarrow> op_keeps (same_outside d fs0) (tracked_files H c)"
  unfolding tracked_files_def Let_def by (intro keeps keeps_run_git) simp_all

lemma generate_unfold:
  assumes "generate H n parent s w = (r, w')" and "files_ok (w_files w)"
  obtains (refused) e where "r = Inl e" and "w' = w"
  | (not_fetched) e where "r = Inl e" and "checkout_fetch H s w = (Inl e, w')"
  | (fetched) c w1 r2 w2 where "clear_target (join_path parent (as_str n)) (w_files w)"
      and "checkout_fetch H s w = (Inr c, w1)"
      and "op_bind (tracked_files H c)
        (\<lambda>tracked. copy_files H (co_directory c) (join_path parent (as_str n)) (renamer_new n) n tracked 0) w1 = (r2, w2)"
      and "w' = drop_checkout H (co_directory c) w2"
      and "r = and_then r2 (\<lambda>k. if k = 0 then Inl NothingBesidesScaffold
        else Inr \<lparr> g_directory = join_path parent (as_str n), g_files = k, g_revision = co_revision c \<rparr>)"
proof -
  obtain r0 w0 where e: "ensure_empty_target H (join_path parent (as_str n)) w = (r0, w0)" by fastforce
  have w0: "w0 = w" using e by (simp add: ensure_empty_target_def)
  obtain rc w1 where f: "checkout_fetch H s w = (rc, w1)" by fastforce
  show ?thesis
  proof (cases r0)
    case (Inl x)
    with assms(1) e w0 show ?thesis by (intro refused) (auto simp: generate_def Let_def op_bind_def)
  next
    case (Inr u)
    with e have clear: "clear_target (join_path parent (as_str n)) (w_files w)"
      using ensure_empty_target_ok [OF _ assms(2)] by blast
    show ?thesis
    proof (cases rc)
      case (Inl x)
      with assms(1) e w0 Inr f show ?thesis by (intro not_fetched) (auto simp: generate_def Let_def op_bind_def)
    next
      case (Inr c)
      obtain r2 w2 where cp: "op_bind (tracked_files H c)
          (\<lambda>tracked. copy_files H (co_directory c) (join_path parent (as_str n)) (renamer_new n) n tracked 0) w1 = (r2, w2)"
        by fastforce
      from fetched [OF clear f [unfolded Inr] cp] show ?thesis
        using assms(1) e w0 \<open>r0 = Inr u\<close> f Inr cp
        by (simp add: generate_def Let_def op_bind_def [of "ensure_empty_target _ _"] op_bind_def [of "checkout_fetch _ _"])
    qed
  qed
qed

text \<open>
  C38. Generating overwrites nothing and cleans up.  Whatever happens, success or any failure of the
  host or of git, every file and directory that existed keeps its content and permissions (other
  than below the temporary checkout, which did not exist), and afterwards there is a checkout
  directory exactly if there was one before.
\<close>

theorem generate_never_overwrites:
  assumes "generate H n parent s w = (r, w')" and "files_ok (w_files w)"
    and "git_confined H (checkout_path H w)" and "lists_plain_names H"
  shows "(node_at (w_files w) p = Some x \<and> \<not> below (checkout_path H w) p \<longrightarrow> node_at (w_files w') p = Some x) \<and>
     (\<not> h_denies H RemoveDirAll (checkout_path H w) \<longrightarrow>
       node_at (w_files w') (checkout_path H w) = node_at (w_files w) (checkout_path H w))"
  using assms(1,2)
proof (cases rule: generate_unfold)
  case (not_fetched e)
  with checkout_fetch_cases(1,3) [OF not_fetched(2) assms(3)] show ?thesis by (auto simp: same_outside_def)
next
  case (fetched c w1 r2 w2)
  let ?d = "checkout_path H w"
  note f = checkout_fetch_cases [OF fetched(2) assms(3)]
  have d: "co_directory c = ?d" "node_at (w_files w) ?d = None" using f(2) by blast+
  obtain r1 w1' where t: "tracked_files H c w1 = (r1, w1')" by fastforce
  have k: "kept ?d (w_files w) w1'"
    using op_keeps_result [OF keeps_tracked [OF assms(3) d(1)] f(1) t] by (rule same_outside_kept)
  have "kept ?d (w_files w) w2"
  proof (cases r1)
    case (Inl e)
    with fetched(3) t k show ?thesis by (auto simp: op_bind_def)
  next
    case (Inr names)
    with fetched(3) t have "copy_files H ?d (join_path parent (as_str n)) (renamer_new n) n names 0 w1' = (r2, w2)"
      by (simp add: op_bind_def d(1))
    from op_keeps_result [OF keeps_copy_files [OF fetched(1) tracked_plain [OF assms(4) t [unfolded Inr]]] k this]
    show ?thesis .
  qed
  from kept_drop [OF this, of H] fetched(4) d drop_removes [of ?d H w2] show ?thesis
    by (auto simp: kept_def checkout_path_def)
qed simp

section \<open>What is generated\<close>

text \<open>The target and the checkout are apart.\<close>

definition apart :: "path \<Rightarrow> path \<Rightarrow> bool" where
  "apart a b \<longleftrightarrow> \<not> below a b \<and> \<not> below b a"

lemma apart_below: "apart a b \<Longrightarrow> below a p \<Longrightarrow> below b q \<Longrightarrow> \<not> below q p \<and> \<not> below p q"
  unfolding apart_def by (meson below_common below_trans)

lemma apart_ne: "apart a b \<Longrightarrow> below a p \<Longrightarrow> \<not> below b p"
  unfolding apart_def using below_common by blast

text \<open>The file that a tracked name becomes.\<close>

definition rendered_as :: "host \<Rightarrow> project_name \<Rightarrow> path \<Rightarrow> files \<Rightarrow> rstring \<Rightarrow> byte list \<Rightarrow> nat \<Rightarrow> bool" where
  "rendered_as H n checkout fs s b m \<longleftrightarrow>
     (\<exists>raw. node_at fs (checkout @ split_on 47 s) = Some (File raw m) \<and> render H s raw (renamer_new n) n = Inr b)"

lemma copy_file_Inr:
  assumes run: "copy_file H co t (renamer_new n) n s w = (Inr u, w')" and s: "plain_relative s" and ap: "apart co t"
  obtains b m where "rendered_as H n co (w_files w) s b m"
    and "\<And>p b' m'. node_at (w_files w') p = Some (File b' m') \<longleftrightarrow>
      (if p = t @ split_on 47 s then b' = b \<and> m' = m else node_at (w_files w) p = Some (File b' m'))"
    and "\<And>p. below co p \<Longrightarrow> node_at (w_files w') p = node_at (w_files w) p"
proof -
  let ?src = "co @ split_on 47 s" and ?dst = "t @ split_on 47 s"
  from run obtain raw fs1 b fs2 m where steps:
    "read_file H ?src (w_files w) = Inr raw" "create_dir_all H (butlast ?dst) (w_files w) = (Inr (), fs1)"
    "render H s raw (renamer_new n) n = Inr b" "write_file H ?dst b fs1 = (Inr (), fs2)"
    "permissions H ?src fs2 = Inr m" "set_permissions H ?dst m fs2 = (Inr (), w_files w')"
    by (auto simp: copy_file_def plain_join [OF s] op_simps Let_def)
  have dst: "below t ?dst" "?dst \<noteq> []" by simp_all
  have off: "p \<noteq> ?dst \<and> \<not> below p (butlast ?dst)" if "below co p" for p
  proof -
    have "butlast ?dst = t @ butlast (split_on 47 s)" by (simp add: butlast_append)
    with apart_below [OF ap that, of "butlast ?dst"] apart_ne [OF ap that] show ?thesis by auto
  qed
  have fs1: "node_at fs1 p = node_at (w_files w) p \<or> node_at (w_files w) p = None \<and> node_at fs1 p = Some Folder \<and> below p (butlast ?dst)" for p
    using create_dir_all_adds [OF steps(2)] .
  from steps(4) obtain k where fs2: "fs2 = put ?dst (File b k) fs1" by (cases rule: write_file_cases) auto
  from steps(6) have w': "w_files w' = put ?dst (File b m) fs2"
    by (cases rule: set_permissions_cases) (auto simp: fs2)
  have src: "node_at fs2 ?src = node_at (w_files w) ?src"
    using off [of ?src] fs1 [of ?src] dst by (auto simp: fs2)
  show ?thesis
  proof (rule that [of b m])
    show "rendered_as H n co (w_files w) s b m"
      using steps(1,3,5) src by (auto simp: rendered_as_def read_file_def permissions_def split: option.splits node.splits if_splits)
    show "node_at (w_files w') p = Some (File b' m') \<longleftrightarrow>
        (if p = ?dst then b' = b \<and> m' = m else node_at (w_files w) p = Some (File b' m'))" for p b' m'
      using fs1 [of p] dst(2) by (auto simp: w' fs2)
    show "node_at (w_files w') p = node_at (w_files w) p" if "below co p" for p
      using off [OF that] fs1 [of p] dst(2) by (auto simp: w' fs2)
  qed
qed

lemma split_on_inj: "split_on c a = split_on c b \<Longrightarrow> a = b"
  by (metis join_split_on)

lemma copy_files_Inr:
  assumes "copy_files H co t (renamer_new n) n names k w = (Inr k', w')"
    and "\<forall>s \<in> set names. plain_relative s" and "apart co t"
  shows "k' = k + length (filter (\<lambda>s. \<not> excluded s) names) \<and>
     (\<forall>p b m. node_at (w_files w') p = Some (File b m) \<longleftrightarrow>
        (\<exists>s \<in> set names. \<not> excluded s \<and> p = t @ split_on 47 s \<and> rendered_as H n co (w_files w) s b m) \<or>
        (\<forall>s \<in> set names. \<not> excluded s \<longrightarrow> p \<noteq> t @ split_on 47 s) \<and> node_at (w_files w) p = Some (File b m)) \<and>
     (\<forall>s \<in> set names. \<not> excluded s \<longrightarrow> (\<exists>b m. rendered_as H n co (w_files w) s b m)) \<and>
     (\<forall>p. below co p \<longrightarrow> node_at (w_files w') p = node_at (w_files w) p)"
  using assms(1,2)
proof (induction names arbitrary: k w)
  case (Cons s names)
  show ?case
  proof (cases "excluded s")
    case True
    with Cons.prems have "copy_files H co t (renamer_new n) n names k w = (Inr k', w')" by simp
    from Cons.IH [OF this] Cons.prems(2) True show ?thesis by simp
  next
    case False
    with Cons.prems obtain u w1 where one: "copy_file H co t (renamer_new n) n s w = (Inr u, w1)"
      and rest: "copy_files H co t (renamer_new n) n names (Suc k) w1 = (Inr k', w')" by (auto simp: op_simps)
    have s: "plain_relative s" and names: "\<forall>s \<in> set names. plain_relative s" using Cons.prems(2) by simp_all
    obtain b m where r: "rendered_as H n co (w_files w) s b m"
      and fs: "\<And>p b' m'. node_at (w_files w1) p = Some (File b' m') \<longleftrightarrow>
        (if p = t @ split_on 47 s then b' = b \<and> m' = m else node_at (w_files w) p = Some (File b' m'))"
      and co: "\<And>p. below co p \<Longrightarrow> node_at (w_files w1) p = node_at (w_files w) p"
      using copy_file_Inr [OF one s assms(3)] by blast
    have same: "rendered_as H n co (w_files w1) = rendered_as H n co (w_files w)"
      by (intro ext) (simp add: rendered_as_def co)
    have unique: "rendered_as H n co (w_files w) s b' m' \<longleftrightarrow> b' = b \<and> m' = m" for b' m'
      using r by (auto simp: rendered_as_def)
    from Cons.IH [OF rest names] show ?thesis
      using False unique by (auto simp: same fs co dest!: split_on_inj)
  qed
qed (auto simp: op_simps lift_result_def)

lemma copied_into_clear_target:
  assumes "copy_files H co t (renamer_new n) n tracked 0 w = (Inr k, w')"
    and "\<forall>s \<in> set tracked. plain_relative s" and "apart co t"
    and clear: "\<And>p b m. below t p \<Longrightarrow> node_at (w_files w) p \<noteq> Some (File b m)"
  defines "copied \<equiv> filter (\<lambda>r. \<not> excluded r) tracked"
  shows "k = length copied"
    and "below t p \<Longrightarrow> node_at (w_files w') p = Some (File b m) \<longleftrightarrow>
      (\<exists>r \<in> set copied. p = t @ split_on 47 r \<and> rendered_as H n co (w_files w) r b m)"
    and "r \<in> set copied \<Longrightarrow> is_file (node_at (w_files w') (t @ split_on 47 r))"
proof -
  note all = copy_files_Inr [OF assms(1-3)]
  show "k = length copied" using all by (simp add: copied_def)
  show files: "node_at (w_files w') p = Some (File b m) \<longleftrightarrow>
      (\<exists>r \<in> set copied. p = t @ split_on 47 r \<and> rendered_as H n co (w_files w) r b m)" if "below t p" for p b m
    using all clear [OF that] by (auto simp: copied_def)
  have each: "\<forall>s \<in> set tracked. \<not> excluded s \<longrightarrow> (\<exists>b m. rendered_as H n co (w_files w) s b m)"
    using all by (elim conjE)
  show "is_file (node_at (w_files w') (t @ split_on 47 r))" if r: "r \<in> set copied"
  proof -
    obtain b m where "rendered_as H n co (w_files w) r b m" using each r by (auto simp: copied_def)
    with files [of "t @ split_on 47 r" b m] r have "node_at (w_files w') (t @ split_on 47 r) = Some (File b m)" by auto
    then show ?thesis by (simp add: is_file_def)
  qed
qed

text \<open>
  C37. A generated project is the skeleton, renamed.  When generation succeeds, the files at or below
  the target are exactly the tracked files outside of \<open>scaffold/\<close>: each at its relative path, with
  the permissions it has in the checkout and its rendered content (renamed text, the lock file with
  its root package moved, binary files as they are).  There is at least one, the reported number is
  theirs, and the reported revision is that of the checkout.
\<close>

theorem generate_is_exact:
  assumes "generate H n parent s w = (Inr g, w')" and "files_ok (w_files w)"
    and "git_confined H (checkout_path H w)" and "lists_plain_names H"
    and "apart (checkout_path H w) (join_path parent (as_str n))"
  shows "\<exists>c w1 w2 tracked. checkout_fetch H s w = (Inr c, w1) \<and> tracked_files H c w1 = (Inr tracked, w2) \<and>
     (let copied = filter (\<lambda>r. \<not> excluded r) tracked; t = join_path parent (as_str n) in
       g = \<lparr> g_directory = t, g_files = length copied, g_revision = co_revision c \<rparr> \<and> copied \<noteq> [] \<and>
       (\<forall>r \<in> set copied. is_file (node_at (w_files w') (t @ split_on 47 r))) \<and>
       (\<forall>p b m. below t p \<longrightarrow> (node_at (w_files w') p = Some (File b m) \<longleftrightarrow>
          (\<exists>r \<in> set copied. p = t @ split_on 47 r \<and> rendered_as H n (co_directory c) (w_files w2) r b m))))"
  using assms(1,2)
proof (cases rule: generate_unfold)
  case (fetched c w1 r2 w3)
  let ?t = "join_path parent (as_str n)"
  note f = checkout_fetch_cases [OF fetched(2) assms(3)]
  have d: "co_directory c = checkout_path H w" using f(2) by blast
  note ap = assms(5) [folded d]
  obtain k where r2: "r2 = Inr k" and k: "k \<noteq> 0"
    and g: "g = \<lparr> g_directory = ?t, g_files = k, g_revision = co_revision c \<rparr>"
    using fetched(5) by (cases r2) (auto split: if_splits)
  from fetched(3) [unfolded r2] obtain tracked w2 where t: "tracked_files H c w1 = (Inr tracked, w2)"
    and cp: "copy_files H (co_directory c) ?t (renamer_new n) n tracked 0 w2 = (Inr k, w3)" by (auto simp: op_simps)
  have out: "same_outside (co_directory c) (w_files w) w2"
    using op_keeps_result [OF keeps_tracked [OF assms(3) d] f(1) t] d by simp
  have "node_at (w_files w2) p \<noteq> Some (File b m)" if "below ?t p" for p b m
    using out that apart_ne [of "?t" "co_directory c" p] ap fetched(1)
    by (cases "p = ?t") (auto simp: same_outside_def clear_target_def is_file_def apart_def)
  note copied = copied_into_clear_target [OF cp tracked_plain [OF assms(4) t] ap this]
  have drop: "node_at (w_files w') p = node_at (w_files w3) p" if "below ?t p" for p
    using that apart_ne [of ?t "co_directory c" p] ap
    by (auto simp: fetched(4) drop_checkout_def node_at_remove apart_def)
  let ?copied = "filter (\<lambda>r. \<not> excluded r) tracked"
  have "?copied \<noteq> []" using k copied(1) by auto
  moreover have "\<forall>r \<in> set ?copied. is_file (node_at (w_files w') (?t @ split_on 47 r))"
    using copied(3) drop by simp
  moreover have "\<forall>p b m. below ?t p \<longrightarrow> (node_at (w_files w') p = Some (File b m) \<longleftrightarrow>
      (\<exists>r \<in> set ?copied. p = ?t @ split_on 47 r \<and> rendered_as H n (co_directory c) (w_files w2) r b m))"
    using copied(2) drop by metis
  ultimately show ?thesis using fetched(2) t g copied(1) unfolding Let_def by blast
qed simp_all

section \<open>A small skeleton\<close>

text \<open>A host whose repository tracks one file of its own and one of the scaffold.\<close>

definition sample_checkout :: path where
  "sample_checkout = [lit ''tmp'', lit ''skeleton-new-7-0-5'']"

definition sample_git :: "rstring list \<Rightarrow> path option \<Rightarrow> files \<Rightarrow> proc_output option \<times> files" where
  "sample_git args cwd fs =
     (let ok = (\<lambda>s. Some \<lparr> out_success = True, out_stdout = into_bytes s, out_stderr = [] \<rparr>) in
      if cwd = None then
        (ok [], put (sample_checkout @ [lit ''a'']) (File (into_bytes (lit ''base_skeleton'')) 493)
                  (put (sample_checkout @ [lit ''scaffold'']) (File [] 420) fs))
      else if args = map lit [''ls-files'', ''-z''] then (ok (lit ''scaffold'' @ [0] @ lit ''a'' @ [0]), fs)
      else (ok (lit ''abc'' @ [10]), fs))"

definition sample_host :: host where
  "sample_host = \<lparr> h_denies = \<lambda>_ _. False, h_new_mode = 420, h_temp_dir = [lit ''tmp''], h_process_id = 7, h_nanos = 5,
     h_git = sample_git, h_cargo = \<lambda>_ _ fs. (None, fs), h_replace_all = \<lambda>ps rs. rewrite (zip ps rs) \<rparr>"

definition sample_world :: world where
  "sample_world = \<lparr> w_files = [([lit ''tmp''], Folder), ([lit ''keep''], File [1] 384)], w_next = 0 \<rparr>"

definition sample_source :: skeleton_source where
  "sample_source = \<lparr> s_repo = lit ''-x'', s_reference = Some (lit ''-v'') \<rparr>"

lemma sample_checkout_path: "checkout_path sample_host sample_world = sample_checkout"
  by (simp add: checkout_path_def checkout_name_def sample_host_def sample_world_def sample_checkout_def decimal.simps)

lemma sample_files_ok: "files_ok (w_files sample_world)"
  by (auto simp: files_ok_def sample_world_def node_at_def split: if_splits)

lemma sample_git_confined: "git_confined sample_host sample_checkout"
  by (auto simp: git_confined_def sample_host_def sample_git_def Let_def below_def sample_checkout_def put_def node_at_def)

lemma lossy_ascii: "\<forall>c \<in> set s. c < 128 \<Longrightarrow> from_utf8_lossy (into_bytes s) = s"
  by (rule from_utf8_lossy_valid) (auto simp: list_all_iff scalar_def)

lemma utf8_ascii: "\<forall>c \<in> set s. c < 128 \<Longrightarrow> from_utf8 (into_bytes s) = Some s"
  by (rule from_utf8_into_bytes) (auto simp: list_all_iff scalar_def)

lemma sample_lists_plain: "lists_plain_names sample_host"
  by (auto simp: lists_plain_names_def sample_host_def sample_git_def Let_def lossy_ascii plain_relative_def)

lemma sample_generate:
  "fst (generate sample_host (ProjectName (lit ''x'')) [] sample_source sample_world) =
     Inr \<lparr> g_directory = [lit ''x''], g_files = 1, g_revision = lit ''abc'' \<rparr>"
  by (simp add: generate_def Let_def op_bind_def ensure_empty_target_def read_dir_def is_file_def node_at_def sample_world_def
      sample_host_def join_path_def path_components_def checkout_fetch_def checkout_name_def decimal.simps on_files_def create_dir_def
      run_command_def sample_git_def lossy_ascii put_def tracked_files_def clone_args_def lift_result_def excluded_def EXCLUDED_ROOT_def
      copy_file_def look_def read_file_def create_dir_all_def render_def utf8_ascii trim_def trim_start_def trim_end_def is_whitespace_def sample_checkout_def write_file_def permissions_def set_permissions_def)


lemma sample_apart: "apart (checkout_path sample_host sample_world) (join_path [] (as_str (ProjectName (lit ''x''))))"
  by (simp add: sample_checkout_path apart_def below_def sample_checkout_def join_path_def path_components_def)

lemma sample_run:
  "generate sample_host (ProjectName (lit ''x'')) [] sample_source sample_world =
     (Inr \<lparr> g_directory = [lit ''x''], g_files = 1, g_revision = lit ''abc'' \<rparr>,
      snd (generate sample_host (ProjectName (lit ''x'')) [] sample_source sample_world))"
  using sample_generate by (metis prod.collapse)

lemmas sample_facts = sample_run sample_files_ok sample_git_confined [folded sample_checkout_path] sample_lists_plain

text \<open>The file that was there is still there, and the temporary directory is gone.\<close>

theorem generate_never_overwrites_witness:
  "let w' = snd (generate sample_host (ProjectName (lit ''x'')) [] sample_source sample_world) in
     node_at (w_files w') [lit ''keep''] = Some (File [1] 384) \<and> node_at (w_files w') sample_checkout = None"
  using generate_never_overwrites [OF sample_facts, of "[lit ''keep'']" "File [1] 384"]
  by (simp add: Let_def sample_checkout_path) (simp add: sample_world_def sample_host_def sample_checkout_def below_def node_at_def)

text \<open>The one file of the skeleton is there, and no other.\<close>

theorem generate_is_exact_witness:
  "let w' = snd (generate sample_host (ProjectName (lit ''x'')) [] sample_source sample_world) in
     (\<exists>r. is_file (node_at (w_files w') (lit ''x'' # split_on 47 r)))"
proof -
  let ?w = "snd (generate sample_host (ProjectName (lit ''x'')) [] sample_source sample_world)"
  have t: "join_path [] (as_str (ProjectName (lit ''x''))) = [lit ''x'']" by (simp add: join_path_def path_components_def)
  obtain tracked where "filter (\<lambda>r. \<not> excluded r) tracked \<noteq> []"
    "\<forall>r \<in> set (filter (\<lambda>r. \<not> excluded r) tracked). is_file (node_at (w_files ?w) ([lit ''x''] @ split_on 47 r))"
    using generate_is_exact [OF sample_facts sample_apart] unfolding t Let_def by blast
  then show ?thesis unfolding Let_def by (cases "filter (\<lambda>r. \<not> excluded r) tracked") auto
qed

end
