(* ===== verification/User_Concurrency.thy ===== *)
theory User_Concurrency
  imports User_Service
begin

text \<open>
  Requests that overlap.  The use cases of \<open>src/application/user/use_cases\<close> are asynchronous
  functions: between two awaits other requests, of this process or of another one, use the same
  table and the same Redis.  A request is therefore also modelled as the calls it still has to
  make, one datatype constructor per await, and the uninterrupted run of these calls is proved
  to be the use case of \<open>App_User\<close>.

  Over these calls stands a transition system: any number of requests in progress, each dropped
  when the request timeout of \<open>router.rs\<close> has passed, a clock, keys that expire or are evicted,
  and other writers of the table.  A ghost history of the table says which users it held when.
\<close>

section \<open>The calls of a request\<close>

datatype client_request =
    GetRequest user_id
  | UpdateRequest user_id user_input
  | DeleteRequest user_id
  | CreateRequest user_input

text \<open>Where a request stands: the port it calls next, with what it keeps over the await.\<close>

datatype user_call =
    GetCache user_id
  | GetDb user_id
  | GetFill user_id user
  | UpdateDb user_id email display_name
  | UpdateFill user_id user
  | UpdateEvict user_id user
  | DeleteDb user_id
  | DeleteEvict user_id
  | CreateDb user user_creation_job
  | CreateFill user
  | Finished "application_error + user option"

definition start_update :: "unicode \<Rightarrow> user_id \<Rightarrow> user_input \<Rightarrow> user_call" where
  "start_update U i input = (case email_parse U (ui_email input) of
     Inl e \<Rightarrow> Finished (Inl (InvalidInput e))
   | Inr email \<Rightarrow> (case display_name_parse (ui_display_name input) of
       Inl e \<Rightarrow> Finished (Inl (InvalidInput e))
     | Inr name \<Rightarrow> UpdateDb i email name))"

definition start_create :: "unicode \<Rightarrow> u32 \<Rightarrow> (uuid \<Rightarrow> rstring) \<Rightarrow> uuid \<Rightarrow> timestamp \<Rightarrow> user_input \<Rightarrow> user_call" where
  "start_create U job_max_attempts display_uuid fresh now input = (case email_parse U (ui_email input) of
     Inl e \<Rightarrow> Finished (Inl (InvalidInput e))
   | Inr email \<Rightarrow> (case display_name_parse (ui_display_name input) of
       Inl e \<Rightarrow> Finished (Inl (InvalidInput e))
     | Inr name \<Rightarrow>
         let user = user_new fresh now email name in
         CreateDb user \<lparr> uj_job_type = USER_CREATED_JOB,
           uj_payload = JObject [(lit ''user_id'', JString (user_id_display display_uuid (u_id user)))],
           uj_max_attempts = job_max_attempts \<rparr>))"

fun start :: "unicode \<Rightarrow> u32 \<Rightarrow> (uuid \<Rightarrow> rstring) \<Rightarrow> uuid \<Rightarrow> timestamp \<Rightarrow> client_request \<Rightarrow> user_call" where
  "start U m disp fresh now (GetRequest i) = GetCache i"
| "start U m disp fresh now (UpdateRequest i input) = start_update U i input"
| "start U m disp fresh now (DeleteRequest i) = DeleteDb i"
| "start U m disp fresh now (CreateRequest input) = start_create U m disp fresh now input"

text \<open>One await: the call is made and the request moves on to its next one.\<close>

fun advance_get :: "'d user_repository \<Rightarrow> 'c user_cache \<Rightarrow> u64 \<Rightarrow> user_call \<Rightarrow> 'd \<Rightarrow> 'c \<Rightarrow> user_call \<times> 'd \<times> 'c" where
  "advance_get R C ttl (GetCache i) d c = (case c_get C i c of (r, c') \<Rightarrow>
     (case r of Inr (Some u) \<Rightarrow> Finished (Inr (Some u)) | _ \<Rightarrow> GetDb i, d, c'))"
| "advance_get R C ttl (GetDb i) d c = (case r_find_by_id R i d of (r, d') \<Rightarrow>
     (case r of
        Inl e \<Rightarrow> Finished (Inl (application_error_from e))
      | Inr None \<Rightarrow> Finished (Inl NotFound)
      | Inr (Some u) \<Rightarrow> GetFill i u, d', c))"
| "advance_get R C ttl (GetFill i u) d c = (Finished (Inr (Some u)), d, snd (c_set C u ttl c))"
| "advance_get R C ttl x d c = (x, d, c)"

fun advance_update :: "'d user_repository \<Rightarrow> 'c user_cache \<Rightarrow> u64 \<Rightarrow> user_call \<Rightarrow> 'd \<Rightarrow> 'c \<Rightarrow> user_call \<times> 'd \<times> 'c" where
  "advance_update R C ttl (UpdateDb i email name) d c = (case r_update R i email name d of (r, d') \<Rightarrow>
     (case r of
        Inl e \<Rightarrow> Finished (Inl (application_error_from e))
      | Inr u \<Rightarrow> UpdateFill i u, d', c))"
| "advance_update R C ttl (UpdateFill i u) d c = (case c_set C u ttl c of (r, c') \<Rightarrow>
     (case r of Inl e \<Rightarrow> UpdateEvict i u | Inr x \<Rightarrow> Finished (Inr (Some u)), d, c'))"
| "advance_update R C ttl (UpdateEvict i u) d c = (Finished (Inr (Some u)), d, snd (c_delete C (u_id u) c))"
| "advance_update R C ttl x d c = (x, d, c)"

fun advance_delete :: "'d user_repository \<Rightarrow> 'c user_cache \<Rightarrow> user_call \<Rightarrow> 'd \<Rightarrow> 'c \<Rightarrow> user_call \<times> 'd \<times> 'c" where
  "advance_delete R C (DeleteDb i) d c = (case r_delete R i d of (r, d') \<Rightarrow>
     (case r of
        Inl e \<Rightarrow> Finished (Inl (application_error_from e))
      | Inr b \<Rightarrow> if b then DeleteEvict i else Finished (Inl NotFound), d', c))"
| "advance_delete R C (DeleteEvict i) d c = (Finished (Inr None), d, snd (c_delete C i c))"
| "advance_delete R C x d c = (x, d, c)"

fun advance_create :: "'d user_repository \<Rightarrow> 'c user_cache \<Rightarrow> u64 \<Rightarrow> user_call \<Rightarrow> 'd \<Rightarrow> 'c \<Rightarrow> user_call \<times> 'd \<times> 'c" where
  "advance_create R C ttl (CreateDb u job) d c = (case r_create_with_job R u job d of (r, d') \<Rightarrow>
     (case r of
        Inl e \<Rightarrow> Finished (Inl (application_error_from e))
      | Inr created \<Rightarrow> CreateFill created, d', c))"
| "advance_create R C ttl (CreateFill u) d c = (Finished (Inr (Some u)), d, snd (c_set C u ttl c))"
| "advance_create R C ttl x d c = (x, d, c)"

fun advance :: "'d user_repository \<Rightarrow> 'c user_cache \<Rightarrow> u64 \<Rightarrow> user_call \<times> 'd \<times> 'c \<Rightarrow> user_call \<times> 'd \<times> 'c" where
  "advance R C ttl (GetCache i, d, c) = advance_get R C ttl (GetCache i) d c"
| "advance R C ttl (GetDb i, d, c) = advance_get R C ttl (GetDb i) d c"
| "advance R C ttl (GetFill i u, d, c) = advance_get R C ttl (GetFill i u) d c"
| "advance R C ttl (UpdateDb i email name, d, c) = advance_update R C ttl (UpdateDb i email name) d c"
| "advance R C ttl (UpdateFill i u, d, c) = advance_update R C ttl (UpdateFill i u) d c"
| "advance R C ttl (UpdateEvict i u, d, c) = advance_update R C ttl (UpdateEvict i u) d c"
| "advance R C ttl (DeleteDb i, d, c) = advance_delete R C (DeleteDb i) d c"
| "advance R C ttl (DeleteEvict i, d, c) = advance_delete R C (DeleteEvict i) d c"
| "advance R C ttl (CreateDb u job, d, c) = advance_create R C ttl (CreateDb u job) d c"
| "advance R C ttl (CreateFill u, d, c) = advance_create R C ttl (CreateFill u) d c"
| "advance R C ttl (Finished r, d, c) = (Finished r, d, c)"

text \<open>A request alone: its calls one after another.  None needs more than three.\<close>

definition uninterrupted :: "'d user_repository \<Rightarrow> 'c user_cache \<Rightarrow> u64 \<Rightarrow> user_call \<times> 'd \<times> 'c \<Rightarrow> user_call \<times> 'd \<times> 'c" where
  "uninterrupted R C ttl s = advance R C ttl (advance R C ttl (advance R C ttl s))"

fun use_case :: "unicode \<Rightarrow> 'd user_repository \<Rightarrow> 'c user_cache \<Rightarrow> u64 \<Rightarrow> u32 \<Rightarrow> (uuid \<Rightarrow> rstring) \<Rightarrow> uuid
    \<Rightarrow> timestamp \<Rightarrow> client_request \<Rightarrow> ('d \<times> 'c, application_error, user option) op" where
  "use_case U R C ttl m disp fresh now (GetRequest i) =
     op_bind (get_user R C ttl i) (\<lambda>u. lift_result (Inr (Some u)))"
| "use_case U R C ttl m disp fresh now (UpdateRequest i input) =
     op_bind (update_user U R C ttl i input) (\<lambda>u. lift_result (Inr (Some u)))"
| "use_case U R C ttl m disp fresh now (DeleteRequest i) =
     op_bind (delete_user R C i) (\<lambda>_. lift_result (Inr None))"
| "use_case U R C ttl m disp fresh now (CreateRequest input) =
     op_bind (create_user U R C ttl m disp fresh now input) (\<lambda>u. lift_result (Inr (Some u)))"

lemmas op_defs = op_bind_def lift_result_def op_map_err_def op_try_def on_db_def on_cache_def

lemma get_calls:
  "uninterrupted R C ttl (GetCache i, d, c) =
     (case op_bind (get_user R C ttl i) (\<lambda>u. lift_result (Inr (Some u))) (d, c) of (r, s) \<Rightarrow> (Finished r, s))"
  by (simp add: uninterrupted_def get_user_run op_bind_def lift_result_def split: prod.split sum.split option.split)

lemma update_calls:
  "uninterrupted R C ttl (start_update U i input, d, c) =
     (case op_bind (update_user U R C ttl i input) (\<lambda>u. lift_result (Inr (Some u))) (d, c) of (r, s) \<Rightarrow> (Finished r, s))"
  by (simp add: uninterrupted_def start_update_def update_user_run op_bind_def lift_result_def
      split: prod.split sum.split)

lemma delete_calls:
  "uninterrupted R C ttl (DeleteDb i, d, c) =
     (case op_bind (delete_user R C i) (\<lambda>_. lift_result (Inr None)) (d, c) of (r, s) \<Rightarrow> (Finished r, s))"
  by (simp add: uninterrupted_def delete_user_def op_defs split: prod.split sum.split)

lemma create_calls:
  "uninterrupted R C ttl (start_create U m disp fresh now input, d, c) =
     (case op_bind (create_user U R C ttl m disp fresh now input) (\<lambda>u. lift_result (Inr (Some u))) (d, c) of
        (r, s) \<Rightarrow> (Finished r, s))"
proof (cases "email_parse U (ui_email input)")
  case (Inl e)
  then show ?thesis
    by (simp add: uninterrupted_def start_create_def create_user_def op_bind_def lift_result_def)
next
  case em: (Inr em)
  show ?thesis
  proof (cases "display_name_parse (ui_display_name input)")
    case (Inl e)
    with em show ?thesis
      by (simp add: uninterrupted_def start_create_def create_user_def op_bind_def lift_result_def)
  next
    case (Inr n)
    with em show ?thesis
      by (simp add: uninterrupted_def start_create_def create_user_def Let_def op_defs split: prod.split sum.split)
  qed
qed

text \<open>
  The interleaved requests are the use cases.  Whatever repository and cache are plugged in,
  whatever the request and the state: making the calls of a request one after another, with
  nothing in between, gives exactly the answer and the final state of the use case, and never
  takes more than three calls.
\<close>

theorem calls_are_use_cases:
  "uninterrupted R C ttl (start U m disp fresh now req, d, c) =
     (case use_case U R C ttl m disp fresh now req (d, c) of (r, s) \<Rightarrow> (Finished r, s))"
  by (cases req) (simp_all add: get_calls update_calls delete_calls create_calls)

section \<open>Requests that overlap\<close>

record ('d, 'c) world =
  w_db :: 'd
  w_cache :: 'c
  w_now :: nat
  w_calls :: "nat \<Rightarrow> (nat \<times> user_call) option"
  w_history :: "(nat \<times> 'd) list"
  w_written :: "user_id \<Rightarrow> nat"
  w_answers :: "(nat \<times> user_id \<times> user) list"

text \<open>
  \<open>w_calls\<close> holds the requests in progress with the instant each began.  The last three fields
  are ghosts: the tables so far with their instants, the latest instant at which the entry of a
  user may have been written, and the users that clients were shown.
\<close>

fun subject :: "user_call \<Rightarrow> user_id" where
  "subject (GetCache i) = i"
| "subject (GetDb i) = i"
| "subject (GetFill i u) = i"
| "subject (UpdateDb i email name) = i"
| "subject (UpdateFill i u) = i"
| "subject (UpdateEvict i u) = i"
| "subject (DeleteDb i) = i"
| "subject (DeleteEvict i) = i"
| "subject (CreateDb u job) = u_id u"
| "subject (CreateFill u) = u_id u"
| "subject (Finished r) = UserId 0"

text \<open>The user a request carries from the table to the cache.\<close>

fun carried :: "user_call \<Rightarrow> user option" where
  "carried (GetFill i u) = Some u"
| "carried (UpdateFill i u) = Some u"
| "carried (UpdateEvict i u) = Some u"
| "carried (CreateFill u) = Some u"
| "carried x = None"

fun shown :: "user_call \<Rightarrow> user option" where
  "shown (Finished (Inr (Some u))) = Some u"
| "shown x = None"

fun in_progress :: "user_call \<Rightarrow> bool" where
  "in_progress (Finished r) = False"
| "in_progress x = True"

definition begin_call :: "nat \<Rightarrow> user_call \<Rightarrow> ('d, 'c) world \<Rightarrow> ('d, 'c) world" where
  "begin_call n x w = w\<lparr> w_calls := (w_calls w)(n \<mapsto> (w_now w, x)) \<rparr>"

definition step_call :: "'d user_repository \<Rightarrow> 'c user_cache \<Rightarrow> ('c \<Rightarrow> user_id \<Rightarrow> user option) \<Rightarrow> u64
    \<Rightarrow> nat \<Rightarrow> nat \<Rightarrow> user_call \<Rightarrow> ('d, 'c) world \<Rightarrow> ('d, 'c) world" where
  "step_call R C cached ttl n t0 x w = (case advance R C ttl (x, w_db w, w_cache w) of (y, d, c) \<Rightarrow>
     w\<lparr> w_db := d, w_cache := c,
        w_calls := (w_calls w)(n \<mapsto> (t0, y)),
        w_history := (w_now w, d) # w_history w,
        w_written := (\<lambda>k. if carried x \<noteq> None \<and> cached c k = carried x then w_now w else w_written w k),
        w_answers := (case shown y of None \<Rightarrow> w_answers w | Some u \<Rightarrow> (w_now w, subject x, u) # w_answers w) \<rparr>)"

text \<open>
  The steps.  A request makes its next call only while its timeout \<open>T\<close> has not passed; it may be
  dropped at any time, by the timeout or because the client is gone.  Other programs may change
  the table within its invariant.  Redis may drop entries, and drops one at the latest when its
  time to live has passed: that is what \<open>SETEX\<close> documents.
\<close>

inductive world_step :: "('e \<Rightarrow> 'd user_repository) \<Rightarrow> 'c user_cache \<Rightarrow> unicode \<Rightarrow> ('d \<Rightarrow> bool) \<Rightarrow> ('c \<Rightarrow> bool)
    \<Rightarrow> ('c \<Rightarrow> user_id \<Rightarrow> user option) \<Rightarrow> u64 \<Rightarrow> nat \<Rightarrow> ('d, 'c) world \<Rightarrow> ('d, 'c) world \<Rightarrow> bool"
  for R :: "'e \<Rightarrow> 'd user_repository" and C :: "'c user_cache" and U :: unicode and dinv :: "'d \<Rightarrow> bool"
    and cinv :: "'c \<Rightarrow> bool" and cached :: "'c \<Rightarrow> user_id \<Rightarrow> user option" and ttl :: u64 and T :: nat where
  request_begins: "w_calls w n = None \<Longrightarrow>
     world_step R C U dinv cinv cached ttl T w (begin_call n (start U m disp fresh now req) w)"
| request_moves: "w_calls w n = Some (t0, x) \<Longrightarrow> in_progress x \<Longrightarrow> w_now w \<le> t0 + T \<Longrightarrow>
     world_step R C U dinv cinv cached ttl T w (step_call (R e) C cached ttl n t0 x w)"
| request_ends: "world_step R C U dinv cinv cached ttl T w (w\<lparr> w_calls := (w_calls w)(n := None) \<rparr>)"
| table_changes: "dinv d \<Longrightarrow>
     world_step R C U dinv cinv cached ttl T w (w\<lparr> w_db := d, w_history := (w_now w, d) # w_history w \<rparr>)"
| time_passes: "w_now w \<le> t \<Longrightarrow> cinv c \<Longrightarrow>
     (\<And>k. cached c k = cached (w_cache w) k \<or> cached c k = None) \<Longrightarrow>
     (\<And>k. cached c k \<noteq> None \<Longrightarrow> t \<le> w_written w k + unat ttl) \<Longrightarrow>
     world_step R C U dinv cinv cached ttl T w
       (w\<lparr> w_now := t, w_cache := c, w_history := (t, w_db w) # w_history w \<rparr>)"

definition world_start :: "'d \<Rightarrow> 'c \<Rightarrow> ('d, 'c) world" where
  "world_start d c = \<lparr> w_db = d, w_cache = c, w_now = 0, w_calls = (\<lambda>_. None), w_history = [(0, d)],
     w_written = (\<lambda>_. 0), w_answers = [] \<rparr>"

inductive world_reach :: "('e \<Rightarrow> 'd user_repository) \<Rightarrow> 'c user_cache \<Rightarrow> unicode \<Rightarrow> ('d \<Rightarrow> bool) \<Rightarrow> ('c \<Rightarrow> bool)
    \<Rightarrow> ('c \<Rightarrow> user_id \<Rightarrow> user option) \<Rightarrow> u64 \<Rightarrow> nat \<Rightarrow> ('d, 'c) world \<Rightarrow> bool"
  for R :: "'e \<Rightarrow> 'd user_repository" and C :: "'c user_cache" and U :: unicode and dinv :: "'d \<Rightarrow> bool"
    and cinv :: "'c \<Rightarrow> bool" and cached :: "'c \<Rightarrow> user_id \<Rightarrow> user option" and ttl :: u64 and T :: nat where
  reach_start: "dinv d \<Longrightarrow> cinv c \<Longrightarrow> (\<And>k. cached c k = None) \<Longrightarrow>
     world_reach R C U dinv cinv cached ttl T (world_start d c)"
| reach_step: "world_reach R C U dinv cinv cached ttl T w \<Longrightarrow> world_step R C U dinv cinv cached ttl T w w' \<Longrightarrow>
     world_reach R C U dinv cinv cached ttl T w'"

text \<open>A user was in the table at some instant since \<open>t\<close>.\<close>

definition held_since :: "('d \<Rightarrow> user_id \<Rightarrow> user option) \<Rightarrow> ('d, 'c) world \<Rightarrow> nat \<Rightarrow> user_id \<Rightarrow> user \<Rightarrow> bool" where
  "held_since stored w t i u \<longleftrightarrow> (\<exists>(t', d) \<in> set (w_history w). t \<le> t' \<and> stored d i = Some u)"

lemma held_since_mono:
  "held_since stored w t i u \<Longrightarrow> set (w_history w) \<subseteq> set (w_history w') \<Longrightarrow> t' \<le> t \<Longrightarrow> held_since stored w' t' i u"
  unfolding held_since_def case_prod_unfold by (meson le_trans subsetD)

section \<open>What every reachable world keeps\<close>

text \<open>Every user in flight, in the cache or shown was in the table not too long ago.\<close>

definition call_fresh :: "unicode \<Rightarrow> ('d \<Rightarrow> user_id \<Rightarrow> user option) \<Rightarrow> ('d, 'c) world \<Rightarrow> nat \<Rightarrow> user_call \<Rightarrow> bool" where
  "call_fresh U stored w t0 x \<longleftrightarrow>
     (case carried x of None \<Rightarrow> True
      | Some u \<Rightarrow> valid_user U u \<and> u_id u = subject x \<and> held_since stored w t0 (subject x) u) \<and>
     (case x of
        UpdateDb i email name \<Rightarrow> valid_email U email \<and> valid_display_name name
      | CreateDb u job \<Rightarrow> valid_user U u
      | _ \<Rightarrow> True)"

lemma call_fresh_mono:
  "call_fresh U stored w t0 x \<Longrightarrow> set (w_history w) \<subseteq> set (w_history w') \<Longrightarrow> call_fresh U stored w' t0 x"
  unfolding call_fresh_def by (auto split: option.splits intro: held_since_mono)

lemma call_fresh_intro:
  assumes "\<And>u. carried x = Some u \<Longrightarrow> valid_user U u \<and> u_id u = subject x \<and> held_since stored w t0 (subject x) u"
    and "\<And>i em n. x \<noteq> UpdateDb i em n" and "\<And>u j. x \<noteq> CreateDb u j"
  shows "call_fresh U stored w t0 x"
  using assms unfolding call_fresh_def by (cases x) (simp_all, blast+)

lemma start_fresh: "call_fresh U stored w t0 (start U m disp fresh now req)"
  by (cases req)
    (auto simp: call_fresh_def start_update_def start_create_def Let_def valid_email_def valid_display_name_def
        intro: valid_user_new split: sum.split)

definition world_ok :: "unicode \<Rightarrow> ('d \<Rightarrow> bool) \<Rightarrow> ('d \<Rightarrow> user_id \<Rightarrow> user option) \<Rightarrow> ('c \<Rightarrow> bool)
    \<Rightarrow> ('c \<Rightarrow> user_id \<Rightarrow> user option) \<Rightarrow> u64 \<Rightarrow> nat \<Rightarrow> ('d, 'c) world \<Rightarrow> bool" where
  "world_ok U dinv stored cinv cached ttl T w \<longleftrightarrow>
     dinv (w_db w) \<and> cinv (w_cache w) \<and> (w_now w, w_db w) \<in> set (w_history w) \<and>
     (\<forall>(t, d) \<in> set (w_history w). t \<le> w_now w \<and> dinv d) \<and>
     (\<forall>k u. cached (w_cache w) k = Some u \<longrightarrow>
        u_id u = k \<and> w_now w \<le> w_written w k + unat ttl \<and> held_since stored w (w_written w k - T) k u) \<and>
     (\<forall>n t0 x. w_calls w n = Some (t0, x) \<longrightarrow> t0 \<le> w_now w \<and> call_fresh U stored w t0 x) \<and>
     (\<forall>(t, i, u) \<in> set (w_answers w). u_id u = i \<and> held_since stored w (t - (unat ttl + T)) i u)"

text \<open>One call of a request, whatever the others did before it.\<close>

lemma advance_cache_call:
  assumes "advance R C ttl (x, d, c) = (y, d', c')"
  shows "c' = c \<or> (\<exists>i. c' = snd (c_get C i c)) \<or> (\<exists>u. carried x = Some u \<and> c' = snd (c_set C u ttl c)) \<or>
    (\<exists>i. c' = snd (c_delete C i c))"
proof (cases x)
  case (GetCache i)
  with assms have "c' = snd (c_get C i c)" by (auto split: prod.splits)
  then show ?thesis by blast
next
  case (UpdateFill i u)
  with assms have "c' = snd (c_set C u ttl c)" by (auto split: prod.splits)
  with UpdateFill show ?thesis by simp
qed (use assms in \<open>auto split: prod.splits\<close>)

lemma advance_later:
  "advance R C ttl (x, d, c) = (y, d', c') \<Longrightarrow> y = UpdateDb i em n \<Longrightarrow> False"
  "advance R C ttl (x, d, c) = (y, d', c') \<Longrightarrow> y = CreateDb u j \<Longrightarrow> False"
  by (cases x; auto split: prod.splits sum.splits option.splits if_splits)+

context user_service begin

lemma fill_frame:
  assumes "cinv c" and "valid_user U u"
  shows "cached (snd (c_set C u ttl c)) k = cached c k \<or> cached (snd (c_set C u ttl c)) k = None \<or>
    cached (snd (c_set C u ttl c)) k = Some u \<and> k = u_id u"
  using set_frame [OF assms, of ttl k] by blast

lemma advance_cache:
  assumes "cinv c" and "call_fresh U st w t0 x"
    and "advance R C ttl (x, d, c) = (y, d', c')"
  shows "cinv c' \<and> (cached c' k = cached c k \<or> cached c' k = None \<or>
    (\<exists>u. carried x = Some u \<and> cached c' k = Some u \<and> k = u_id u))"
  using advance_cache_call [OF assms(3)]
proof (elim disjE exE conjE)
  fix u
  assume u: "carried x = Some u" "c' = snd (c_set C u ttl c)"
  with assms(2) have "valid_user U u" by (simp add: call_fresh_def)
  with fill_frame [OF assms(1) this, of ttl k] set_inv [OF assms(1)] u show ?thesis by blast
next
  fix i
  assume "c' = snd (c_get C i c)"
  with get_inv [OF assms(1), of i] get_frame [OF assms(1), of i k] show ?thesis by auto
next
  fix i
  assume "c' = snd (c_delete C i c)"
  with evict_inv [OF assms(1), of i] evict_frame [OF assms(1), of i k] show ?thesis by auto
qed (use assms(1) in simp)

lemma advance_db:
  assumes "inv d" and "call_fresh U st w t0 x" and "advance R C ttl (x, d, c) = (y, d', c')"
  shows "inv d' \<and> (\<forall>u. carried y = Some u \<longrightarrow> subject y = subject x \<and>
      (carried x = Some u \<or> stored d' (subject x) = Some u))"
proof (cases x)
  case (GetDb i)
  obtain r d1 where run: "r_find_by_id R i d = (r, d1)" by fastforce
  with find_inv [OF assms(1), of i] find_ok [OF assms(1)] assms(3) GetDb show ?thesis
    by (auto split: sum.splits option.splits)
next
  case (UpdateDb i em n)
  obtain r d1 where run: "r_update R i em n d = (r, d1)" by fastforce
  have v: "valid_email U em" "valid_display_name n" using assms(2) UpdateDb by (simp_all add: call_fresh_def)
  from run update_inv [OF assms(1) v, of i] update_ok [OF assms(1) v] assms(3) UpdateDb show ?thesis
    by (auto split: sum.splits)
next
  case (DeleteDb i)
  obtain r d1 where run: "r_delete R i d = (r, d1)" by fastforce
  with delete_inv [OF assms(1), of i] assms(3) DeleteDb show ?thesis
    by (auto split: sum.splits if_splits)
next
  case (CreateDb u j)
  obtain r d1 where run: "r_create_with_job R u j d = (r, d1)" by fastforce
  have v: "valid_user U u" using assms(2) CreateDb by (simp add: call_fresh_def)
  from run create_inv [OF assms(1) v, of j] create_ok [OF assms(1) v] assms(3) CreateDb show ?thesis
    by (auto split: sum.splits)
qed (use assms in \<open>auto split: prod.splits sum.splits option.splits\<close>)

lemma advance_shown:
  assumes "cinv c" and "advance R C ttl (x, d, c) = (y, d', c')" and "in_progress x" and "shown y = Some u"
  shows "carried x = Some u \<or> cached c (subject x) = Some u"
  using assms get_ok [OF assms(1)]
  by (cases x) (auto split: prod.splits sum.splits option.splits if_splits)

end

lemma in_progress_iff: "in_progress x \<longleftrightarrow> (\<nexists>r. x = Finished r)"
  by (cases x) auto

locale overlapping_requests =
  fixes R :: "'e \<Rightarrow> 'd user_repository" and dinv :: "'d \<Rightarrow> bool"
    and stored :: "'d \<Rightarrow> user_id \<Rightarrow> user option" and U :: unicode and C :: "'c user_cache"
    and cinv :: "'c \<Rightarrow> bool" and cached :: "'c \<Rightarrow> user_id \<Rightarrow> user option"
  assumes service: "user_service (R e) dinv stored U C cinv cached"
begin

abbreviation ok :: "u64 \<Rightarrow> nat \<Rightarrow> ('d, 'c) world \<Rightarrow> bool" where
  "ok \<equiv> world_ok U dinv stored cinv cached"

lemma stored_id: "dinv d \<Longrightarrow> stored d i = Some u \<Longrightarrow> u_id u = i \<and> valid_user U u"
  using user_service.axioms(1) [OF service] user_repository_contract.stored_id user_repository_contract.stored_valid
  by metis

lemma held_id:
  "ok ttl T w \<Longrightarrow> held_since stored w t i u \<Longrightarrow> u_id u = i \<and> valid_user U u"
  unfolding world_ok_def held_since_def using stored_id by blast

lemma move_calls:
  assumes "ok ttl T w" and "w_calls w n = Some (t0, x)"
    and run: "advance (R e) C ttl (x, w_db w, w_cache w) = (y, d, c)"
    and h: "set (w_history w') = insert (w_now w, d) (set (w_history w))"
  shows "dinv d \<and> t0 \<le> w_now w \<and> call_fresh U stored w' t0 y"
proof -
  from assms(1,2) have x: "call_fresh U stored w t0 x" "t0 \<le> w_now w" and db: "dinv (w_db w)"
    by (auto simp: world_ok_def)
  from user_service.advance_db [OF service db x(1) run]
  have d: "dinv d" and sub: "\<And>u. carried y = Some u \<Longrightarrow> subject y = subject x \<and>
      (carried x = Some u \<or> stored d (subject x) = Some u)" by blast+
  have "valid_user U u \<and> u_id u = subject y \<and> held_since stored w' t0 (subject y) u" if y: "carried y = Some u" for u
  proof (cases "carried x = Some u")
    case True
    with x(1) have "valid_user U u \<and> u_id u = subject x \<and> held_since stored w t0 (subject x) u"
      by (simp add: call_fresh_def)
    with held_since_mono [of stored w t0 "subject x" u w' t0] h sub [OF y] show ?thesis by auto
  next
    case False
    with sub [OF y] have s: "stored d (subject x) = Some u" "subject y = subject x" by auto
    then have "held_since stored w' t0 (subject x) u"
      unfolding held_since_def using h x(2) by force
    with s stored_id [OF d s(1)] show ?thesis by simp
  qed
  moreover have "y \<noteq> UpdateDb i em m" "y \<noteq> CreateDb u j" for i em m u j
    using advance_later [OF run] by blast+
  ultimately show ?thesis
    using d x(2) call_fresh_intro [of y U stored w' t0] by blast
qed

lemma move_cache:
  assumes "ok ttl T w" and "w_calls w n = Some (t0, x)" and "w_now w \<le> t0 + T"
    and run: "advance (R e) C ttl (x, w_db w, w_cache w) = (y, d, c)"
    and "cached c k = Some u"
  shows "u_id u = k \<and>
    (if carried x \<noteq> None \<and> cached c k = carried x then held_since stored w (w_now w - T) k u
     else w_now w \<le> w_written w k + unat ttl \<and> held_since stored w (w_written w k - T) k u)"
proof -
  from assms(1,2) have x: "call_fresh U stored w t0 x" and c: "cinv (w_cache w)"
    and old: "\<And>k u. cached (w_cache w) k = Some u \<Longrightarrow>
        u_id u = k \<and> w_now w \<le> w_written w k + unat ttl \<and> held_since stored w (w_written w k - T) k u"
    by (auto simp: world_ok_def)
  have new: "u_id v = subject x \<and> held_since stored w (w_now w - T) (subject x) v" if "carried x = Some v" for v
    using x assms(3) that held_since_mono [of stored w t0 "subject x" v w "w_now w - T"]
    by (simp add: call_fresh_def)
  from user_service.advance_cache [OF service c x run, of k] assms(5)
  consider "cached (w_cache w) k = Some u" | "carried x = Some u" "k = u_id u" by auto
  then show ?thesis
  proof cases
    case 1
    from old [OF this] have "u_id u = k" by blast
    with old [OF 1] new [of u] assms(5) show ?thesis by auto
  next
    case 2
    with new [of u] assms(5) show ?thesis by auto
  qed
qed

lemma move_answer:
  assumes "ok ttl T w" and "w_calls w n = Some (t0, x)" and "w_now w \<le> t0 + T" and "in_progress x"
    and run: "advance (R e) C ttl (x, w_db w, w_cache w) = (y, d, c)" and "shown y = Some u"
  shows "u_id u = subject x \<and> held_since stored w (w_now w - (unat ttl + T)) (subject x) u"
proof -
  from assms(1,2) have x: "call_fresh U stored w t0 x" and c: "cinv (w_cache w)"
    and old: "\<And>k u. cached (w_cache w) k = Some u \<Longrightarrow>
        u_id u = k \<and> w_now w \<le> w_written w k + unat ttl \<and> held_since stored w (w_written w k - T) k u"
    by (auto simp: world_ok_def)
  note mono = held_since_mono [of stored w _ "subject x" u w "w_now w - (unat ttl + T)"]
  from user_service.advance_shown [OF service c run assms(4,6)] show ?thesis
  proof
    assume "carried x = Some u"
    with x have "u_id u = subject x \<and> held_since stored w t0 (subject x) u" by (simp add: call_fresh_def)
    with assms(3) mono [of t0] show ?thesis by simp
  next
    assume "cached (w_cache w) (subject x) = Some u"
    from old [OF this] have "w_now w - (unat ttl + T) \<le> w_written w (subject x) - T" by linarith
    with old [OF \<open>cached (w_cache w) (subject x) = Some u\<close>] mono show ?thesis by blast
  qed
qed

lemma ok_intro:
  assumes "dinv (w_db w)" and "cinv (w_cache w)" and "(w_now w, w_db w) \<in> set (w_history w)"
    and "\<And>t d. (t, d) \<in> set (w_history w) \<Longrightarrow> t \<le> w_now w \<and> dinv d"
    and "\<And>k u. cached (w_cache w) k = Some u \<Longrightarrow>
        u_id u = k \<and> w_now w \<le> w_written w k + unat ttl \<and> held_since stored w (w_written w k - T) k u"
    and "\<And>n t0 x. w_calls w n = Some (t0, x) \<Longrightarrow> t0 \<le> w_now w \<and> call_fresh U stored w t0 x"
    and "\<And>t i u. (t, i, u) \<in> set (w_answers w) \<Longrightarrow> u_id u = i \<and> held_since stored w (t - (unat ttl + T)) i u"
  shows "ok ttl T w"
  using assms unfolding world_ok_def by auto

lemma ok_elim:
  assumes "ok ttl T w"
  obtains "dinv (w_db w)" and "cinv (w_cache w)" and "(w_now w, w_db w) \<in> set (w_history w)"
    and "\<And>t d. (t, d) \<in> set (w_history w) \<Longrightarrow> t \<le> w_now w \<and> dinv d"
    and "\<And>k u. cached (w_cache w) k = Some u \<Longrightarrow>
        u_id u = k \<and> w_now w \<le> w_written w k + unat ttl \<and> held_since stored w (w_written w k - T) k u"
    and "\<And>n t0 x. w_calls w n = Some (t0, x) \<Longrightarrow> t0 \<le> w_now w \<and> call_fresh U stored w t0 x"
    and "\<And>t i u. (t, i, u) \<in> set (w_answers w) \<Longrightarrow> u_id u = i \<and> held_since stored w (t - (unat ttl + T)) i u"
  using assms unfolding world_ok_def by blast

lemma move_keeps:
  assumes ok: "ok ttl T w" and n: "w_calls w n = Some (t0, x)" and x: "in_progress x" and t0: "w_now w \<le> t0 + T"
  shows "ok ttl T (step_call (R e) C cached ttl n t0 x w)"
proof -
  obtain y d c where run: "advance (R e) C ttl (x, w_db w, w_cache w) = (y, d, c)" by (metis prod_cases3)
  define w' where "w' = step_call (R e) C cached ttl n t0 x w"
  have sel: "w_db w' = d" "w_cache w' = c" "w_now w' = w_now w" "w_history w' = (w_now w, d) # w_history w"
    "w_calls w' = (w_calls w)(n \<mapsto> (t0, y))"
    "w_written w' = (\<lambda>k. if carried x \<noteq> None \<and> cached c k = carried x then w_now w else w_written w k)"
    "w_answers w' = (case shown y of None \<Rightarrow> w_answers w | Some u \<Rightarrow> (w_now w, subject x, u) # w_answers w)"
    by (simp_all add: w'_def step_call_def run)
  have later: "held_since stored w t i u \<Longrightarrow> held_since stored w' t i u" for t i u
    by (rule held_since_mono) (auto simp: sel)
  have "ok ttl T w'"
  proof (rule ok_intro)
    from move_calls [OF ok n run, of w'] show "dinv (w_db w')" by (simp add: sel)
    from ok have "cinv (w_cache w)" "call_fresh U stored w t0 x" using n by (auto simp: world_ok_def)
    from user_service.advance_cache [OF service this run] show "cinv (w_cache w')" by (simp add: sel)
    show "(w_now w', w_db w') \<in> set (w_history w')" by (simp add: sel)
    show "t \<le> w_now w' \<and> dinv d'" if "(t, d') \<in> set (w_history w')" for t d'
      using that ok \<open>dinv (w_db w')\<close> by (auto simp: sel world_ok_def)
    show "u_id u = k \<and> w_now w' \<le> w_written w' k + unat ttl \<and> held_since stored w' (w_written w' k - T) k u"
      if "cached (w_cache w') k = Some u" for k u
      using move_cache [OF ok n t0 run that [unfolded sel]] later by (auto simp: sel split: if_splits)
    show "t1 \<le> w_now w' \<and> call_fresh U stored w' t1 z" if m: "w_calls w' m = Some (t1, z)" for m t1 z
    proof (cases "m = n")
      case True
      with m move_calls [OF ok n run, of w'] show ?thesis by (simp add: sel)
    next
      case False
      with m ok have "t1 \<le> w_now w \<and> call_fresh U stored w t1 z" by (simp add: sel world_ok_def)
      then show ?thesis using call_fresh_mono [of U stored w t1 z w'] by (auto simp: sel)
    qed
    show "u_id u = i \<and> held_since stored w' (t - (unat ttl + T)) i u" if "(t, i, u) \<in> set (w_answers w')" for t i u
    proof (cases "(t, i, u) \<in> set (w_answers w)")
      case True
      with ok later show ?thesis by (auto simp: world_ok_def)
    next
      case False
      with that have "shown y = Some u" "t = w_now w" "i = subject x" by (auto simp: sel split: option.splits)
      with move_answer [OF ok n t0 x run] later show ?thesis by blast
    qed
  qed
  then show ?thesis by (simp add: w'_def)
qed

text \<open>The steps that make no call.\<close>

lemma quiet_keeps:
  assumes ok: "ok ttl T w" and h: "set (w_history w) \<subseteq> set (w_history w')"
    and now: "w_now w \<le> w_now w'" "(w_now w', w_db w') \<in> set (w_history w')"
    and hist: "\<And>t d. (t, d) \<in> set (w_history w') \<Longrightarrow> t \<le> w_now w' \<and> dinv d"
    and c: "cinv (w_cache w')" "\<And>k u. cached (w_cache w') k = Some u \<Longrightarrow>
        cached (w_cache w) k = Some u \<and> w_now w' \<le> w_written w k + unat ttl"
    and same: "w_written w' = w_written w" "w_answers w' = w_answers w"
    and calls: "\<And>n t0 x. w_calls w' n = Some (t0, x) \<Longrightarrow>
        w_calls w n = Some (t0, x) \<or> t0 \<le> w_now w' \<and> call_fresh U stored w' t0 x"
  shows "ok ttl T w'"
proof (rule ok_intro)
  have later: "held_since stored w t i u \<Longrightarrow> held_since stored w' t i u" for t i u
    by (erule held_since_mono) (use h in simp_all)
  show "dinv (w_db w')" using now(2) hist by blast
  show "cinv (w_cache w')" "(w_now w', w_db w') \<in> set (w_history w')" by (rule c(1), rule now(2))
  show "t \<le> w_now w' \<and> dinv d" if "(t, d) \<in> set (w_history w')" for t d by (rule hist [OF that])
  show "u_id u = k \<and> w_now w' \<le> w_written w' k + unat ttl \<and> held_since stored w' (w_written w' k - T) k u"
    if "cached (w_cache w') k = Some u" for k u
    using c(2) [OF that] ok later unfolding same world_ok_def by blast
  show "t0 \<le> w_now w' \<and> call_fresh U stored w' t0 x" if "w_calls w' n = Some (t0, x)" for n t0 x
    using calls [OF that]
  proof
    assume "w_calls w n = Some (t0, x)"
    with ok have "t0 \<le> w_now w" "call_fresh U stored w t0 x" by (auto simp: world_ok_def)
    with now(1) call_fresh_mono [OF _ h] show ?thesis by (meson le_trans)
  qed
  show "u_id u = i \<and> held_since stored w' (t - (unat ttl + T)) i u" if "(t, i, u) \<in> set (w_answers w')" for t i u
    using that ok later unfolding same world_ok_def by blast
qed

lemma step_keeps:
  assumes "world_step R C U dinv cinv cached ttl T w w'" and "ok ttl T w"
  shows "ok ttl T w'"
  using assms
proof (cases rule: world_step.cases)
  case (request_begins n m disp fresh now req)
  from assms(2) show ?thesis
    by (rule quiet_keeps)
      (use assms(2) in \<open>auto simp: request_begins begin_call_def world_ok_def start_fresh split: if_splits\<close>)
next
  case (request_moves n t0 x e)
  with move_keeps [OF assms(2) request_moves(2-4)] show ?thesis by simp
next
  case (request_ends n)
  from assms(2) show ?thesis
    by (rule quiet_keeps) (use assms(2) in \<open>auto simp: request_ends world_ok_def split: if_splits\<close>)
next
  case (table_changes d)
  from assms(2) show ?thesis
    by (rule quiet_keeps) (use assms(2) in \<open>auto simp: table_changes world_ok_def\<close>)
next
  case (time_passes t c)
  have "dinv (w_db w)" "\<And>s d. (s, d) \<in> set (w_history w) \<Longrightarrow> s \<le> t \<and> dinv d"
    using assms(2) time_passes(2) unfolding world_ok_def by fastforce+
  moreover have "cached (w_cache w) k = Some u \<and> t \<le> w_written w k + unat ttl" if "cached c k = Some u" for k u
  proof
    show "cached (w_cache w) k = Some u" using time_passes(4) [of k] that by auto
    show "t \<le> w_written w k + unat ttl" using time_passes(5) [of k] that by auto
  qed
  ultimately show ?thesis
    using assms(2) time_passes(2,3) by (intro quiet_keeps [of ttl T w w']) (auto simp: time_passes(1))
qed

lemma reach_ok: "world_reach R C U dinv cinv cached ttl T w \<Longrightarrow> ok ttl T w"
proof (induction rule: world_reach.induct)
  case (reach_start d c)
  then show ?case by (auto simp: world_ok_def world_start_def)
next
  case (reach_step w w')
  with step_keeps show ?case by blast
qed

lemma answers_fresh:
  assumes "world_reach R C U dinv cinv cached ttl T w" and "(t, i, u) \<in> set (w_answers w)"
  shows "u_id u = i \<and> (\<exists>(t', d) \<in> set (w_history w). t \<le> t' + unat ttl + T \<and> stored d i = Some u)"
proof -
  from reach_ok [OF assms(1)] assms(2) have "u_id u = i" "held_since stored w (t - (unat ttl + T)) i u"
    unfolding world_ok_def by blast+
  moreover have "t - (unat ttl + T) \<le> s \<Longrightarrow> t \<le> s + unat ttl + T" for s by simp
  ultimately show ?thesis unfolding held_since_def case_prod_unfold by blast
qed

end

section \<open>The service\<close>

text \<open>The repositories of the calls differ in their clock, fresh identifier and trace only.\<close>

definition pg_repository :: "unicode \<Rightarrow> timestamp \<times> uuid \<times> json \<Rightarrow> pg user_repository" where
  "pg_repository U e = (case e of (now, fresh, trace) \<Rightarrow> pg_user_repository U now fresh trace)"

interpretation overlap: overlapping_requests "pg_repository U" "pg_users_ok U" stored_users U
    "redis_user_cache K U" "redis_cinv K U" "cached_users K U" for U K
  by (rule overlapping_requests.intro) (simp add: pg_repository_def svc.user_service_axioms split: prod.split)

definition service_reach :: "unicode \<Rightarrow> codec \<Rightarrow> u64 \<Rightarrow> nat \<Rightarrow> (pg, redis) world \<Rightarrow> bool" where
  "service_reach U K = world_reach (pg_repository U) (redis_user_cache K U) U (pg_users_ok U) (redis_cinv K U) (cached_users K U)"

text \<open>
  C5. No answer is older than the time to live and one request.  However requests overlap, in
  one process or in several, whoever else writes the table, and whatever Redis and the
  connections do: a user a client is shown has the identifier asked for, and the table held
  exactly this user at some instant at most the time to live of the cache plus the request
  timeout before.  Nothing a client sees was never stored.
\<close>

theorem answers_boundedly_stale:
  assumes "service_reach U K ttl T w" and "(t, i, u) \<in> set (w_answers w)"
  shows "u_id u = i \<and> (\<exists>(t', d) \<in> set (w_history w). t \<le> t' + unat ttl + T \<and> stored_users d i = Some u)"
  using overlap.answers_fresh assms unfolding service_reach_def .

text \<open>
  A read and a deletion that overlap: the read finds the user, the deletion removes the row and
  the entry, and then the read stores the user in the cache.  A later read shows the deleted
  user.
\<close>

definition race_move :: "nat \<Rightarrow> (pg, redis) world \<Rightarrow> (pg, redis) world" where
  "race_move n w = (case w_calls w n of None \<Rightarrow> w
   | Some (t0, x) \<Rightarrow> step_call (pg_repository sample_unicode (0, 9, JNull)) (redis_user_cache sample_codec sample_unicode)
       (cached_users sample_codec sample_unicode) 60 n t0 x w)"

definition race_begin :: "nat \<Rightarrow> client_request \<Rightarrow> (pg, redis) world \<Rightarrow> (pg, redis) world" where
  "race_begin n req = begin_call n (start sample_unicode 5 (\<lambda>i. [unat i]) 9 0 req)"

definition race_wait :: "nat \<Rightarrow> (pg, redis) world \<Rightarrow> (pg, redis) world" where
  "race_wait t w = w\<lparr> w_now := t, w_history := (t, w_db w) # w_history w \<rparr>"

definition race :: "(pg, redis) world" where
  "race = race_move 3 (race_begin 3 (GetRequest (UserId 2)) (race_wait 45
     (race_move 1 (race_move 2 (race_move 2 (race_begin 2 (DeleteRequest (UserId 2))
       (race_move 1 (race_move 1 (race_begin 1 (GetRequest (UserId 2)) (world_start sample_users sample_redis))))))))))"

lemma race_steps:
  "service_reach sample_unicode sample_codec 60 30 w \<Longrightarrow> w_calls w n = None \<Longrightarrow>
     service_reach sample_unicode sample_codec 60 30 (race_begin n req w)"
  "service_reach sample_unicode sample_codec 60 30 w \<Longrightarrow>
     \<exists>t0 x. w_calls w n = Some (t0, x) \<and> in_progress x \<and> w_now w \<le> t0 + 30 \<Longrightarrow>
     service_reach sample_unicode sample_codec 60 30 (race_move n w)"
  "service_reach sample_unicode sample_codec 60 30 w \<Longrightarrow> w_now w \<le> t \<Longrightarrow> t \<le> 60 \<Longrightarrow>
     redis_cinv sample_codec sample_unicode (w_cache w) \<Longrightarrow>
     service_reach sample_unicode sample_codec 60 30 (race_wait t w)"
proof -
  let ?step = "world_step (pg_repository sample_unicode) (redis_user_cache sample_codec sample_unicode)
    sample_unicode (pg_users_ok sample_unicode) (redis_cinv sample_codec sample_unicode)
    (cached_users sample_codec sample_unicode) 60 30"
  show "service_reach sample_unicode sample_codec 60 30 (race_wait t w)"
    if "service_reach sample_unicode sample_codec 60 30 w" "w_now w \<le> t" "t \<le> 60"
      "redis_cinv sample_codec sample_unicode (w_cache w)"
  proof -
    have "?step w (w\<lparr> w_now := t, w_cache := w_cache w, w_history := (t, w_db w) # w_history w \<rparr>)"
      by (rule time_passes) (use that in simp_all)
    with that(1) show ?thesis unfolding service_reach_def race_wait_def by (auto intro: reach_step)
  qed
  show "service_reach sample_unicode sample_codec 60 30 (race_begin n req w)"
    if "service_reach sample_unicode sample_codec 60 30 w" "w_calls w n = None"
    using that unfolding service_reach_def race_begin_def by (blast intro: reach_step request_begins)
  show "service_reach sample_unicode sample_codec 60 30 (race_move n w)"
    if r: "service_reach sample_unicode sample_codec 60 30 w"
      and m: "\<exists>t0 x. w_calls w n = Some (t0, x) \<and> in_progress x \<and> w_now w \<le> t0 + 30"
  proof -
    from m obtain t0 x where "w_calls w n = Some (t0, x)" "in_progress x" "w_now w \<le> t0 + 30" by blast
    with r show ?thesis
      unfolding service_reach_def race_move_def by (auto intro: reach_step request_moves)
  qed
qed

lemmas race_eval = race_move_def race_begin_def race_wait_def step_call_def begin_call_def world_start_def
  pg_repository_def

lemma race_reached: "service_reach sample_unicode sample_codec 60 30 race"
proof -
  have ok: "redis_cinv sample_codec sample_unicode c" for c
    by (simp add: redis_cinv_def sample_codec_ok sample_unicode_stable)
  have "service_reach sample_unicode sample_codec 60 30 (world_start sample_users sample_redis)"
    unfolding service_reach_def
    by (rule reach_start) (simp_all add: sample_users_ok ok cached_users_def sample_redis_def)
  then show ?thesis
    unfolding race_def
    by (intro race_steps ok) (simp_all add: race_eval service_eval string_eval)
qed

lemma race_outcome:
  "w_answers race = [(45, UserId 2, user_of_row (sample_row 2 (lit ''b@x.org'') 3000)),
     (0, UserId 2, user_of_row (sample_row 2 (lit ''b@x.org'') 3000))]"
  "stored_users (w_db race) (UserId 2) = None"
  "w_calls race 2 = Some (0, Finished (Inr None))"
  by (simp_all add: race_def race_eval service_eval string_eval sample_codec_def decode_cached_def
      sample_to_json_def sample_from_json_def cached_user_from_def cached_user_try_into_def stored_users_def
      user_at_def user_of_row_def)

theorem answers_boundedly_stale_witness:
  "stored_users (w_db race) (UserId 2) = None \<and> w_calls race 2 = Some (0, Finished (Inr None)) \<and>
   (\<exists>u. (45, UserId 2, u) \<in> set (w_answers race) \<and>
      (\<exists>(t', d) \<in> set (w_history race). 45 \<le> t' + 60 + 30 \<and> stored_users d (UserId 2) = Some u))"
proof -
  let ?u = "user_of_row (sample_row 2 (lit ''b@x.org'') 3000)"
  have u: "(45, UserId 2, ?u) \<in> set (w_answers race)" by (simp add: race_outcome)
  from answers_boundedly_stale [OF race_reached u] u race_outcome(2,3) show ?thesis by auto
qed

end
