(* ===== verification/User_Repository_Spec.thy ===== *)
theory User_Repository_Spec
  imports User_Service
begin

text \<open>
  What the documents promise of the user repository: a map from identifiers to users in which no two
  users have the same address and an update with a stale version is refused.  The calls of
  \<open>user_repository.rs\<close> are proved to be the operations of this store, whatever the connection
  does, in every sequence of calls without a stale update: an answer is the answer of the store,
  and a call that reports \<open>Unavailable\<close> left the store as it was or had its whole effect.  On a
  stale update code and documents differ (the code has no version check); nothing is claimed there.
\<close>

section \<open>The store\<close>

text \<open>
  The first timestamp of an update is the version its client has read, which the documents make
  part of the operation; the code's \<open>update\<close> has no such argument.
\<close>

datatype user_op =
    FindCall user_id
  | UpdateCall user_id timestamp email display_name
  | DeleteCall user_id
  | CreateCall user user_creation_job

datatype user_reply =
    Found "user option"
  | Updated user
  | Deleted bool
  | Created user
  | Refused repository_error
  | Conflict

type_synonym user_store = "user_id \<rightharpoonup> user"

definition email_used :: "user_store \<Rightarrow> user_id \<Rightarrow> email \<Rightarrow> bool" where
  "email_used m i em \<longleftrightarrow> (\<exists>k u. k \<noteq> i \<and> m k = Some u \<and> u_email u = em)"

text \<open>A stored user: the timestamps in microseconds.\<close>

definition as_stored :: "user \<Rightarrow> user" where
  "as_stored u = u\<lparr> u_created_at := pg_timestamp (u_created_at u), u_updated_at := pg_timestamp (u_updated_at u) \<rparr>"

fun store_answer :: "timestamp \<Rightarrow> user_op \<Rightarrow> user_store \<Rightarrow> user_reply \<times> user_store" where
  "store_answer now (FindCall i) m = (Found (m i), m)"
| "store_answer now (UpdateCall i seen em n) m = (case m i of
     None \<Rightarrow> (Refused RepositoryNotFound, m)
   | Some u \<Rightarrow>
       if u_updated_at u \<noteq> seen then (Conflict, m)
       else if email_used m i em then (Refused DuplicateEmail, m)
       else let u' = u\<lparr> u_email := em, u_display_name := n, u_updated_at := pg_timestamp now \<rparr> in
         (Updated u', m(i \<mapsto> u')))"
| "store_answer now (DeleteCall i) m = (Deleted (m i \<noteq> None), m(i := None))"
| "store_answer now (CreateCall u job) m =
     (if m (u_id u) \<noteq> None then (Refused RepositoryUnavailable, m)
      else if email_used m (u_id u) (u_email u) then (Refused DuplicateEmail, m)
      else (Created (as_stored u), m(u_id u \<mapsto> as_stored u)))"

text \<open>The answer of the store, or an unavailable database before or after the effect.\<close>

definition store_step :: "timestamp \<Rightarrow> user_op \<Rightarrow> user_store \<Rightarrow> user_reply \<Rightarrow> user_store \<Rightarrow> bool" where
  "store_step now x m r m' \<longleftrightarrow> (r, m') = store_answer now x m \<or>
     r = Refused RepositoryUnavailable \<and> (m' = m \<or> m' = snd (store_answer now x m))"

section \<open>The calls of the repository\<close>

text \<open>The version is not passed on.\<close>

fun repository_call :: "'d user_repository \<Rightarrow> user_op \<Rightarrow> 'd \<Rightarrow> user_reply \<times> 'd" where
  "repository_call R (FindCall i) d = map_prod (case_sum Refused Found) id (r_find_by_id R i d)"
| "repository_call R (UpdateCall i seen em n) d = map_prod (case_sum Refused Updated) id (r_update R i em n d)"
| "repository_call R (DeleteCall i) d = map_prod (case_sum Refused Deleted) id (r_delete R i d)"
| "repository_call R (CreateCall u job) d = map_prod (case_sum Refused Created) id (r_create_with_job R u job d)"

fun op_valid :: "unicode \<Rightarrow> user_op \<Rightarrow> bool" where
  "op_valid U (FindCall i) = True"
| "op_valid U (UpdateCall i seen em n) = (valid_email U em \<and> valid_display_name n)"
| "op_valid U (DeleteCall i) = True"
| "op_valid U (CreateCall u job) = valid_user U u"

text \<open>The version of an update is still the stored one.\<close>

fun is_current :: "user_op \<Rightarrow> user_store \<Rightarrow> bool" where
  "is_current (UpdateCall i seen em n) m = (case m i of None \<Rightarrow> True | Some u \<Rightarrow> u_updated_at u = seen)"
| "is_current _ m = True"

section \<open>Statements and store\<close>

lemma user_call_cases:
  assumes "op_bind (op_map_err repository_error_from_sqlx (exec st)) k db = (r, db')"
  obtains (ran) fs v db1 where "st (db\<lparr> faults := fs \<rparr>) = (v, db1)"
      and "case v of Inl e \<Rightarrow> r = Inl (repository_error_from_sqlx e) \<and> db' = db1 | Inr x \<Rightarrow> k x db1 = (r, db')"
    | (lost) fs where "r = Inl RepositoryUnavailable" and "db' = db\<lparr> faults := fs \<rparr>"
    | (unacked) fs where "r = Inl RepositoryUnavailable" and "db' = snd (st (db\<lparr> faults := fs \<rparr>))"
proof (cases rule: exec_cases [of st db])
  case (ran fs)
  obtain v db1 where "st (db\<lparr> faults := fs \<rparr>) = (v, db1)" by fastforce
  with ran assms(1) show thesis
    by (intro that(1) [of fs v db1]) (cases v; simp add: op_bind_def op_map_err_def)+
qed (use assms that(2,3) in \<open>auto simp: op_bind_def op_map_err_def repository_error_from_sqlx_def\<close>)

lemma user_at_row:
  assumes "pg_users_ok U db" and "r \<in> set (users db)"
  shows "user_at db (ur_id r) = Some r"
proof -
  have "distinct (map ur_id xs) \<Longrightarrow> r \<in> set xs \<Longrightarrow> find (\<lambda>x. ur_id x = ur_id r) xs = Some r" for xs
    by (induction xs) force+
  from this [OF _ assms(2)] assms(1) show ?thesis by (simp add: pg_users_ok_def user_at_def)
qed

lemma email_taken_used:
  assumes "pg_users_ok U db"
  shows "email_taken db (as_uuid i) (email_str em) \<longleftrightarrow> email_used (stored_users db) i em"
proof
  assume "email_taken db (as_uuid i) (email_str em)"
  then obtain r where r: "r \<in> set (users db)" "ur_id r \<noteq> as_uuid i" "ur_email r = email_str em"
    by (auto simp: email_taken_def)
  from user_at_row [OF assms r(1)] have "user_at db (ur_id r) = Some r" .
  then show "email_used (stored_users db) i em"
    unfolding email_used_def using r
    by (intro exI [of _ "UserId (ur_id r)"] exI [of _ "user_of_row r"])
      (auto simp: stored_users_def user_of_row_def user_restore_def)
next
  assume "email_used (stored_users db) i em"
  then obtain k r where "k \<noteq> i" "user_at db (as_uuid k) = Some r" "u_email (user_of_row r) = em"
    by (auto simp: email_used_def stored_users_def)
  then show "email_taken db (as_uuid i) (email_str em)"
    using user_at_Some [of db "as_uuid k" r]
    by (cases k; cases i) (auto simp: email_taken_def user_of_row_def user_restore_def)
qed

lemma find_call:
  assumes "pg_users_ok U db" and "pg_find_by_id U i db = (r, db')"
  shows "store_step now (FindCall i) (stored_users db) (case_sum Refused Found r) (stored_users db')"
  using find_result [OF assms] find_keeps_stored [of U i db] assms(2)
  by (auto simp: store_step_def)

lemma delete_call:
  assumes "pg_users_ok U db" and "pg_delete i db = (r, db')"
  shows "store_step now (DeleteCall i) (stored_users db) (case_sum Refused Deleted r) (stored_users db')"
proof (cases "r = Inl RepositoryUnavailable")
  case False
  with delete_result [OF assms] show ?thesis by (auto simp: store_step_def)
next
  case True
  have gone: "stored_users (snd (delete_user_stmt (as_uuid i) (db\<lparr> faults := fs \<rparr>))) = (stored_users db)(i := None)" for fs
  proof (rule ext)
    fix k show "stored_users (snd (delete_user_stmt (as_uuid i) (db\<lparr> faults := fs \<rparr>))) k = ((stored_users db)(i := None)) k"
      using user_at_filter [where db = "db\<lparr> faults := fs \<rparr>" and i = "as_uuid i"]
      by (cases k; cases i) (auto simp: stored_users_def delete_user_stmt_def)
  qed
  from assms(2) show ?thesis
    unfolding pg_delete_def
  proof (cases rule: user_call_cases)
    case (ran fs v db1)
    with True show ?thesis by (auto simp: delete_user_stmt_def lift_result_def)
  next
    case (unacked fs)
    with gone show ?thesis by (simp add: store_step_def)
  qed (simp add: store_step_def)
qed

lemma update_stmt_store:
  assumes "pg_users_ok U db" and "valid_email U em" and "valid_display_name n"
    and "pg_text_ok (email_str em) \<and> pg_text_ok (name_str n)"
    and "is_current (UpdateCall i seen em n) (stored_users db)"
    and "update_user_stmt (as_uuid i) (email_str em) (name_str n) now db = (v, db')"
  shows "store_answer now (UpdateCall i seen em n) (stored_users db) =
     (case v of Inl e \<Rightarrow> Refused (repository_error_from_sqlx e)
      | Inr x \<Rightarrow> case_sum Refused Updated (and_then (ok_or RepositoryNotFound x) (user_into_domain U)), stored_users db')"
proof (cases "user_at db (as_uuid i)")
  case None
  with assms(4,6) show ?thesis by (auto simp: update_user_stmt_eq stored_users_def)
next
  case (Some x)
  let ?x = "x\<lparr> ur_email := email_str em, ur_display_name := name_str n, ur_updated_at := pg_timestamp now \<rparr>"
  have stored: "stored_users db i = Some (user_of_row x)" using Some by (simp add: stored_users_def)
  with assms(5) have seen: "u_updated_at (user_of_row x) = seen" by simp
  show ?thesis
  proof (cases "email_taken db (as_uuid i) (email_str em)")
    case True
    with Some stored seen assms(4,6) email_taken_used [OF assms(1), of i em] show ?thesis
      by (auto simp: update_user_stmt_eq email_violation_def repository_error_from_sqlx_def)
  next
    case False
    have id: "ur_id ?x = as_uuid i" using user_at_Some [OF Some] by simp
    have "user_row_ok U ?x"
      using assms(1-3) email_parse_reparse [of U em] display_name_reparse [of n]
      by (simp add: user_row_ok_def pg_users_ok_def)
    moreover have "user_of_row ?x =
        (user_of_row x)\<lparr> u_email := em, u_display_name := n, u_updated_at := pg_timestamp now \<rparr>"
      by (simp add: user_of_row_def user_restore_def)
    moreover from False Some assms(4,6) have "v = Inr (Some ?x)"
      "db' = db\<lparr> users := map (\<lambda>y. if ur_id y = as_uuid i then ?x else y) (users db) \<rparr>"
      by (auto simp: update_user_stmt_eq Let_def)
    ultimately show ?thesis
      using stored seen False email_taken_used [OF assms(1), of i em] stored_users_update [OF Some id]
      by (simp add: Let_def user_into_domain_ok)
  qed
qed

lemma update_call:
  assumes "pg_users_ok U db" and v: "valid_email U em" "valid_display_name n"
    and cur: "is_current (UpdateCall i seen em n) (stored_users db)"
    and "pg_update U now i em n db = (r, db')"
  shows "store_step now (UpdateCall i seen em n) (stored_users db) (case_sum Refused Updated r) (stored_users db')"
proof (cases "pg_text_ok (email_str em) \<and> pg_text_ok (name_str n)")
  case False
  from assms(5) show ?thesis
    unfolding pg_update_def
    by (cases rule: user_call_cases)
      (use False in \<open>auto simp: store_step_def update_user_stmt_eq repository_error_from_sqlx_def\<close>)
next
  case True
  have ok: "pg_users_ok U (db\<lparr> faults := fs \<rparr>)" for fs using assms(1) by simp
  have cur: "is_current (UpdateCall i seen em n) (stored_users (db\<lparr> faults := fs \<rparr>))" for fs using cur by simp
  from assms(5) show ?thesis
    unfolding pg_update_def
  proof (cases rule: user_call_cases)
    case (ran fs v db1)
    with update_stmt_store [OF ok v True cur ran(1)] show ?thesis
      by (auto simp: store_step_def lift_result_def split: sum.splits)
  next
    case (unacked fs)
    with update_stmt_store [OF ok [of fs] v True cur [of fs] prod.collapse [symmetric], where now = now] show ?thesis
      by (auto simp: store_step_def)
  qed (simp add: store_step_def)
qed

lemma exec_Inl:
  "exec st db = (Inl e, db') \<Longrightarrow> e = OtherSqlxError \<or> (\<exists>fs. st (db\<lparr> faults := fs \<rparr>) = (Inl e, db'))"
  by (rule exec_cases [of st db]) auto

lemma email_unique_name:
  "\<not> repository_error_from_sqlx (DatabaseError True (Some (lit ''users_pkey''))) = DuplicateEmail"
  "\<not> repository_error_from_sqlx (DatabaseError True (Some (lit ''background_jobs_pkey''))) = DuplicateEmail"
  by (simp_all add: repository_error_from_sqlx_def)

lemma from_sqlx_cases:
  "repository_error_from_sqlx e = RepositoryUnavailable \<or> repository_error_from_sqlx e = DuplicateEmail"
  by (simp add: repository_error_from_sqlx_def split: sqlx_error.split)

lemma insert_user_duplicate:
  assumes "insert_user_stmt u db = (Inl e, db')" and "repository_error_from_sqlx e = DuplicateEmail"
  shows "as_uuid (u_id u) \<notin> ur_id ` set (users db) \<and> email_taken db (as_uuid (u_id u)) (email_str (u_email u))"
  using assms email_unique_name
  by (auto simp: insert_user_stmt_def Let_def inserted_user_def repository_error_from_sqlx_def split: if_splits)

lemma insert_job_no_duplicate:
  "insert_job j m db = (Inl e, db') \<Longrightarrow> repository_error_from_sqlx e \<noteq> DuplicateEmail"
  by (auto simp: insert_job_def Let_def check_violation_def repository_error_from_sqlx_def split: if_splits)

lemma create_duplicate:
  assumes "pg_create_with_job U fresh trace u job db = (Inl e, db')" and "pg_users_ok U db" and "valid_user U u"
  shows "e = RepositoryUnavailable \<or> e = DuplicateEmail \<and>
    as_uuid (u_id u) \<notin> ur_id ` set (users db) \<and> email_taken db (as_uuid (u_id u)) (email_str (u_email u))"
proof (cases "validate_max_attempts (uj_max_attempts job)")
  case None
  with assms(1) show ?thesis by (simp add: pg_create_with_job_def)
next
  case (Some m)
  let ?j = "with_trace_context trace (new_job_new fresh (uj_job_type job) (uj_payload job) (uj_max_attempts job))"
  obtain b db0 where b: "exec begin_stmt db = (b, db0)" by fastforce
  obtain c db1 where c: "exec (insert_user_stmt u) db0 = (c, db1)" by fastforce
  obtain d db2 where d: "exec (insert_job ?j m) db1 = (d, db2)" by fastforce
  obtain f db3 where f: "exec (commit_stmt db2) (rolled_back db0 db2) = (f, db3)" by fastforce
  note run = assms(1) [unfolded pg_create_with_job_def Some option.case Let_def b prod.case]
  have other: "repository_error_from_sqlx OtherSqlxError = RepositoryUnavailable"
    by (simp add: repository_error_from_sqlx_def)
  have row: "user_into_domain U (inserted_user u) = Inr (user_of_row (inserted_user u))"
    using valid_user_row assms(2,3) user_into_domain_ok by (simp add: pg_users_ok_def)
  have db0: "users db0 = users db"
    by (rule exec_cases [of begin_stmt db]) (use b in \<open>auto simp: begin_stmt_def\<close>)
  show ?thesis
  proof (cases b)
    case (Inl x)
    with exec_Inl b have "x = OtherSqlxError" by (fastforce simp: begin_stmt_def)
    with run Inl other show ?thesis by simp
  next
    case (Inr x)
    note run = run [unfolded Inr sum.case c prod.case]
    show ?thesis
    proof (cases c)
      case (Inl x)
      with run have e: "e = repository_error_from_sqlx x" by simp
      from exec_Inl [OF c [unfolded Inl]] show ?thesis
      proof
        assume "\<exists>fs. insert_user_stmt u (db0\<lparr> faults := fs \<rparr>) = (Inl x, db1)"
        with insert_user_duplicate [of u _ x db1] from_sqlx_cases [of x] e db0 show ?thesis
          by (fastforce simp: email_taken_def)
      qed (use e other in simp)
    next
      case (Inr created)
      note run = run [unfolded Inr sum.case d prod.case]
      from exec_Inr [OF c [unfolded Inr]] insert_user_result have created: "created = inserted_user u" by blast
      show ?thesis
      proof (cases d)
        case (Inl x)
        with run have "e = repository_error_from_sqlx x" by simp
        with exec_Inl [OF d [unfolded Inl]] insert_job_no_duplicate from_sqlx_cases [of x] other show ?thesis
          by metis
      next
        case (Inr y)
        note run = run [unfolded Inr sum.case f prod.case]
        show ?thesis
        proof (cases f)
          case (Inl x)
          with exec_Inl f have "x = OtherSqlxError" by (fastforce simp: commit_stmt_def)
          with run Inl other show ?thesis by simp
        qed (use run created row in simp)
      qed
    qed
  qed
qed

lemma create_call:
  assumes "pg_users_ok U db" and u: "valid_user U u" and run: "pg_create_with_job U fresh trace u job db = (r, db')"
  shows "store_step now (CreateCall u job) (stored_users db) (case_sum Refused Created r) (stored_users db')"
proof -
  have free: "as_uuid (u_id u) \<notin> ur_id ` set (users db) \<longleftrightarrow> stored_users db (u_id u) = None"
    by (simp add: stored_users_def user_at_None)
  note taken = email_taken_used [OF assms(1), of "u_id u" "u_email u"]
  have kept: "user_of_row (inserted_user u) = as_stored u"
    by (cases "u_id u"; cases "u_email u"; cases "u_display_name u")
      (simp add: user_of_row_def user_restore_def inserted_user_def as_stored_def)
  from run show ?thesis
  proof (cases rule: pg_create_cases)
    case (rolled_back fs e)
    with create_duplicate [OF run [unfolded rolled_back(2)] assms(1) u] free taken show ?thesis
      by (auto simp: store_step_def)
  next
    case (committed fs m)
    have row: "user_into_domain U (inserted_user u) = Inr (as_stored u)"
      using valid_user_row assms(1) u user_into_domain_ok kept by (simp add: pg_users_ok_def)
    have id: "ur_id (inserted_user u) = as_uuid (u_id u)" "ur_email (inserted_user u) = email_str (u_email u)"
      by (simp_all add: inserted_user_def)
    have "stored_users db' k = ((stored_users db)(u_id u \<mapsto> as_stored u)) k" for k
      using user_at_append [of db "inserted_user u" "as_uuid k"] committed(3) kept
      by (cases k; cases "u_id u")
        (auto simp: stored_users_def committed(1) user_at_def id user_at_None [symmetric, unfolded user_at_def]
          split: option.splits)
    then have "stored_users db' = (stored_users db)(u_id u \<mapsto> as_stored u)" ..
    with committed(3-5) row free taken id show ?thesis by (auto simp: store_step_def)
  qed
qed

lemma call_refines:
  assumes "pg_users_ok U db" and "op_valid U x" and "is_current x (stored_users db)"
    and "repository_call (pg_user_repository U now fresh trace) x db = (r, db')"
  shows "pg_users_ok U db' \<and> store_step now x (stored_users db) r (stored_users db')"
proof (cases x)
  case (FindCall i)
  with assms(4) obtain q where "pg_find_by_id U i db = (q, db')" "r = case_sum Refused Found q"
    by (auto simp: pg_user_repository_def map_prod_def split: prod.splits)
  with find_call [OF assms(1)] op_keepsD [OF keeps_users_ok(1), of U db i] assms(1) FindCall show ?thesis by auto
next
  case (UpdateCall i seen em n)
  with assms(2) have v: "valid_email U em" "valid_display_name n" by simp_all
  from UpdateCall assms(3) have cur: "is_current (UpdateCall i seen em n) (stored_users db)" by simp
  from UpdateCall assms(4) obtain q where "pg_update U now i em n db = (q, db')" "r = case_sum Refused Updated q"
    by (auto simp: pg_user_repository_def map_prod_def split: prod.splits)
  with update_call [OF assms(1) v cur] op_keepsD [OF keeps_users_ok(4) [OF v], of db now i] assms(1) UpdateCall
  show ?thesis by auto
next
  case (DeleteCall i)
  with assms(4) obtain q where "pg_delete i db = (q, db')" "r = case_sum Refused Deleted q"
    by (auto simp: pg_user_repository_def map_prod_def split: prod.splits)
  with delete_call [OF assms(1)] op_keepsD [OF keeps_users_ok(3), of U db i] assms(1) DeleteCall show ?thesis by auto
next
  case (CreateCall u job)
  with assms(2) have v: "valid_user U u" by simp
  from CreateCall assms(4) obtain q where
    "pg_create_with_job U fresh trace u job db = (q, db')" "r = case_sum Refused Created q"
    by (auto simp: pg_user_repository_def map_prod_def split: prod.splits)
  with create_call [OF assms(1) v] create_result(1) [OF assms(1) v] CreateCall show ?thesis by blast
qed

section \<open>Sequences of calls\<close>

text \<open>The calls of any clients, in the order the database ran them, with the inputs of each.\<close>

fun run_calls :: "unicode \<Rightarrow> (timestamp \<times> uuid \<times> json \<times> user_op) list \<Rightarrow> pg \<Rightarrow> user_reply list \<times> pg" where
  "run_calls U [] db = ([], db)"
| "run_calls U ((now, fresh, trace, x) # calls) db =
     (case repository_call (pg_user_repository U now fresh trace) x db of (r, db1) \<Rightarrow>
      case run_calls U calls db1 of (rs, db2) \<Rightarrow> (r # rs, db2))"

text \<open>No update of the sequence is stale when the database runs it.\<close>

fun no_stale_update :: "unicode \<Rightarrow> (timestamp \<times> uuid \<times> json \<times> user_op) list \<Rightarrow> pg \<Rightarrow> bool" where
  "no_stale_update U [] db = True"
| "no_stale_update U ((now, fresh, trace, x) # calls) db =
     (is_current x (stored_users db) \<and>
      no_stale_update U calls (snd (repository_call (pg_user_repository U now fresh trace) x db)))"

inductive store_run :: "(timestamp \<times> user_op) list \<Rightarrow> user_store \<Rightarrow> user_reply list \<Rightarrow> user_store \<Rightarrow> bool" where
  store_idle: "store_run [] m [] m"
| store_calls: "store_step now x m r m1 \<Longrightarrow> store_run xs m1 rs m2 \<Longrightarrow> store_run ((now, x) # xs) m (r # rs) m2"

definition unique_emails :: "user_store \<Rightarrow> bool" where
  "unique_emails m \<longleftrightarrow> (\<forall>i u. m i = Some u \<longrightarrow> \<not> email_used m i (u_email u))"

lemma stored_emails_unique:
  assumes "pg_users_ok U db"
  shows "unique_emails (stored_users db)"
proof -
  have "\<not> email_taken db (as_uuid i) (email_str (u_email u))" if "stored_users db i = Some u" for i u
  proof -
    from that obtain r where r: "user_at db (as_uuid i) = Some r" "u = user_of_row r"
      by (auto simp: stored_users_def)
    have "ur_id s = ur_id r" if "s \<in> set (users db)" "ur_email s = ur_email r" for s
      using assms user_at_Some [OF r(1)] that unfolding pg_users_ok_def by (metis inj_onD distinct_map)
    with user_at_Some [OF r(1)] show ?thesis by (auto simp: email_taken_def r user_of_row_def user_restore_def)
  qed
  then show ?thesis using email_taken_used [OF assms] by (auto simp: unique_emails_def)
qed

lemma run_refines:
  assumes "pg_users_ok U db" and "\<forall>(now, fresh, trace, x) \<in> set calls. op_valid U x"
    and "no_stale_update U calls db" and "run_calls U calls db = (rs, db')"
  shows "pg_users_ok U db' \<and> store_run (map (\<lambda>(now, fresh, trace, x). (now, x)) calls) (stored_users db) rs (stored_users db')"
  using assms
proof (induction calls arbitrary: db rs)
  case Nil
  then show ?case by (auto intro: store_idle)
next
  case (Cons call calls)
  obtain now fresh trace x where call: "call = (now, fresh, trace, x)" by (cases call)
  obtain r db1 where one: "repository_call (pg_user_repository U now fresh trace) x db = (r, db1)" by fastforce
  obtain qs db2 where rest: "run_calls U calls db1 = (qs, db2)" by fastforce
  from Cons.prems(4) one rest have eq: "rs = r # qs" "db2 = db'" by (auto simp: call)
  from Cons.prems(2) have "op_valid U x" by (simp add: call)
  moreover from Cons.prems(3) one have "is_current x (stored_users db)" and stale: "no_stale_update U calls db1"
    by (simp_all add: call)
  ultimately show ?case
    using call_refines [OF Cons.prems(1) _ _ one] Cons.IH [of db1 qs] rest eq Cons.prems(2) stale
    by (auto simp: call intro: store_calls)
qed

text \<open>
  C8. The user repository is a map with unique addresses.  Whatever the connection does, every
  sequence of the calls of the PostgreSQL adapter in which no update is stale answers as the
  documented store: a lookup returns the stored user or nobody, an update whose client has read the
  current version replaces address and name of the user, a creation adds a user whose identifier
  and address are free, an address in use is refused exactly when the store has it at another
  user, and a call that reports \<open>Unavailable\<close> had its whole effect or none.
\<close>

theorem user_calls_refine_store:
  assumes "pg_users_ok U db" and "\<forall>(now, fresh, trace, x) \<in> set calls. op_valid U x"
    and "no_stale_update U calls db" and "run_calls U calls db = (rs, db')"
  shows "store_run (map (\<lambda>(now, fresh, trace, x). (now, x)) calls) (stored_users db) rs (stored_users db') \<and>
     unique_emails (stored_users db')"
  using run_refines [OF assms] stored_emails_unique by blast

definition sample_calls :: "(timestamp \<times> uuid \<times> json \<times> user_op) list" where
  "sample_calls =
    [(5000, 9, JNull, UpdateCall (UserId 2) 3000 (Email (lit ''a@x.org'')) (DisplayName (lit ''Grace''))),
     (6000, 9, JNull, DeleteCall (UserId 1)),
     (7000, 9, JNull, UpdateCall (UserId 2) 3000 (Email (lit ''a@x.org'')) (DisplayName (lit ''Grace''))),
     (8000, 9, JNull, FindCall (UserId 1))]"

definition sample_replies :: "user_reply list" where
  "sample_replies = [Refused DuplicateEmail, Deleted True,
     Updated \<lparr> u_id = UserId 2, u_email = Email (lit ''a@x.org''), u_display_name = DisplayName (lit ''Grace''),
       u_created_at = 3000, u_updated_at = 7000 \<rparr>, Found None]"

theorem user_calls_refine_store_witness:
  "\<exists>m. store_run (map (\<lambda>(now, fresh, trace, x). (now, x)) sample_calls) (stored_users sample_users) sample_replies m \<and>
     unique_emails m"
proof -
  let ?run = "run_calls sample_unicode sample_calls sample_users"
  have em: "email_parse sample_unicode (lit ''a@x.org'') = Inr (Email (lit ''a@x.org''))"
    and n: "display_name_parse (lit ''Grace'') = Inr (DisplayName (lit ''Grace''))"
    by (simp_all add: email_parse_def display_name_parse_def string_eval)
  then have v: "\<forall>(now, fresh, trace, x) \<in> set sample_calls. op_valid sample_unicode x"
    unfolding sample_calls_def by (auto simp: valid_email_def valid_display_name_def simp del: lit_simps)
  have r: "?run = (sample_replies, snd ?run)"
    by (simp add: sample_calls_def sample_replies_def service_eval string_eval email_violation_def
          repository_error_from_sqlx_def)
  have "no_stale_update sample_unicode sample_calls sample_users"
    by (simp add: sample_calls_def service_eval string_eval stored_users_def user_at_def email_violation_def
          repository_error_from_sqlx_def user_of_row_def user_restore_def)
  from user_calls_refine_store [OF sample_users_ok v this r] show ?thesis by blast
qed

end
