(* ===== verification/Commands.thy ===== *)
theory Commands
  imports Bootstrap
begin

text \<open>
  The database commands as the program runs them, \<open>src/bootstrap/database.rs\<close>: \<open>db migrate\<close>,
  \<open>db info\<close>, \<open>db revert\<close> over one connection, and \<open>migration:create\<close>.  The database is a state
  of any type; what PostgreSQL and sqlx's migrator do with it is a parameter.
\<close>

section \<open>The commands\<close>

record 'w database =
  dw_connects :: "rstring \<Rightarrow> 'w \<Rightarrow> bool"
  dw_ledger :: "'w \<Rightarrow> ledger"
  dw_run :: "migration list \<Rightarrow> 'w \<Rightarrow> bool \<times> 'w"
  dw_undo :: "migration list \<Rightarrow> int \<Rightarrow> 'w \<Rightarrow> bool \<times> 'w"

definition connect :: "env \<Rightarrow> 'w database \<Rightarrow> ('w, boot_error, unit) op" where
  "connect E D w =
     (and_then (map_err BadConfig (migration_database_url_from_env E)) (\<lambda>database_url.
        ensure (dw_connects D database_url w) DatabaseUnreachable), w)"

definition migrate :: "env \<Rightarrow> 'w database \<Rightarrow> migration list \<Rightarrow> ('w, boot_error, unit) op" where
  "migrate E D ms = op_bind (connect E D) (\<lambda>_ w.
     case dw_run D ms w of (applied, w') \<Rightarrow> (ensure applied MigrationFailed, w'))"

definition info_command :: "env \<Rightarrow> 'w database \<Rightarrow> migration list \<Rightarrow> ('w, boot_error, unit) op" where
  "info_command E D ms = op_bind (connect E D) (\<lambda>_ w.
     (map_err DatabaseCommandFailed (map_ok (\<lambda>_. ()) (info ms (dw_ledger D w))), w))"

text \<open>Without \<open>--yes\<close> the command ends before it connects.\<close>

definition revert_command :: "env \<Rightarrow> 'w database \<Rightarrow> migration list \<Rightarrow> bool \<Rightarrow> ('w, boot_error, unit) op" where
  "revert_command E D ms confirmed =
     (if \<not> confirmed then lift_result (Inl (DatabaseCommandFailed NotConfirmed))
      else op_bind (connect E D) (\<lambda>_ w.
        case revert ms confirmed (dw_ledger D w) of
          Inl e \<Rightarrow> (Inl (DatabaseCommandFailed e), w)
        | Inr (latest_version, target) \<Rightarrow>
            (case dw_undo D ms target w of (undone, w') \<Rightarrow> (ensure undone MigrationFailed, w'))))"

definition database_run :: "env \<Rightarrow> 'w database \<Rightarrow> migration list \<Rightarrow> database_command \<Rightarrow> ('w, boot_error, unit) op" where
  "database_run E D ms c = (case c of
     Migrate \<Rightarrow> migrate E D ms
   | Info \<Rightarrow> info_command E D ms
   | Revert yes \<Rightarrow> revert_command E D ms yes)"

text \<open>The version is the time of the call, as \<open>%Y%m%d%H%M%S\<close>; the paths are printed.\<close>

definition create_migration :: "rstring \<Rightarrow> rstring \<Rightarrow> (directory, boot_error, rstring list) op" where
  "create_migration time name = (case parse_i64 time of
     None \<Rightarrow> lift_result (Inl TimeUnreadable)
   | Some version \<Rightarrow> op_map_err DatabaseCommandFailed (create_migration_file name version))"

section \<open>What changes the database\<close>

lemma connect_same: "snd (connect E D w) = w"
  by (simp add: connect_def)

lemma database_run_cases:
  assumes "database_run E D ms c w = (r, w')"
  obtains (same) "w' = w"
    | (migrated) "c = Migrate" and "fst (connect E D w) = Inr ()" and "w' = snd (dw_run D ms w)"
        and "is_ok r \<longleftrightarrow> fst (dw_run D ms w)"
    | (reverted) latest target where "c = Revert True" and "fst (connect E D w) = Inr ()"
        and "revert ms True (dw_ledger D w) = Inr (latest, target)" and "w' = snd (dw_undo D ms target w)"
        and "is_ok r \<longleftrightarrow> fst (dw_undo D ms target w)"
proof -
  obtain x where con: "connect E D w = (x, w)" by (metis connect_same prod.collapse)
  show thesis
  proof (cases x)
    case (Inl e)
    with con assms have "w' = w"
      by (auto simp: database_run_def migrate_def info_command_def revert_command_def op_bind_def lift_result_def
          split: database_command.splits if_splits)
    then show thesis by (rule same)
  next
    case (Inr u)
    show thesis
    proof (cases c)
      case Migrate
      with Inr con assms show thesis
        by (intro migrated) (auto simp: database_run_def migrate_def op_bind_def ensure_def is_ok_iff
            split: prod.splits if_splits)
    next
      case Info
      with Inr con assms show thesis
        by (intro same) (auto simp: database_run_def info_command_def op_bind_def)
    next
      case (Revert confirmed)
      show thesis
      proof (cases "confirmed \<and> is_ok (revert ms True (dw_ledger D w))")
        case True
        then obtain latest target where rv: "revert ms True (dw_ledger D w) = Inr (latest, target)"
          by (auto simp: is_ok_iff)
        with True Revert Inr con assms show thesis
          by (intro reverted [OF _ _ rv]) (auto simp: database_run_def revert_command_def op_bind_def ensure_def is_ok_iff
              split: prod.splits if_splits)
      next
        case False
        with Revert Inr con assms show thesis
          by (intro same) (auto simp: database_run_def revert_command_def op_bind_def lift_result_def is_ok_iff
              split: sum.splits if_splits prod.splits)
      qed
    qed
  qed
qed

text \<open>
  C31. A database command changes only what it names.  If \<open>db \<dots>\<close> changed the database, a connection to
  the configured migration address was made, and either it was \<open>migrate\<close>, which ran the embedded
  migrations and nothing else, or it was \<open>revert\<close> with the confirmation: then the latest applied
  version has a down migration, and the target handed to the migrator leaves exactly this version
  to be undone.  \<open>info\<close> never changes anything.
\<close>

theorem database_commands_guarded:
  assumes "database_run E D ms c w = (r, w')" and "w' \<noteq> w"
    and "lg_rows (dw_ledger D w) = Inr rows" and "distinct (map am_version rows)" and "\<forall>r \<in> set rows. 0 < am_version r"
  shows "(\<exists>url. migration_database_url_from_env E = Inr url \<and> dw_connects D url w) \<and>
     (c = Migrate \<and> w' = snd (dw_run D ms w) \<or>
      c = Revert True \<and> (\<exists>latest target. w' = snd (dw_undo D ms target w) \<and>
        (\<exists>m \<in> set ms. mg_version m = latest \<and> is_down_migration m) \<and>
        filter (\<lambda>v. target < v) (applied_versions rows) = [latest] \<and>
        (\<forall>r \<in> set rows. am_success r \<longrightarrow> am_version r \<le> latest)))"
proof -
  have url: "\<exists>url. migration_database_url_from_env E = Inr url \<and> dw_connects D url w"
    if "fst (connect E D w) = Inr ()"
    using that by (auto simp: connect_def ensure_def result_simps split: if_splits)
  from assms(1) show ?thesis
  proof (cases rule: database_run_cases)
    case (reverted latest target)
    from revert_undoes_one [OF reverted(3) assms(3-5)] reverted url show ?thesis by blast
  qed (use assms(2) url in auto)
qed

text \<open>A database that is its ledger: undoing removes the rows above the target.\<close>

definition sample_database :: "ledger database" where
  "sample_database = \<lparr> dw_connects = (\<lambda>_ _. True), dw_ledger = (\<lambda>g. g), dw_run = (\<lambda>ms g. (True, g)),
     dw_undo = (\<lambda>ms target g. (True, g\<lparr> lg_rows := map_ok (filter (\<lambda>r. am_version r \<le> target)) (lg_rows g) \<rparr>)) \<rparr>"

definition sample_migration_env :: env where
  "sample_migration_env name = (if name = lit ''DATABASE_URL'' then Inr (lit ''postgres://x'') else Inl NotPresent)"

theorem database_commands_guarded_witness:
  "\<exists>url. migration_database_url_from_env sample_migration_env = Inr url \<and>
     (\<exists>m \<in> set sample_migrations. mg_version m = 2 \<and> is_down_migration m) \<and>
     lg_rows (snd (database_run sample_migration_env sample_database sample_migrations (Revert True) sample_ledger)) =
       Inr [\<lparr> am_version = 1, am_success = True, am_checksum = [1] \<rparr>]"
proof -
  let ?run = "database_run sample_migration_env sample_database sample_migrations (Revert True) sample_ledger"
  have con: "connect sample_migration_env sample_database sample_ledger = (Inr (), sample_ledger)"
    by (simp add: connect_def migration_database_url_from_env_def sample_migration_env_def optional_def required_def
        sample_database_def ensure_def string_eval)
  have rv: "revert sample_migrations True sample_ledger = Inr (2, 1)"
    by (simp add: revert_def sample_ledger_def applied_versions_def sample_rows_def sample_migrations_def is_down_migration_def)
  have sel: "dw_ledger sample_database g = g" "dw_undo sample_database ms target g =
      (True, g\<lparr> lg_rows := map_ok (filter (\<lambda>r. am_version r \<le> target)) (lg_rows g) \<rparr>)" for g ms target
    by (simp_all add: sample_database_def)
  have rows: "lg_rows (snd ?run) = Inr [\<lparr> am_version = 1, am_success = True, am_checksum = [1] \<rparr>]"
    by (simp add: database_run_def revert_command_def op_bind_def con sel rv)
      (simp add: sample_ledger_def sample_rows_def)
  have run: "?run = (fst ?run, snd ?run)" by simp
  have changed: "snd ?run \<noteq> sample_ledger"
    using rows by (auto simp: sample_ledger_def sample_rows_def)
  have g: "lg_rows (dw_ledger sample_database sample_ledger) = Inr sample_rows"
    by (simp add: sample_database_def sample_ledger_def)
  have d: "distinct (map am_version sample_rows)" "\<forall>r \<in> set sample_rows. 0 < am_version r"
    by (simp_all add: sample_rows_def)
  from database_commands_guarded [OF run changed g d] obtain url latest target where
    "migration_database_url_from_env sample_migration_env = Inr url"
    and "\<exists>m \<in> set sample_migrations. mg_version m = latest \<and> is_down_migration m"
    and "filter (\<lambda>v. target < v) (applied_versions sample_rows) = [latest]" by auto
  moreover from this(3) have "latest = 2"
    by (auto simp: applied_versions_def sample_rows_def split: if_splits)
  ultimately show ?thesis using rows by blast
qed

end
