(* ===== verification/Shutdown.thy ===== *)
theory Shutdown
  imports Bootstrap
begin

text \<open>
  From an operating system signal to the end of the processes: \<open>notify_on_signal\<close> and
  \<open>os_signal\<close> of \<open>src/bootstrap/shutdown.rs\<close>, the channel each mode of \<open>src/bootstrap/mod.rs\<close>
  builds from them, and the last part of \<open>src/bootstrap/http.rs\<close>.
\<close>

section \<open>Signals\<close>

text \<open>
  When each signal arrives, if it does, and whether its handler can be installed.  Other
  systems than Unix have no \<open>SIGTERM\<close>: there the second future is \<open>pending()\<close>.
\<close>

record os_events =
  os_unix :: bool
  os_ctrl_c :: "instant option"
  os_terminate :: "instant option"
  os_ctrl_c_installs :: bool
  os_terminate_installs :: bool

datatype signal_end = Signalled instant | HandlerPanicked | NeverSignalled

definition os_signal :: "os_events \<Rightarrow> signal_end" where
  "os_signal os =
     (if \<not> os_ctrl_c_installs os \<or> os_unix os \<and> \<not> os_terminate_installs os then HandlerPanicked
      else case first_of (os_ctrl_c os) (if os_unix os then os_terminate os else None) of
          None \<Rightarrow> NeverSignalled
        | Some t \<Rightarrow> Signalled t)"

text \<open>
  \<open>notify_on_signal\<close> is given the only sender by \<open>run_http\<close> and \<open>run_worker\<close>: the channel closes
  when the task ends, after the request or by a panic when it starts.
\<close>

definition notify_on_signal :: "os_events \<Rightarrow> instant \<Rightarrow> receiver" where
  "notify_on_signal os started = (case os_signal os of
     Signalled t \<Rightarrow> \<lparr> rc_sent = Some (max started t), rc_closed = Some (max started t) \<rparr>
   | HandlerPanicked \<Rightarrow> \<lparr> rc_sent = None, rc_closed = Some started \<rparr>
   | NeverSignalled \<Rightarrow> \<lparr> rc_sent = None, rc_closed = None \<rparr>)"

text \<open>
  \<open>run_all\<close> keeps a second sender and requests the shutdown itself when one part has ended, so
  the channel stays open until the other part has ended too.
\<close>

definition run_all_receiver :: "os_events \<Rightarrow> instant \<Rightarrow> instant option \<Rightarrow> receiver" where
  "run_all_receiver os started other_part_ended =
     \<lparr> rc_sent = first_of (rc_sent (notify_on_signal os started)) other_part_ended, rc_closed = None \<rparr>"

section \<open>Serving until the shutdown\<close>

text \<open>
  \<open>axum::serve\<close> is given the instant at which the graceful shutdown begins and returns when it has
  ended, with or without an error.
\<close>

definition http_serve :: "('srv \<Rightarrow> instant option \<Rightarrow> bool \<times> instant) \<Rightarrow> receiver \<Rightarrow> instant
    \<Rightarrow> boot_error + 'srv \<Rightarrow> boot_error + instant" where
  "http_serve axum_serve r now prepared =
     and_then prepared (\<lambda>server. case axum_serve server (wait_until r now) of
        (served, t) \<Rightarrow> and_then (ensure served ServerFailed) (\<lambda>_. Inr t))"

section \<open>A signal ends the worker\<close>

lemma signalled_receiver:
  assumes "os_signal os = Signalled t"
  shows "rc_sent (notify_on_signal os started) = Some (max started t)"
    and "stop_seen (notify_on_signal os started) now \<longleftrightarrow> max started t \<le> now"
  using assms by (auto simp: notify_on_signal_def stop_seen_def by_time_def)

lemma os_signal_first:
  "os_signal os = Signalled t \<longleftrightarrow> os_ctrl_c_installs os \<and> (os_unix os \<longrightarrow> os_terminate_installs os) \<and>
     first_of (os_ctrl_c os) (if os_unix os then os_terminate os else None) = Some t"
  by (auto simp: os_signal_def split: option.split)

text \<open>
  C22. A signal ends the worker, and nothing ends it earlier.  With the handlers installed, the first
  of Ctrl+C and SIGTERM is turned into the request on the channel; if rounds take time and their
  runs end, the process then returns before more rounds than there are instants until the signal,
  neither a hanging clean-up nor a long pause holding it up; it does not return before the signal,
  and all its runs but the last had ended by then.
\<close>

theorem signal_stops_worker:
  assumes "os_signal os = Signalled t"
    and "\<forall>rd \<in> set rounds. 0 < rd_wake rd \<and>
       (\<forall>now db. iteration pg_job_queue (worker_of parse err fresh_id c) (rd_run rd) now db \<noteq> None)"
    and "max now t - now < length rounds"
  shows "\<exists>s db'. worker_process parse err fresh_id c (notify_on_signal os now) rounds now db = Some (s, db') \<and>
     max now t \<le> ws_now s \<and> (\<forall>(a, b) \<in> set (butlast (runs (ws_spans s))). b < max now t)"
proof -
  note sent = signalled_receiver(1) [OF assms(1), of now]
  have "worker_process parse err fresh_id c (notify_on_signal os now) rounds now db \<noteq> None"
    unfolding worker_process_def
    by (rule worker_loop_stops [OF sent assms(2)]) (use assms(3) in \<open>simp add: start_state_def\<close>)
  then obtain s db' where run: "worker_process parse err fresh_id c (notify_on_signal os now) rounds now db = Some (s, db')"
    by auto
  from worker_loop_spans [OF spans_ok_start run [unfolded worker_process_def]]
  have "max now t \<le> ws_now s" "\<forall>(a, b) \<in> set (butlast (runs (ws_spans s))). b < max now t"
    using signalled_receiver(2) [OF assms(1)] sent
    by (auto simp: spans_ok_def requested_def by_time_def)
  with run show ?thesis by blast
qed

definition sample_os :: os_events where
  "sample_os = \<lparr> os_unix = True, os_ctrl_c = None, os_terminate = Some 30, os_ctrl_c_installs = True,
     os_terminate_installs = True \<rparr>"

theorem signal_stops_worker_witness:
  "\<exists>s db'. worker_process sample_parse_uuid (\<lambda>_. []) [] sample_settings (notify_on_signal sample_os 0)
       (replicate 31 (sample_round None)) 0 sample_db = Some (s, db') \<and> 30 \<le> ws_now s"
proof -
  have os: "os_signal sample_os = Signalled 30" by (simp add: os_signal_def sample_os_def)
  have rounds: "\<forall>rd \<in> set (replicate 31 (sample_round None)). 0 < rd_wake rd \<and> (\<forall>now db. iteration pg_job_queue
      (worker_of sample_parse_uuid (\<lambda>_. []) [] sample_settings) (rd_run rd) now db \<noteq> None)"
    using sample_rounds_end by (simp add: sample_round_def)
  have len: "max 0 30 - 0 < length (replicate 31 (sample_round None))" by simp
  from signal_stops_worker [OF os rounds len, of sample_db] show ?thesis by auto
qed

text \<open>The server is told to stop at the signal as well, in every mode that serves.\<close>

lemma signal_stops_server:
  assumes "os_signal os = Signalled t" and "\<And>srv stop. fst (axum_serve srv stop)"
  shows "http_serve axum_serve (notify_on_signal os now) now (Inr srv) = Inr (snd (axum_serve srv (Some (max now t))))"
    and "http_serve axum_serve (run_all_receiver os now None) now (Inr srv) = Inr (snd (axum_serve srv (Some (max now t))))"
proof -
  obtain e where run: "axum_serve srv (Some (max now t)) = (True, e)"
    using assms(2) [of srv "Some (max now t)"] by (metis prod.collapse)
  have "wait_until (notify_on_signal os now) now = Some (max now t)"
    "wait_until (run_all_receiver os now None) now = Some (max now t)"
    using assms(1) by (simp_all add: notify_on_signal_def run_all_receiver_def wait_until_def)
  with run show "http_serve axum_serve (notify_on_signal os now) now (Inr srv) = Inr (snd (axum_serve srv (Some (max now t))))"
    and "http_serve axum_serve (run_all_receiver os now None) now (Inr srv) = Inr (snd (axum_serve srv (Some (max now t))))"
    by (simp_all add: http_serve_def ensure_def)
qed

text \<open>
  A handler that cannot be installed stops the process as well, at once and without a request: the
  panic drops the sender, and \<open>wait\<close> takes a closed channel for a shutdown.
\<close>

lemma failed_handler_stops:
  "os_signal os = HandlerPanicked \<Longrightarrow> wait_until (notify_on_signal os started) now = Some (max now started) \<and>
     \<not> requested (notify_on_signal os started) now"
  by (simp add: notify_on_signal_def wait_until_def requested_def by_time_def)

text \<open>In the all-in-one mode the same failure stops nothing: the second sender keeps the channel open.\<close>

lemma failed_handler_unnoticed:
  "os_signal os = HandlerPanicked \<Longrightarrow> wait_until (run_all_receiver os started None) now = None"
  by (simp add: run_all_receiver_def notify_on_signal_def wait_until_def)

end
