(* ===== verification/Http_Stack.thy ===== *)
theory Http_Stack
  imports Bootstrap Telemetry
begin

text \<open>
  The layers \<open>build_router\<close> of \<open>src/presentation/http/router.rs\<close> puts around the routes, in their
  order.  The layers of axum and tower-http are parameters; \<open>record_http_metrics\<close> is the
  program's own and is the one of \<open>Telemetry\<close>.  A service answers or is dropped before it does.
\<close>

section \<open>The stack\<close>

type_synonym ('ip, 's) service = "'ip request \<Rightarrow> 's \<Rightarrow> http_response awaited \<times> 's"

record ('ip, 's) tower =
  tw_sensitive :: "rstring list \<Rightarrow> ('ip, 's) service \<Rightarrow> ('ip, 's) service"
  tw_set_request_id :: "rstring \<Rightarrow> ('ip, 's) service \<Rightarrow> ('ip, 's) service"
  tw_trace :: "(http_response \<Rightarrow> unit span \<Rightarrow> unit span) \<Rightarrow> ('ip, 's) service \<Rightarrow> ('ip, 's) service"
  tw_propagate_request_id :: "rstring \<Rightarrow> ('ip, 's) service \<Rightarrow> ('ip, 's) service"
  tw_timeout :: "nat \<Rightarrow> duration \<Rightarrow> ('ip, 's) service \<Rightarrow> ('ip, 's) service"
  tw_body_limit :: "u64 \<Rightarrow> ('ip, 's) service \<Rightarrow> ('ip, 's) service"

definition request_id_header :: rstring where
  "request_id_header = lit ''x-request-id''"

definition metrics_layer :: "rstring option \<Rightarrow> ('ip, metrics \<times> 'x) service \<Rightarrow> ('ip, metrics \<times> 'x) service" where
  "metrics_layer metrics_token inner r s =
     (case inner r s of (next_run, m, x) \<Rightarrow>
      case record_http_metrics metrics_token r next_run m of (response, m') \<Rightarrow>
        (case (response, next_run) of
           (Some rsp, Ready _ elapsed) \<Rightarrow> (Ready rsp elapsed, m', x)
         | _ \<Rightarrow> (Dropped, m', x)))"

text \<open>\<open>ServiceBuilder\<close> puts its first layer outermost, \<open>Router::layer\<close> its last.\<close>

definition outer_layers :: "('ip, 's) tower \<Rightarrow> (nat \<Rightarrow> rstring) \<Rightarrow> 'net router_config
    \<Rightarrow> ('ip, 's) service \<Rightarrow> ('ip, 's) service" where
  "outer_layers W print_status c inner =
     tw_sensitive W [lit ''authorization'', lit ''cookie'']
       (tw_set_request_id W request_id_header
         (tw_trace W (on_response print_status)
           (tw_propagate_request_id W request_id_header
             (tw_timeout W 408 (from_secs (rc_request_timeout_seconds c)) inner))))"

definition router_service :: "('ip, metrics \<times> 'x) tower \<Rightarrow> (nat \<Rightarrow> rstring) \<Rightarrow> 'net router_config
    \<Rightarrow> ('ip, metrics \<times> 'x) service \<Rightarrow> ('ip, metrics \<times> 'x) service" where
  "router_service W print_status c routes =
     outer_layers W print_status c
       (metrics_layer (rc_metrics_token c) (tw_body_limit W (rc_max_request_body_bytes c) routes))"

text \<open>The routes with their own layers, answering after the time \<open>took\<close>.\<close>

definition routes :: "('d, 'c, 'k, 'net, 'ip) app_env \<Rightarrow> duration
    \<Rightarrow> ('ip, metrics \<times> ('d, 'c, 'k) app_state) service" where
  "routes E took r s = (case serve E r (snd s) of (rsp, st) \<Rightarrow> (Ready rsp took, fst s, st))"

section \<open>What the layers of tower-http document\<close>

definition with_request_id :: "('ip request \<Rightarrow> rstring) \<Rightarrow> 'ip request \<Rightarrow> 'ip request" where
  "with_request_id fresh_id r =
     (if map_of (rq_headers r) request_id_header = None
      then r\<lparr> rq_headers := rq_headers r @ [(request_id_header, fresh_id r)] \<rparr> else r)"

definition propagated :: "'ip request \<Rightarrow> http_response \<Rightarrow> http_response" where
  "propagated r rsp = (case map_of (rq_headers r) request_id_header of
     None \<Rightarrow> rsp
   | Some i \<Rightarrow>
       if map_of (rs_headers rsp) request_id_header = None
       then rsp\<lparr> rs_headers := rs_headers rsp @ [(request_id_header, i)] \<rparr> else rsp)"

fun map_ready :: "('a \<Rightarrow> 'b) \<Rightarrow> 'a awaited \<Rightarrow> 'b awaited" where
  "map_ready f (Ready x t) = Ready (f x) t"
| "map_ready f Dropped = Dropped"

text \<open>
  Marking a header sensitive hides it from logs only; the request identifier is set when the
  client sent none, and copied to the response; tracing and the body limit hand the response on;
  the timeout answers with its status when the service takes longer.
\<close>

definition tower_documented :: "('ip, 's) tower \<Rightarrow> ('ip request \<Rightarrow> rstring) \<Rightarrow> bool" where
  "tower_documented W fresh_id \<longleftrightarrow>
     (\<forall>hs S. tw_sensitive W hs S = S) \<and>
     (\<forall>S r. tw_set_request_id W request_id_header S r = S (with_request_id fresh_id r)) \<and>
     (\<forall>f S. tw_trace W f S = S) \<and>
     (\<forall>S r s. tw_propagate_request_id W request_id_header S r s = map_prod (map_ready (propagated r)) id (S r s)) \<and>
     (\<forall>status d S r s. tw_timeout W status d S r s = S r s \<or>
        (\<exists>t. d \<le> t \<and> fst (tw_timeout W status d S r s) = Ready (plain_response status Empty) t) \<and>
        (\<forall>rsp t. fst (S r s) = Ready rsp t \<longrightarrow> d \<le> t)) \<and>
     (\<forall>n S. tw_body_limit W n S = S)"

section \<open>The identifier of every response\<close>

lemma header_names_differ:
  "lit ''www-authenticate'' \<noteq> request_id_header" "lit ''retry-after'' \<noteq> request_id_header"
  "lit ''content-type'' \<noteq> request_id_header"
  by (simp_all add: request_id_header_def)

definition no_request_id :: "http_response \<Rightarrow> bool" where
  "no_request_id rsp \<longleftrightarrow> map_of (rs_headers rsp) request_id_header = None"

lemma plain_no_request_id [simp]: "no_request_id (plain_response status b)"
  by (simp add: no_request_id_def plain_response_def)

lemma error_no_request_id: "no_request_id (error_into_response e)"
  using header_names_differ by (simp add: no_request_id_def error_into_response_def split: option.split)

lemma handler_no_request_id:
  assumes "handle E rt r s = (Inr rsp, s')"
  shows "no_request_id rsp"
proof (cases rt)
  case (Metrics t)
  with assms header_names_differ show ?thesis
    by (auto simp: handle_def lift_result_def metrics_endpoint_def no_request_id_def plain_response_def
        split: if_splits option.splits sum.splits)
qed (use assms in \<open>auto simp: handle_def handle_list_def handle_create_def handle_get_def handle_update_def
      handle_delete_def op_simps lift_result_def Let_def live_def ready_def\<close>)

lemma run_handler_no_request_id: "no_request_id (fst (run_handler E rt r st))"
  using handler_no_request_id [of E rt r "(as_db st, as_cache st)"] error_no_request_id
  by (auto simp: run_handler_def split: prod.split sum.split)

lemma rate_limit_no_request_id: "no_request_id (rate_limit_response e)"
  using header_names_differ by (simp add: rate_limit_response_def no_request_id_def plain_response_def split: governor_error.split)

lemma serve_no_request_id: "no_request_id (fst (serve E r st))"
proof -
  have "no_request_id (fst (serve_route E rt r st))" for rt
    using run_handler_no_request_id rate_limit_no_request_id error_no_request_id
    by (auto simp: serve_route_def split: option.split prod.split sum.split)
  moreover have "no_request_id (rsp\<lparr> rs_body := b \<rparr>) = no_request_id rsp" for rsp b
    by (simp add: no_request_id_def)
  ultimately show ?thesis
    unfolding serve_def by (auto split: sum.split prod.split) (metis fst_conv)+
qed

lemma metrics_layer_hands_on:
  "metrics_layer token inner r s = (Ready rsp t, m', x) \<Longrightarrow> \<exists>m. inner r s = (Ready rsp t, m, x)"
  by (auto simp: metrics_layer_def record_http_metrics_def Let_def split: prod.splits awaited.splits)

lemma metrics_layer_ready:
  "inner r s = (Ready rsp t, m, x) \<Longrightarrow> \<exists>m'. metrics_layer token inner r s = (Ready rsp t, m', x)"
  by (simp add: metrics_layer_def record_http_metrics_def Let_def)

lemma request_id_present: "\<exists>i. map_of (rq_headers (with_request_id f r)) request_id_header = Some i"
  by (auto simp: with_request_id_def map_add_def)

lemma request_id_value:
  "map_of (rq_headers (with_request_id f r)) request_id_header =
     Some (case map_of (rq_headers r) request_id_header of None \<Rightarrow> f r | Some i \<Rightarrow> i)"
  by (auto simp: with_request_id_def map_add_def split: option.split)

lemma other_headers_kept:
  "n \<noteq> request_id_header \<Longrightarrow> map_of (rq_headers (with_request_id f r)) n = map_of (rq_headers r) n"
  by (auto simp: with_request_id_def map_add_def split: option.split)

text \<open>
  C28. Every response carries the request's identifier, timeouts included.  Given what tower-http
  documents of its layers: whatever the server answers, refusals and timeouts included, has the
  \<open>x-request-id\<close> the client sent or the one made for it; and the answer is the answer of the
  routes to the request with this identifier added, changed in nothing else, unless the routes
  took at least the request timeout, when it may be an empty 408.
\<close>

theorem responses_carry_request_id:
  assumes "tower_documented W fresh_id"
    and "router_service W print_status c (routes E took) r (m, st) = (Ready rsp t, m', st')"
  shows "map_of (rs_headers rsp) (lit ''x-request-id'') =
       Some (case map_of (rq_headers r) (lit ''x-request-id'') of None \<Rightarrow> fresh_id r | Some i \<Rightarrow> i) \<and>
     (serve E (with_request_id fresh_id r) st =
        (rsp\<lparr> rs_headers := butlast (rs_headers rsp) \<rparr>, st') \<or>
      rs_status rsp = 408 \<and> rs_body rsp = Empty \<and>
        from_secs (rc_request_timeout_seconds c) \<le> took)"
proof -
  let ?r = "with_request_id fresh_id r"
  let ?S = "metrics_layer (rc_metrics_token c) (routes E took)"
  let ?T = "tw_timeout W 408 (from_secs (rc_request_timeout_seconds c)) ?S"
  from assms have run: "map_prod (map_ready (propagated ?r)) id (?T ?r (m, st)) = (Ready rsp t, m', st')"
    by (simp add: tower_documented_def router_service_def outer_layers_def)
  then obtain rsp0 where inner: "?T ?r (m, st) = (Ready rsp0 t, m', st')" and rsp: "rsp = propagated ?r rsp0"
    by (cases "?T ?r (m, st)"; cases "fst (?T ?r (m, st))") auto
  obtain sv st0 where sv: "serve E ?r st = (sv, st0)" by fastforce
  then have "routes E took ?r (m, st) = (Ready sv took, m, st0)" by (simp add: routes_def)
  from metrics_layer_ready [of "routes E took", OF this] obtain m0 where
    S: "?S ?r (m, st) = (Ready sv took, m0, st0)" by (rule exE)
  from assms(1) have "?T ?r (m, st) = ?S ?r (m, st) \<or>
      (\<exists>t. from_secs (rc_request_timeout_seconds c) \<le> t \<and> fst (?T ?r (m, st)) = Ready (plain_response 408 Empty) t) \<and>
      (\<forall>rsp t. fst (?S ?r (m, st)) = Ready rsp t \<longrightarrow> from_secs (rc_request_timeout_seconds c) \<le> t)"
    unfolding tower_documented_def by (elim conjE) (erule allE)+
  with inner S have cases: "rsp0 = sv \<and> st' = st0 \<or>
      rsp0 = plain_response 408 Empty \<and> from_secs (rc_request_timeout_seconds c) \<le> took" by auto
  then have none: "no_request_id rsp0" using serve_no_request_id [of E ?r st] sv by auto
  then have rsp: "rsp = rsp0\<lparr> rs_headers := rs_headers rsp0 @ [(request_id_header,
      case map_of (rq_headers r) request_id_header of None \<Rightarrow> fresh_id r | Some i \<Rightarrow> i)] \<rparr>"
    by (simp add: rsp propagated_def request_id_value no_request_id_def)
  with none have id: "map_of (rs_headers rsp) request_id_header =
      Some (case map_of (rq_headers r) request_id_header of None \<Rightarrow> fresh_id r | Some i \<Rightarrow> i)"
    by (simp add: no_request_id_def map_add_def)
  have "rs_status rsp = rs_status rsp0" "rs_body rsp = rs_body rsp0" "rsp\<lparr> rs_headers := butlast (rs_headers rsp) \<rparr> = rsp0"
    by (simp_all add: rsp)
  with cases sv have "serve E ?r st = (rsp\<lparr> rs_headers := butlast (rs_headers rsp) \<rparr>, st') \<or>
      rs_status rsp = 408 \<and> rs_body rsp = Empty \<and> from_secs (rc_request_timeout_seconds c) \<le> took"
    by (auto simp: plain_response_def)
  with id show ?thesis unfolding request_id_header_def ..
qed

text \<open>Layers as documented, and a request that takes longer than its timeout of ten seconds.\<close>

definition sample_tower :: "(rstring, 's) tower" where
  "sample_tower = \<lparr> tw_sensitive = (\<lambda>hs S. S),
     tw_set_request_id = (\<lambda>h S r. S (with_request_id (\<lambda>_. lit ''r1'') r)),
     tw_trace = (\<lambda>f S. S),
     tw_propagate_request_id = (\<lambda>h S r s. map_prod (map_ready (propagated r)) id (S r s)),
     tw_timeout = (\<lambda>status d S r s. case S r s of
        (Ready rsp t, s') \<Rightarrow> if d < t then (Ready (plain_response status Empty) d, s') else (Ready rsp t, s')
      | (Dropped, s') \<Rightarrow> (Dropped, s')),
     tw_body_limit = (\<lambda>n S. S) \<rparr>"

lemma sample_tower_documented: "tower_documented sample_tower (\<lambda>_. lit ''r1'')"
  by (auto simp: tower_documented_def sample_tower_def split: prod.split awaited.split)

definition sample_live :: "rstring request" where
  "sample_live = \<lparr> rq_method = GET, rq_path = [lit ''health''], rq_headers = [], rq_query = [], rq_body = [],
     rq_connect_info = None, rq_socket_addr = None \<rparr>"

definition sample_router_config :: "rchar router_config" where
  "sample_router_config = \<lparr> rc_request_timeout_seconds = 10, rc_max_request_body_bytes = 65536,
     rc_rate_limit_requests_per_minute = 120, rc_rate_limit_burst = 30, rc_trusted_proxy_cidrs = [],
     rc_metrics_token = None \<rparr>"

theorem responses_carry_request_id_witness:
  "\<exists>rsp t. fst (router_service sample_tower (\<lambda>_. []) sample_router_config (routes sample_base 20000000000) sample_live
       (None, \<lparr> as_db = sample_users, as_cache = sample_redis, as_keys = sample_key_state \<rparr>)) = Ready rsp t \<and>
     rs_status rsp = 408 \<and> map_of (rs_headers rsp) (lit ''x-request-id'') = Some (lit ''r1'')"
proof -
  let ?st = "\<lparr> as_db = sample_users, as_cache = sample_redis, as_keys = sample_key_state \<rparr>"
  let ?r = "with_request_id (\<lambda>_. lit ''r1'') sample_live"
  let ?run = "router_service sample_tower (\<lambda>_. []) sample_router_config (routes sample_base 20000000000) sample_live (None, ?st)"
  have r: "rq_method ?r = GET" "rq_path ?r = [lit ''health'']"
    by (simp_all add: with_request_id_def sample_live_def)
  have "route_of token fs GET [lit ''health''] = Inr HealthLive" for token fs
    by (simp add: route_of_def get_only_def)
  with r have serve: "serve sample_base ?r ?st = (live, ?st)"
    by (simp add: serve_def serve_route_def route_scope_def run_handler_def handle_def lift_result_def del: lit_simps)
  then have "routes sample_base 20000000000 ?r (None, ?st) = (Ready live 20000000000, None, ?st)"
    by (simp add: routes_def)
  from metrics_layer_ready [of "routes sample_base 20000000000", OF this] obtain m' where
    "metrics_layer None (routes sample_base 20000000000) ?r (None, ?st) = (Ready live 20000000000, m', ?st)" by (rule exE)
  then have run: "?run = (Ready (propagated ?r (plain_response 408 Empty)) 10000000000, m', ?st)"
    by (simp add: router_service_def outer_layers_def sample_tower_def sample_router_config_def from_secs_def)
  have status: "rs_status (propagated ?r (plain_response 408 Empty)) = 408"
    by (simp add: propagated_def plain_response_def split: option.split)
  have "map_of (rq_headers sample_live) (lit ''x-request-id'') = None" by (simp add: sample_live_def)
  with responses_carry_request_id [OF sample_tower_documented run] run status show ?thesis
    by (simp del: lit_simps)
qed

end
