(* ===== verification/Spec2Isabelle.thy ===== *)
theory Spec2Isabelle
  imports Job_System Bootstrap Telemetry Scaffold_Generate User_Concurrency User_Repository_Spec Commands Shutdown Http_Stack Http_Errors
begin

text \<open>
  Verification of the Rust service skeleton: a user API over PostgreSQL and Redis with OIDC access
  tokens, a background-job queue in the same database, and \<open>skeleton-new\<close>, the generator of new
  projects from the skeleton.

  \<^bold>\<open>The program.\<close>  One binary has four uses.  The HTTP server (\<open>src/src/presentation/http\<close>) takes
  a request through the rate limiter and the scope check to a handler; the handler calls one use case
  (\<open>src/src/application/user\<close>), which works on two ports, the user repository and the user cache.
  Creating a user also stores a job, in the same transaction.  The worker (\<open>application/job/worker.rs\<close>,
  \<open>bootstrap/worker.rs\<close>) claims jobs under a lease, runs their handler beside a heartbeat that renews
  the lease, and completes or fails them; any number of workers share the table.  The third use
  runs both in one process, the fourth looks after the migrations.  The adapters of the ports are in
  \<open>src/src/infrastructure\<close>; \<open>src/src/bootstrap\<close> reads the configuration and puts everything together.
  The generator is the separate crate \<open>src/scaffold\<close>.

  \<^bold>\<open>Conventions\<close> (theory Prelude).  A \<open>Result\<close> is a sum, \<open>Inl\<close> the error; an operation on state
  is a function from the state to a result and the new state (\<open>op\<close>), composed by \<open>op_bind\<close> the way
  \<open>?\<close> composes calls.  A port is a record of such operations and its contract a locale, interpreted
  on the adapter's definitions.  Strings are lists of Unicode scalar values; \<open>u32\<close>, \<open>u64\<close> and UUIDs are
  words; durations and instants are nanoseconds, database times are integers.  Theory Utf8
  has the standard library's decoding of bytes, with both round trips.

  \<^bold>\<open>Jobs.\<close>
  \<^item> Job_Model: \<open>application/job/model.rs\<close>, \<open>ports.rs\<close>; the port \<open>job_queue\<close> and the locale
    \<open>job_queue_contract\<close>.
  \<^item> Pg_Database: the tables of \<open>migrations/\<close>, statements, and the network (\<open>faults\<close>): a statement's request
    or its reply may be lost, so an error never tells whether it took effect.
  \<^item> Job_Queue_Pg: the statements and methods of \<open>postgres/job_queue.rs\<close>.
  \<^item> Job_Queue_Spec: an abstract queue that the lease-checked calls refine, the exact effect of a
    claim, recovery of abandoned jobs, progress, purging, the table invariant; the interpretation \<open>pgq\<close>.
  \<^item> Job_Worker: \<open>application/job/worker.rs\<close>.  The heartbeat loop runs over a list of inputs, one per
    renewal, which is its fuel; \<open>heartbeat_terminates\<close> says how many are enough.
  \<^item> Job_System: a step relation for any number of workers, one table and messages in flight.  Its
    invariant gives mutual exclusion of live attempts, the bound on attempts and finality.
  \<^item> Worker_Process: the loop of \<open>bootstrap/worker.rs\<close> with \<open>shutdown.rs\<close> and the handler
    \<open>user_created_handler.rs\<close>; one list element per round is the fuel, and
    \<open>worker_shutdown_terminates\<close> says that a requested shutdown ends the loop.
  \<^item> Shutdown: the rest of \<open>shutdown.rs\<close> and the channels of \<open>bootstrap/mod.rs\<close>: a signal becomes the
    request, and \<open>signal_stops_worker\<close> follows it to the end of the worker.

  \<^bold>\<open>Users.\<close>
  \<^item> Domain_User: \<open>domain/user\<close>, with the grammar that the e-mail parser accepts.
  \<^item> App_User: \<open>application/user\<close>: the five use cases, the contracts of the repository and the cache and the
    locale \<open>user_service\<close> with what the use cases guarantee over them.
  \<^item> User_Repository_Pg, User_Cache: the adapters and their interpretations.
  \<^item> User_Service: the use cases on the adapters: reads through the cache answer what the table holds,
    updates are read back, pages tile the list, a registration is atomic.
  \<^item> User_Repository_Spec: the documented store, a map with unique addresses that refuses stale updates, and
    the refinement: every sequence of repository calls in which no update is stale answers as this
    store, each lost call having its whole effect or none.  (On a stale update the code overwrites.)
  \<^item> User_Concurrency: the use cases once more, one step per await (\<open>calls_are_use_cases\<close> is the
    equivalence), and a step relation for overlapping requests, a clock, expiry and other writers.
    The interpretation \<open>overlap\<close> gives the bound on the age of an answer; its witness is the race of a
    read with a deletion.

  \<^bold>\<open>Access.\<close>
  \<^item> Oidc: \<open>infrastructure/oidc/mod.rs\<close> and \<open>application/auth.rs\<close>, whose port is the locale
    \<open>access_token_verifier\<close>; the router's lemmas are proved over it.
  \<^item> Oidc_Keys: the key index, the cache that fails closed and asks the provider at most once per
    interval, soundness of accepted tokens with the interpretation \<open>tokens\<close> of the port, what discovery
    guarantees.
  \<^item> Http: errors, bearer tokens, scopes, the client key of the rate limiter on the cases the documents
    settle, health and metrics.
  \<^item> Http_Api: requests, responses, handlers and the router of \<open>presentation/http\<close>.  A wrong method on a user
    path goes through limiter and scope check like a handler, since \<open>route_layer\<close> wraps the fallback too.
  \<^item> Http_Errors: the documented status and error code of every route as a function of the request and
    the stored users, and that the handlers answer so, or 503 for a stated cause.
  \<^item> Http_Stack: the layers of \<open>build_router\<close> around the routes in their order; every response, a
    timeout included, carries the identifier of its request.
  \<^item> Telemetry: \<open>telemetry/mod.rs\<close> and the metrics layer of the router: what the counters count over
    all interleavings of requests, and the trace that follows a job.

  \<^bold>\<open>Assembly.\<close>
  \<^item> App_Config: \<open>config/mod.rs\<close> over an environment: which environments load, and to which numbers.
  \<^item> Migrations: \<open>postgres/migrations.rs\<close>, \<open>health_check.rs\<close>, and the ledger and the migration files of
    \<open>bootstrap/database.rs\<close>, with writes and removals that fail.
  \<^item> Commands: the database commands of \<open>bootstrap/database.rs\<close> as they run, with their connection and
    sqlx's migrator as parameters; what they may change.
  \<^item> Bootstrap: \<open>cli.rs\<close> and the rest of \<open>bootstrap/\<close>.  \<open>started_server_authorizes_writes\<close> goes through all
    layers: configuration, discovery, router, verifier, use case, statement; \<open>redis_is_optional\<close>
    says that no outcome of the Redis connection stops the start.

  \<^bold>\<open>The generator.\<close>
  \<^item> Scaffold_Names: \<open>name.rs\<close> and the renamer of \<open>lib.rs\<close>.
  \<^item> Scaffold_Lock: \<open>lockfile.rs\<close>: the packages are kept and sorted.
  \<^item> Scaffold_Generate: \<open>source.rs\<close>, \<open>lib.rs\<close>, \<open>main.rs\<close> over a table of files: what is generated, that
    nothing is overwritten, and that the checkout is removed on every path.

  \<^bold>\<open>Parameters.\<close>  Code of other crates is an argument of the definitions that use it: signature checks and
  JSON of tokens (\<open>jsonwebtoken\<close>), URL and UUID parsing, serde's codec of a cached user, the case
  mapping outside of ASCII, the layers of tower-http, which fallback of two merged routers axum keeps, sqlx's migrator, IP addresses and CIDR blocks, the
  token bucket, the OpenTelemetry propagator and exporters, the replacement of several patterns (\<open>aho-corasick\<close>), git and cargo.  Where a
  theorem relies on one of them, its documented behaviour is a named hypothesis
  (\<open>decode_reads_payload\<close>, \<open>lower_stable\<close>, \<open>codec_ok\<close>, \<open>leftmost_longest_replacer\<close>, \<open>git_confined\<close>,
  \<open>lists_plain_names\<close>, \<open>tower_documented\<close>), and a witness instantiates it.

  \<^bold>\<open>PostgreSQL\<close> is modelled statement by statement: rows locked by other transactions are skipped
  where the SQL says so, constraints are checked, a text with U+0000 is refused.  Statements are atomic
  and are ordered by the step relations of Job_System and User_Concurrency.  Instants and
  intervals do not overflow.  In User_Concurrency a command of a request takes effect, if it does, before
  the request's timeout has passed, and Redis drops an entry when its time to live has.

  \<^bold>\<open>Not modelled.\<close>  Log lines and printed text; connection pools, sockets and the
  asynchronous runtime beyond the order in which awaited events are seen; the insides of tower-http and
  axum; command-line parsing (clap); execution of
  the migration files (sqlx); symbolic links and half-written files in the generator's file table; the
  tests.
\<close>

end
